(* ===== verification/Prelude.thy ===== *)
theory Prelude
  imports Main "HOL-Library.Word" "HOL-Library.Monad_Syntax"
begin

text \<open>
  Shared types and lemmas: the machine types of the C code (bytes, \<open>uint16_t\<close>,
  \<open>size_t\<close>, pointers), the layout of 16-bit and 32-bit integers in memory, the byte-order
  conversions of \<open>arpa/inet.h\<close>, and list facts that several components use.

  Conventions of the whole development. The host is little-endian with 64-bit pointers (the
  Android and Linux targets of the build files). A pointer is a 64-bit word and NULL is 0.
  A function that can run into undefined behaviour (a NULL or dangling dereference, an access
  outside an object) has an \<open>option\<close> result whose \<open>None\<close> is that undefined
  behaviour, so a theorem that the result is \<open>Some\<close> contains memory safety.
\<close>

named_theorems bytes_simps
named_theorems heap_simps

unbundle bit_operations_syntax

type_synonym byte = "8 word"
type_synonym u16 = "16 word"
type_synonym u32 = "32 word"
type_synonym size_t = "64 word"
type_synonym ptr = "64 word"

section \<open>Integers in memory\<close>

text \<open>The two bytes of a \<open>uint16_t\<close> in memory, lowest address first, and back.\<close>

definition u16_bytes :: "u16 \<Rightarrow> byte list" where
  "u16_bytes v = [ucast v, ucast (drop_bit 8 v)]"

definition bytes_u16 :: "byte \<Rightarrow> byte \<Rightarrow> u16" where
  "bytes_u16 lo hi = ucast lo OR push_bit 8 (ucast hi)"

text \<open>\<open>htons\<close> and \<open>ntohs\<close> swap the two bytes on a little-endian host.\<close>

definition htons :: "u16 \<Rightarrow> u16" where
  "htons v = push_bit 8 v OR drop_bit 8 v"

definition ntohs :: "u16 \<Rightarrow> u16" where
  "ntohs v = push_bit 8 v OR drop_bit 8 v"

definition u32_bytes :: "u32 \<Rightarrow> byte list" where
  "u32_bytes v = [ucast v, ucast (drop_bit 8 v), ucast (drop_bit 16 v), ucast (drop_bit 24 v)]"

definition bytes_u32 :: "byte \<Rightarrow> byte \<Rightarrow> byte \<Rightarrow> byte \<Rightarrow> u32" where
  "bytes_u32 a b c d = ucast a OR push_bit 8 (ucast b) OR push_bit 16 (ucast c)
     OR push_bit 24 (ucast d)"

text \<open>\<open>htonl\<close> and \<open>ntohl\<close> reverse the four bytes.\<close>

definition ntohl :: "u32 \<Rightarrow> u32" where
  "ntohl v = bytes_u32 (ucast (drop_bit 24 v)) (ucast (drop_bit 16 v))
     (ucast (drop_bit 8 v)) (ucast v)"

lemma length_u16_bytes [simp]: "length (u16_bytes v) = 2"
  by (simp add: u16_bytes_def)

lemma bytes_u16_inverse [simp]:
  "bytes_u16 (u16_bytes v ! 0) (u16_bytes v ! Suc 0) = v"
  by (rule bit_word_eqI)
    (auto simp: bytes_u16_def u16_bytes_def bit_simps)

lemma not_bit_ge [simp]: "8 \<le> n \<Longrightarrow> \<not> bit (w :: byte) n"
  by (auto dest: bit_imp_le_length)

lemma u16_bytes_inverse [simp]: "u16_bytes (bytes_u16 lo hi) = [lo, hi]"
  by (auto simp: bytes_u16_def u16_bytes_def bit_simps intro!: bit_word_eqI)

lemma ntohs_htons [simp]: "ntohs (htons v) = v"
  by (rule bit_word_eqI) (auto simp: ntohs_def htons_def bit_simps dest: bit_imp_le_length)

lemma htons_ntohs [simp]: "htons (ntohs v) = v"
  by (rule bit_word_eqI) (auto simp: ntohs_def htons_def bit_simps dest: bit_imp_le_length)

lemma length_u32_bytes [simp]: "length (u32_bytes v) = 4"
  by (simp add: u32_bytes_def)

lemma u32_bytes_inverse [simp]: "u32_bytes (bytes_u32 a b c d) = [a, b, c, d]"
  by (auto simp: bytes_u32_def u32_bytes_def bit_simps intro!: bit_word_eqI)

lemma bytes_u32_inverse:
  "bytes_u32 (ucast v) (ucast (drop_bit 8 v)) (ucast (drop_bit 16 v)) (ucast (drop_bit 24 v)) = v"
proof (rule bit_word_eqI)
  fix n assume n: "n < LENGTH(32)"
  consider "n < 8" | "8 \<le> n" "n < 16" | "16 \<le> n" "n < 24" | "24 \<le> n" by linarith
  then show "bit (bytes_u32 (ucast v) (ucast (drop_bit 8 v)) (ucast (drop_bit 16 v))
      (ucast (drop_bit 24 v))) n = bit v n"
    by cases (use n in \<open>auto simp: bytes_u32_def bit_simps\<close>)
qed

lemma ntohl_ntohl [simp]: "ntohl (ntohl v) = v"
proof -
  have "u32_bytes (ntohl v) = rev (u32_bytes v)"
    by (simp add: ntohl_def) (simp add: u32_bytes_def)
  then have "ucast (ntohl v) = (ucast (drop_bit 24 v) :: byte)"
    "ucast (drop_bit 8 (ntohl v)) = (ucast (drop_bit 16 v) :: byte)"
    "ucast (drop_bit 16 (ntohl v)) = (ucast (drop_bit 8 v) :: byte)"
    "ucast (drop_bit 24 (ntohl v)) = (ucast v :: byte)"
    by (simp_all add: u32_bytes_def)
  then show ?thesis
    by (simp add: ntohl_def [of "ntohl v"] bytes_u32_inverse)
qed

section \<open>Sizes without wrap-around\<close>

lemma unat_sub_size: "b \<le> a \<Longrightarrow> unat (a - b :: size_t) = unat a - unat b"
  by (simp add: unat_sub)

lemma unat_sub_size': "unat b \<le> unat a \<Longrightarrow> unat (a - b :: size_t) = unat a - unat b"
  by (simp add: unat_sub word_le_nat_alt)

lemma unat_add_size:
  "unat a + unat b < 2 ^ 64 \<Longrightarrow> unat (a + b :: size_t) = unat a + unat b"
  by (simp add: unat_word_ariths)

lemma unat_of_nat_size: "n < 2 ^ 64 \<Longrightarrow> unat (of_nat n :: size_t) = n"
  by (simp add: unat_of_nat)

lemma unat_ucast_u16 [simp]: "unat (ucast (v :: u16) :: size_t) = unat v"
  by transfer (simp add: take_bit_take_bit min_def)

lemma unat_ucast_size_u16: "unat (v :: size_t) < 2 ^ 16 \<Longrightarrow> unat (ucast v :: u16) = unat v"
  by (simp add: unsigned_ucast_eq unsigned_take_bit_eq take_bit_eq_mod)

lemma mod_shift_back:
  assumes "i < L" and "w < (L :: nat)"
  shows "((w + i) mod L + L - w) mod L = i"
proof (cases "w + i < L")
  case True
  then show ?thesis using assms by simp
next
  case False
  then have "(w + i) mod L = w + i - L"
    using assms by (simp add: mod_if)
  then show ?thesis using assms False by simp
qed

lemma mod_shift_forth:
  assumes "k < L" and "w < (L :: nat)"
  shows "(w + (k + L - w) mod L) mod L = k"
proof (cases "w \<le> k")
  case True
  then have "(k + L - w) mod L = k - w" using assms
    by (metis Nat.add_diff_assoc2 diff_le_self mod_add_self2 mod_less order_le_less_trans)
  then show ?thesis using assms True by simp
next
  case False
  then have "(k + L - w) mod L = k + L - w" using assms by simp
  then show ?thesis using assms False by simp
qed

section \<open>Lists\<close>

lemma take_drop_append [simp]: "take n xs @ drop n xs @ ys = xs @ ys"
  by (simp add: append.assoc [symmetric] del: append.assoc)

section \<open>The store\<close>

text \<open>
  A heap maps the addresses of live objects of one type to their contents. Reading through
  NULL or a dangling pointer is undefined behaviour.
\<close>

definition deref :: "(ptr \<rightharpoonup> 'a) \<Rightarrow> ptr \<Rightarrow> 'a option" where
  "deref h p = (if p = 0 then None else h p)"

lemma deref_Some [heap_simps]: "p \<noteq> 0 \<Longrightarrow> deref h p = h p"
  by (simp add: deref_def)

lemma deref_NULL [simp]: "deref h 0 = None"
  by (simp add: deref_def)

lemma deref_upd [heap_simps]:
  "deref (h(a \<mapsto> v)) p = (if p = 0 then None else if p = a then Some v else deref h p)"
  by (simp add: deref_def)

section \<open>Byte arrays\<close>

text \<open>
  Reading and writing \<open>n\<close> bytes of an object from offset \<open>i\<close>, as \<open>memcpy\<close> does;
  an access that leaves the object is undefined behaviour.
\<close>

definition write_at :: "byte list \<Rightarrow> nat \<Rightarrow> byte list \<Rightarrow> byte list" where
  "write_at d i bs = take i d @ bs @ drop (i + length bs) d"

lemma length_write_at [simp]:
  "i + length bs \<le> length d \<Longrightarrow> length (write_at d i bs) = length d"
  by (simp add: write_at_def)

lemma nth_write_at:
  "i + length bs \<le> length d \<Longrightarrow> k < length d \<Longrightarrow>
   write_at d i bs ! k = (if i \<le> k \<and> k < i + length bs then bs ! (k - i) else d ! k)"
  by (auto simp: write_at_def nth_append)

definition mem_read :: "byte list \<Rightarrow> nat \<Rightarrow> nat \<Rightarrow> byte list option" where
  "mem_read d i n = (if i + n \<le> length d then Some (take n (drop i d)) else None)"

definition mem_write :: "byte list \<Rightarrow> nat \<Rightarrow> byte list \<Rightarrow> byte list option" where
  "mem_write d i bs = (if i + length bs \<le> length d then Some (write_at d i bs) else None)"

definition mem_get :: "byte list \<Rightarrow> nat \<Rightarrow> byte option" where
  "mem_get d i = (if i < length d then Some (d ! i) else None)"

lemma mem_read_Some [bytes_simps]: "i + n \<le> length d \<Longrightarrow> mem_read d i n = Some (take n (drop i d))"
  by (simp add: mem_read_def)

lemma mem_write_Some [bytes_simps]:
  "i + length bs \<le> length d \<Longrightarrow> mem_write d i bs = Some (write_at d i bs)"
  by (simp add: mem_write_def)

lemma mem_get_Some [bytes_simps]: "i < length d \<Longrightarrow> mem_get d i = Some (d ! i)"
  by (simp add: mem_get_def)

lemma mem_read_length: "mem_read d i n = Some bs \<Longrightarrow> length bs = n"
  by (auto simp: mem_read_def split: if_splits)

lemma mem_write_length: "mem_write d i bs = Some d' \<Longrightarrow> length d' = length d"
  by (auto simp: mem_write_def split: if_splits)

lemma take_write_at_before [simp]: "j \<le> i \<Longrightarrow> i \<le> length d \<Longrightarrow> take j (write_at d i bs) = take j d"
  by (simp add: write_at_def min_def)

lemma write_at_0: "length bs \<le> length d \<Longrightarrow> write_at d 0 bs = bs @ drop (length bs) d"
  by (simp add: write_at_def)

lemma take_drop_write_at [simp]:
  "i + length bs \<le> length d \<Longrightarrow> take (length bs) (drop i (write_at d i bs)) = bs"
  by (simp add: write_at_def)

lemma take_drop_write_at_disjoint:
  "i + length bs \<le> length d \<Longrightarrow> j + n \<le> length d \<Longrightarrow> j + n \<le> i \<or> i + length bs \<le> j \<Longrightarrow>
   take n (drop j (write_at d i bs)) = take n (drop j d)"
  by (rule nth_equalityI) (auto simp: nth_write_at)

section \<open>C strings\<close>

text \<open>
  The content of a C string is the byte list without its terminating NUL. \<open>c_strlen\<close>
  scans an object for the NUL and is undefined when there is none.
\<close>

definition is_cstr :: "byte list \<Rightarrow> bool" where
  "is_cstr s \<longleftrightarrow> 0 \<notin> set s"

fun c_strlen :: "byte list \<Rightarrow> nat option" where
  "c_strlen [] = None"
| "c_strlen (b # bs) = (if b = 0 then Some 0 else map_option Suc (c_strlen bs))"

definition c_string :: "byte list \<Rightarrow> byte list option" where
  "c_string bs = map_option (\<lambda>n. take n bs) (c_strlen bs)"

text \<open>The \<open>n\<close> bytes that \<open>strncpy (dst, s, n)\<close> stores.\<close>

definition c_strncpy :: "byte list \<Rightarrow> nat \<Rightarrow> byte list" where
  "c_strncpy s n = take n (s @ replicate n 0)"

lemma length_c_strncpy [simp]: "length (c_strncpy s n) = n"
  by (simp add: c_strncpy_def)

lemma c_strlen_cstr [simp]: "is_cstr s \<Longrightarrow> c_strlen (s @ 0 # bs) = Some (length s)"
  by (induction s) (auto simp: is_cstr_def)

lemma c_string_cstr [simp]: "is_cstr s \<Longrightarrow> c_string (s @ 0 # bs) = Some s"
  by (simp add: c_string_def)

lemma c_strncpy_short: "length s < n \<Longrightarrow> c_strncpy s n = s @ 0 # replicate (n - Suc (length s)) 0"
  by (simp add: c_strncpy_def min_def)
    (metis Suc_diff_Suc replicate_Suc)

lemma c_strlen_Some_iff: "(\<exists>n. c_strlen bs = Some n) \<longleftrightarrow> 0 \<in> set bs"
  by (induction bs) auto

lemma c_strlen_bound: "c_strlen bs = Some n \<Longrightarrow> n < length bs \<and> bs ! n = 0 \<and> is_cstr (take n bs)"
  by (induction bs arbitrary: n) (auto simp: is_cstr_def split: if_splits)

end
