(* ===== verification/RingBuffer.thy ===== *)
theory RingBuffer
  imports Prelude
begin

text \<open>
  The ring buffer of \<open>misc/hev-ring-buffer.c\<close> that a TCP session keeps between the SOCKS5
  socket and lwIP. Positions and sizes are \<open>size_t\<close> words with C's wrap-around. An
  \<open>iovec\<close> points into \<open>data\<close>, so its base is the offset of its first byte, and the
  list of iovecs a function returns is as long as its return value. The buffer holds
  \<open>use_size\<close> bytes that end at \<open>wp\<close>: first those already handed to lwIP and not yet
  acknowledged, then \<open>rda_size\<close> bytes that start at \<open>rp\<close> and are still to be handed over.
  lwIP keeps references into the first part (\<open>tcp_write\<close> without the copy flag), so the
  lemmas follow the queue of all \<open>use_size\<close> bytes, not only the unread ones.
\<close>

record iovec =
  iov_base :: size_t
  iov_len :: size_t

record HevRingBuffer =
  rp :: size_t
  wp :: size_t
  rda_size :: size_t
  use_size :: size_t
  max_size :: size_t
  rb_data :: "byte list"

text \<open>\<open>alloca\<close> leaves the data bytes uninitialised: they are the argument \<open>junk\<close>.\<close>

definition hev_ring_buffer_alloca :: "size_t \<Rightarrow> byte list \<Rightarrow> HevRingBuffer" where
  "hev_ring_buffer_alloca s junk =
     \<lparr>rp = 0, wp = 0, rda_size = 0, use_size = 0, max_size = s, rb_data = junk\<rparr>"

definition hev_ring_buffer_get_max_size :: "HevRingBuffer \<Rightarrow> size_t" where
  "hev_ring_buffer_get_max_size self = max_size self"

definition hev_ring_buffer_get_use_size :: "HevRingBuffer \<Rightarrow> size_t" where
  "hev_ring_buffer_get_use_size self = use_size self"

definition hev_ring_buffer_reading :: "HevRingBuffer \<Rightarrow> iovec list" where
  "hev_ring_buffer_reading self =
     (if rda_size self = 0 then []
      else let upper_size = max_size self - rp self in
        if rda_size self \<le> upper_size
        then [\<lparr>iov_base = rp self, iov_len = rda_size self\<rparr>]
        else [\<lparr>iov_base = rp self, iov_len = upper_size\<rparr>,
              \<lparr>iov_base = 0, iov_len = rda_size self - upper_size\<rparr>])"

definition hev_ring_buffer_read_finish :: "HevRingBuffer \<Rightarrow> size_t \<Rightarrow> HevRingBuffer" where
  "hev_ring_buffer_read_finish self sz =
     self\<lparr>rp := (rp self + sz) mod max_size self, rda_size := rda_size self - sz\<rparr>"

definition hev_ring_buffer_read_release :: "HevRingBuffer \<Rightarrow> size_t \<Rightarrow> HevRingBuffer" where
  "hev_ring_buffer_read_release self sz =
     (let self = self\<lparr>use_size := use_size self - sz\<rparr>
      in if use_size self = 0 then self\<lparr>rp := 0, wp := 0\<rparr> else self)"

definition hev_ring_buffer_writing :: "HevRingBuffer \<Rightarrow> iovec list" where
  "hev_ring_buffer_writing self =
     (if use_size self = max_size self then []
      else let upper_size = max_size self - wp self;
               spc_size = max_size self - use_size self in
        if spc_size \<le> upper_size
        then [\<lparr>iov_base = wp self, iov_len = spc_size\<rparr>]
        else [\<lparr>iov_base = wp self, iov_len = upper_size\<rparr>,
              \<lparr>iov_base = 0, iov_len = spc_size - upper_size\<rparr>])"

definition hev_ring_buffer_write_finish :: "HevRingBuffer \<Rightarrow> size_t \<Rightarrow> HevRingBuffer" where
  "hev_ring_buffer_write_finish self sz =
     self\<lparr>wp := (wp self + sz) mod max_size self, use_size := use_size self + sz,
          rda_size := rda_size self + sz\<rparr>"

section \<open>Scatter and gather\<close>

text \<open>What \<open>readv\<close> does to the buffer when it delivers the bytes \<open>bs\<close>, and the bytes that
  \<open>tcp_write\<close> is given.\<close>

fun iov_scatter :: "iovec list \<Rightarrow> byte list \<Rightarrow> byte list \<Rightarrow> byte list" where
  "iov_scatter [] bs d = d"
| "iov_scatter (v # vs) bs d =
     (let n = unat (iov_len v)
      in iov_scatter vs (drop n bs) (write_at d (unat (iov_base v)) (take n bs)))"

definition iov_gather :: "iovec list \<Rightarrow> byte list \<Rightarrow> byte list" where
  "iov_gather vs d =
     concat (map (\<lambda>v. take (unat (iov_len v)) (drop (unat (iov_base v)) d)) vs)"

definition iov_size :: "iovec list \<Rightarrow> nat" where
  "iov_size vs = sum_list (map (\<lambda>v. unat (iov_len v)) vs)"

text \<open>Reading \<open>bs\<close> from the socket into the free space: \<open>readv\<close> and \<open>write_finish\<close>.\<close>

definition rb_fill :: "byte list \<Rightarrow> HevRingBuffer \<Rightarrow> HevRingBuffer" where
  "rb_fill bs self =
     hev_ring_buffer_write_finish
       (self\<lparr>rb_data := iov_scatter (hev_ring_buffer_writing self) bs (rb_data self)\<rparr>)
       (of_nat (length bs))"

section \<open>Well-formed buffers and the queue they hold\<close>

definition rb_ok :: "HevRingBuffer \<Rightarrow> bool" where
  "rb_ok self \<longleftrightarrow>
     0 < unat (max_size self) \<and> unat (max_size self) < 2 ^ 62 \<and>
     length (rb_data self) = unat (max_size self) \<and>
     unat (rp self) < unat (max_size self) \<and>
     unat (wp self) = (unat (rp self) + unat (rda_size self)) mod unat (max_size self) \<and>
     unat (rda_size self) \<le> unat (use_size self) \<and>
     unat (use_size self) \<le> unat (max_size self)"

text \<open>\<open>n\<close> bytes of the circular array \<open>d\<close> from position \<open>b\<close>.\<close>

definition ring :: "byte list \<Rightarrow> nat \<Rightarrow> nat \<Rightarrow> byte list" where
  "ring d b n = map (\<lambda>i. d ! ((b + i) mod length d)) [0..<n]"

definition rb_unacked_len :: "HevRingBuffer \<Rightarrow> nat" where
  "rb_unacked_len self = unat (use_size self) - unat (rda_size self)"

definition rb_queue :: "HevRingBuffer \<Rightarrow> byte list" where
  "rb_queue self =
     ring (rb_data self) (unat (rp self) + unat (max_size self) - rb_unacked_len self)
       (unat (use_size self))"

definition rb_unacked :: "HevRingBuffer \<Rightarrow> byte list" where
  "rb_unacked self = take (rb_unacked_len self) (rb_queue self)"

definition rb_pending :: "HevRingBuffer \<Rightarrow> byte list" where
  "rb_pending self = drop (rb_unacked_len self) (rb_queue self)"

definition rb_space :: "HevRingBuffer \<Rightarrow> nat" where
  "rb_space self = unat (max_size self) - unat (use_size self)"

lemma length_ring [simp]: "length (ring d b n) = n"
  by (simp add: ring_def)

lemma ring_0 [simp]: "ring d b 0 = []"
  by (simp add: ring_def)

lemma nth_ring [simp]: "i < n \<Longrightarrow> ring d b n ! i = d ! ((b + i) mod length d)"
  by (simp add: ring_def)

lemma ring_cong_mod:
  "b mod length d = b' mod length d \<Longrightarrow> ring d b n = ring d b' n"
  by (auto simp: ring_def) (metis mod_add_left_eq)

lemma ring_shift_len [simp]: "ring d (b + length d) n = ring d b n"
  by (rule ring_cong_mod) simp

lemma ring_append: "ring d b (m + n) = ring d b m @ ring d (b + m) n"
  by (rule nth_equalityI) (auto simp: nth_append add.assoc)

lemma ring_linear: "b + n \<le> length d \<Longrightarrow> ring d b n = take n (drop b d)"
  by (rule nth_equalityI) auto

lemma ring_wrap:
  assumes "b < length d" "length d - b \<le> n" "n \<le> length d"
  shows "ring d b n = drop b d @ take (n - (length d - b)) d"
proof -
  have "ring d b ((length d - b) + (n - (length d - b)))
      = ring d b (length d - b) @ ring d (b + (length d - b)) (n - (length d - b))"
    by (rule ring_append)
  also have "b + (length d - b) = 0 + length d" using assms by simp
  finally show ?thesis
    using assms by (simp only: ring_shift_len) (simp add: ring_linear)
qed

lemma length_rb_queue [simp]: "length (rb_queue self) = unat (use_size self)"
  by (simp add: rb_queue_def)

lemma rb_queue_split: "rb_queue self = rb_unacked self @ rb_pending self"
  by (simp add: rb_unacked_def rb_pending_def)

lemma rb_pending_ring:
  assumes "rb_ok self"
  shows "rb_pending self = ring (rb_data self) (unat (rp self)) (unat (rda_size self))"
proof -
  let ?u = "rb_unacked_len self" and ?d = "rb_data self"
  let ?b = "unat (rp self) + unat (max_size self) - ?u"
  have le: "?u \<le> unat (max_size self)" and use: "unat (use_size self) = ?u + unat (rda_size self)"
    and len: "length ?d = unat (max_size self)"
    using assms by (auto simp: rb_ok_def rb_unacked_len_def)
  have "ring ?d ?b (?u + unat (rda_size self))
      = ring ?d ?b ?u @ ring ?d (?b + ?u) (unat (rda_size self))"
    by (rule ring_append)
  moreover have "?b + ?u = unat (rp self) + length ?d" using le len by simp
  ultimately show ?thesis
    by (simp add: rb_pending_def rb_queue_def use del: ring_append)
qed

section \<open>Every operation on the queue\<close>

lemma writing_empty_iff:
  "rb_ok self \<Longrightarrow> hev_ring_buffer_writing self = [] \<longleftrightarrow> rb_space self = 0"
  by (auto simp: hev_ring_buffer_writing_def rb_space_def rb_ok_def Let_def word_unat_eq_iff)

lemma writing_cases:
  assumes "rb_ok self" and "rb_space self \<noteq> 0"
  obtains (one) v where "hev_ring_buffer_writing self = [v]"
      "unat (iov_base v) = unat (wp self)" "unat (iov_len v) = rb_space self"
      "unat (wp self) + rb_space self \<le> unat (max_size self)"
  | (two) v v' where "hev_ring_buffer_writing self = [v, v']"
      "unat (iov_base v) = unat (wp self)"
      "unat (iov_len v) = unat (max_size self) - unat (wp self)"
      "unat (iov_base v') = 0"
      "unat (iov_len v') = rb_space self - (unat (max_size self) - unat (wp self))"
      "unat (max_size self) < unat (wp self) + rb_space self"
proof -
  let ?M = "unat (max_size self)"
  have w: "unat (wp self) < ?M" and u: "unat (use_size self) \<le> ?M"
    using assms(1) by (auto simp: rb_ok_def)
  have ne: "use_size self \<noteq> max_size self"
    using assms(2) by (auto simp: rb_space_def)
  have up: "unat (max_size self - wp self) = ?M - unat (wp self)"
    and sp: "unat (max_size self - use_size self) = rb_space self"
    using w u by (simp_all add: unat_sub_size' rb_space_def)
  show thesis
  proof (cases "max_size self - use_size self \<le> max_size self - wp self")
    case True
    then have "rb_space self \<le> ?M - unat (wp self)"
      by (simp add: word_le_nat_alt up sp)
    with True ne w show ?thesis
      by (intro one [of "\<lparr>iov_base = wp self, iov_len = max_size self - use_size self\<rparr>"])
        (auto simp: hev_ring_buffer_writing_def Let_def sp)
  next
    case False
    then have lt: "?M - unat (wp self) < rb_space self"
      by (simp add: word_le_nat_alt up sp)
    then have "unat (max_size self - use_size self - (max_size self - wp self))
        = unat (max_size self - use_size self) - unat (max_size self - wp self)"
      by (intro unat_sub_size') (simp only: up sp less_imp_le)
    then have "unat (max_size self - use_size self - (max_size self - wp self))
        = rb_space self - (?M - unat (wp self))"
      by (simp only: up sp)
    with False ne w lt show ?thesis
      by (intro two [of "\<lparr>iov_base = wp self, iov_len = max_size self - wp self\<rparr>"
            "\<lparr>iov_base = 0, iov_len = max_size self - use_size self - (max_size self - wp self)\<rparr>"])
        (auto simp: hev_ring_buffer_writing_def Let_def up)
  qed
qed

lemma writing_size:
  "rb_ok self \<Longrightarrow> iov_size (hev_ring_buffer_writing self) = rb_space self"
  by (cases "rb_space self = 0")
    (auto simp: writing_empty_iff [THEN iffD2] iov_size_def elim!: writing_cases)

lemma scatter_writing:
  assumes ok: "rb_ok self" and le: "length bs \<le> rb_space self"
  shows "length (iov_scatter (hev_ring_buffer_writing self) bs (rb_data self))
      = unat (max_size self)"
    and "k < unat (max_size self) \<Longrightarrow>
      iov_scatter (hev_ring_buffer_writing self) bs (rb_data self) ! k =
      (let j = (k + unat (max_size self) - unat (wp self)) mod unat (max_size self)
       in if j < length bs then bs ! j else rb_data self ! k)"
proof -
  let ?M = "unat (max_size self)" and ?w = "unat (wp self)"
  have w: "?w < ?M" and len: "length (rb_data self) = ?M" and sp: "rb_space self \<le> ?M"
    using ok by (auto simp: rb_ok_def rb_space_def)
  have jk: "(k + ?M - ?w) mod ?M = (if ?w \<le> k then k - ?w else k + ?M - ?w)" if "k < ?M" for k
    using that w by (simp add: mod_if)
  show "length (iov_scatter (hev_ring_buffer_writing self) bs (rb_data self)) = ?M"
  proof (cases "rb_space self = 0")
    case True
    then show ?thesis using writing_empty_iff [OF ok] len by simp
  next
    case False
    with ok show ?thesis
      by (cases rule: writing_cases) (use le w len sp in \<open>auto simp: Let_def\<close>)
  qed
  assume k: "k < ?M"
  show "iov_scatter (hev_ring_buffer_writing self) bs (rb_data self) ! k =
      (let j = (k + ?M - ?w) mod ?M in if j < length bs then bs ! j else rb_data self ! k)"
  proof (cases "rb_space self = 0")
    case True
    then show ?thesis using writing_empty_iff [OF ok] le by simp
  next
    case False
    from ok False show ?thesis
    proof (cases rule: writing_cases)
      case one
      then show ?thesis using le w len k by (auto simp: nth_write_at jk Let_def)
    next
      case two
      have "length (take (?M - ?w) bs) \<le> ?M - ?w" by simp
      with two show ?thesis using le w len k sp
        by (auto simp: nth_write_at jk Let_def min_def intro!: arg_cong [where f = "(!) bs"]
            split: if_splits)
    qed
  qed
qed

lemma wp_position:
  assumes "rb_ok self"
  shows "(unat (rp self) + unat (max_size self) - rb_unacked_len self + unat (use_size self))
      mod unat (max_size self) = unat (wp self)"
proof -
  have "unat (rp self) + unat (max_size self) - rb_unacked_len self + unat (use_size self)
      = unat (rp self) + unat (rda_size self) + unat (max_size self)"
    using assms by (auto simp: rb_ok_def rb_unacked_len_def)
  then show ?thesis using assms by (simp add: rb_ok_def)
qed

lemma fill_fields [simp]:
  assumes "rb_ok self" "length bs \<le> rb_space self"
  shows "max_size (rb_fill bs self) = max_size self" "rp (rb_fill bs self) = rp self"
    "unat (use_size (rb_fill bs self)) = unat (use_size self) + length bs"
    "unat (rda_size (rb_fill bs self)) = unat (rda_size self) + length bs"
    "unat (wp (rb_fill bs self)) = (unat (wp self) + length bs) mod unat (max_size self)"
    "rb_unacked_len (rb_fill bs self) = rb_unacked_len self"
proof -
  have small: "unat (max_size self) < 2 ^ 62" "unat (wp self) < unat (max_size self)"
    "unat (use_size self) + length bs \<le> unat (max_size self)"
    "unat (rda_size self) \<le> unat (use_size self)"
    using assms by (auto simp: rb_ok_def rb_space_def)
  then have n: "unat (of_nat (length bs) :: size_t) = length bs"
    by (intro unat_of_nat_size) simp
  show "max_size (rb_fill bs self) = max_size self" "rp (rb_fill bs self) = rp self"
    by (simp_all add: rb_fill_def hev_ring_buffer_write_finish_def)
  show 1: "unat (use_size (rb_fill bs self)) = unat (use_size self) + length bs"
    and 2: "unat (rda_size (rb_fill bs self)) = unat (rda_size self) + length bs"
    using small n
    by (simp_all add: rb_fill_def hev_ring_buffer_write_finish_def unat_add_size)
  show "unat (wp (rb_fill bs self)) = (unat (wp self) + length bs) mod unat (max_size self)"
    using small n
    by (simp add: rb_fill_def hev_ring_buffer_write_finish_def unat_add_size unat_mod)
  show "rb_unacked_len (rb_fill bs self) = rb_unacked_len self"
    using small by (simp add: rb_unacked_len_def 1 2)
qed

lemma fill_data:
  "rb_data (rb_fill bs self) = iov_scatter (hev_ring_buffer_writing self) bs (rb_data self)"
  by (simp add: rb_fill_def hev_ring_buffer_write_finish_def)

lemma fill_ok:
  assumes "rb_ok self" "length bs \<le> rb_space self"
  shows "rb_ok (rb_fill bs self)"
  using assms scatter_writing(1) [OF assms]
  by (auto simp: rb_ok_def [of "rb_fill bs self"] fill_data)
    (auto simp: rb_ok_def rb_space_def mod_simps add.assoc)

lemma fill_queue:
  assumes ok: "rb_ok self" and le: "length bs \<le> rb_space self"
  shows "rb_queue (rb_fill bs self) = rb_queue self @ bs"
proof -
  let ?M = "unat (max_size self)" and ?w = "unat (wp self)" and ?use = "unat (use_size self)"
  let ?b = "unat (rp self) + ?M - rb_unacked_len self"
  let ?d = "rb_data self" and ?d' = "rb_data (rb_fill bs self)"
  have len: "length ?d = ?M" "length ?d' = ?M" and w: "?w < ?M" and use: "?use \<le> ?M"
    and room: "length bs \<le> ?M - ?use"
    using ok le scatter_writing(1) [OF ok le]
    by (auto simp: rb_ok_def rb_space_def fill_data)
  have at: "?d' ! ((?w + j) mod ?M) = (if j < length bs then bs ! j else ?d ! ((?w + j) mod ?M))"
    if "j < ?M" for j
    using that w scatter_writing(2) [OF ok le, of "(?w + j) mod ?M"]
    by (simp add: fill_data mod_shift_back Let_def)
  have pos: "(?b + (?use + j)) mod ?M = (?w + j) mod ?M" for j
    by (metis wp_position [OF ok] add.assoc mod_add_left_eq)
  have "ring ?d' ?b ?use = ring ?d ?b ?use"
  proof (rule nth_equalityI)
    fix i assume "i < length (ring ?d' ?b ?use)"
    then have i: "i < ?use" by simp
    have "(?b + i) mod ?M = (?b + i + ?M) mod ?M" by simp
    also have "?b + i + ?M = ?b + (?use + (?M - ?use + i))" using use by simp
    finally have eq: "(?b + i) mod ?M = (?w + (?M - ?use + i)) mod ?M" by (simp only: pos)
    have "\<not> ?M - ?use + i < length bs" and "?M - ?use + i < ?M"
      using i use room by simp_all
    then have "?d' ! ((?b + i) mod ?M) = ?d ! ((?b + i) mod ?M)"
      by (simp only: eq at if_False)
    then show "ring ?d' ?b ?use ! i = ring ?d ?b ?use ! i"
      using i by (simp only: nth_ring len)
  qed simp
  moreover have "ring ?d' (?b + ?use) (length bs) = bs"
  proof (rule nth_equalityI)
    fix i assume "i < length (ring ?d' (?b + ?use) (length bs))"
    then show "ring ?d' (?b + ?use) (length bs) ! i = bs ! i"
      using room at [of i] pos [of i] by (simp add: len add.assoc)
  qed simp
  ultimately show ?thesis
    using ok le by (simp add: rb_queue_def ring_append)
qed

lemma alloca_ok:
  "0 < unat s \<Longrightarrow> unat s < 2 ^ 62 \<Longrightarrow> length junk = unat s \<Longrightarrow>
   rb_ok (hev_ring_buffer_alloca s junk)"
  by (simp add: rb_ok_def hev_ring_buffer_alloca_def)

lemma alloca_queue [simp]: "rb_queue (hev_ring_buffer_alloca s junk) = []"
  by (simp add: rb_queue_def hev_ring_buffer_alloca_def)

lemma gather_reading:
  assumes "rb_ok self"
  shows "iov_gather (hev_ring_buffer_reading self) (rb_data self) = rb_pending self"
proof -
  let ?M = "unat (max_size self)" and ?r = "unat (rp self)" and ?a = "unat (rda_size self)"
  have r: "?r < ?M" and a: "?a \<le> ?M" and len: "length (rb_data self) = ?M"
    using assms by (auto simp: rb_ok_def)
  have up: "unat (max_size self - rp self) = ?M - ?r"
    using r by (simp add: unat_sub_size')
  show ?thesis
  proof (cases "rda_size self \<le> max_size self - rp self")
    case True
    then have "?r + ?a \<le> ?M" using r by (simp add: word_le_nat_alt up)
    with True show ?thesis
      by (auto simp: rb_pending_ring assms ring_linear len iov_gather_def
          hev_ring_buffer_reading_def Let_def)
  next
    case False
    then have lt: "?M - ?r < ?a" by (simp add: word_le_nat_alt up)
    then have "unat (rda_size self - (max_size self - rp self)) = ?a - (?M - ?r)"
      by (simp only: unat_sub_size' up less_imp_le)
    with False lt r a show ?thesis
      by (auto simp: rb_pending_ring assms ring_wrap len iov_gather_def up
          hev_ring_buffer_reading_def Let_def)
  qed
qed

lemma read_finish_ok:
  assumes "rb_ok self" "unat n \<le> unat (rda_size self)"
  shows "rb_ok (hev_ring_buffer_read_finish self n)"
    and "rb_unacked_len (hev_ring_buffer_read_finish self n) = rb_unacked_len self + unat n"
    and "rb_queue (hev_ring_buffer_read_finish self n) = rb_queue self"
proof -
  let ?self' = "hev_ring_buffer_read_finish self n" and ?M = "unat (max_size self)"
  have small: "?M < 2 ^ 62" "unat (rp self) < ?M" "unat (use_size self) \<le> ?M"
    "unat (rda_size self) \<le> unat (use_size self)" and len: "length (rb_data self) = ?M"
    using assms(1) by (auto simp: rb_ok_def)
  have rp': "unat (rp ?self') = (unat (rp self) + unat n) mod ?M"
    and rda': "unat (rda_size ?self') = unat (rda_size self) - unat n"
    and rest: "max_size ?self' = max_size self" "wp ?self' = wp self"
      "use_size ?self' = use_size self" "rb_data ?self' = rb_data self"
    using small assms(2)
    by (simp_all add: hev_ring_buffer_read_finish_def unat_add_size unat_mod unat_sub_size')
  have "((unat (rp self) + unat n) mod ?M + (unat (rda_size self) - unat n)) mod ?M
      = (unat (rp self) + unat n + (unat (rda_size self) - unat n)) mod ?M"
    by (rule mod_add_left_eq)
  then have "((unat (rp self) + unat n) mod ?M + (unat (rda_size self) - unat n)) mod ?M
      = unat (wp self)"
    using assms by (simp add: rb_ok_def)
  then show "rb_ok ?self'"
    using assms small by (auto simp: rb_ok_def rest rp' rda')
  show ul: "rb_unacked_len ?self' = rb_unacked_len self + unat n"
    using assms(2) small by (simp add: rb_unacked_len_def rest rda')
  have le: "rb_unacked_len self + unat n \<le> ?M"
    using small assms(2) by (simp add: rb_unacked_len_def)
  have "((unat (rp self) + unat n) mod ?M + ?M - (rb_unacked_len self + unat n)) mod ?M
      = (unat (rp self) + ?M - rb_unacked_len self) mod ?M"
  proof -
    have "((unat (rp self) + unat n) mod ?M + ?M - (rb_unacked_len self + unat n)) mod ?M
        = ((unat (rp self) + unat n) mod ?M + (?M - (rb_unacked_len self + unat n))) mod ?M"
      using le by simp
    also have "\<dots> = (unat (rp self) + unat n + (?M - (rb_unacked_len self + unat n))) mod ?M"
      by (rule mod_add_left_eq)
    also have "unat (rp self) + unat n + (?M - (rb_unacked_len self + unat n))
        = unat (rp self) + ?M - rb_unacked_len self"
      using le by simp
    finally show ?thesis .
  qed
  then show "rb_queue ?self' = rb_queue self"
    by (simp add: rb_queue_def ul rest rp') (rule ring_cong_mod, simp add: len)
qed

lemma read_release_ok:
  assumes "rb_ok self" "unat n \<le> rb_unacked_len self"
  shows "rb_ok (hev_ring_buffer_read_release self n)"
    and "rb_unacked_len (hev_ring_buffer_read_release self n) = rb_unacked_len self - unat n"
    and "rb_queue (hev_ring_buffer_read_release self n) = drop (unat n) (rb_queue self)"
proof -
  let ?self' = "hev_ring_buffer_read_release self n" and ?M = "unat (max_size self)"
  let ?u = "rb_unacked_len self" and ?use = "unat (use_size self)"
  have small: "?M < 2 ^ 62" "unat (rp self) < ?M" "?use \<le> ?M" "?u \<le> ?use"
    "unat (rda_size self) \<le> ?use" and len: "length (rb_data self) = ?M"
    using assms(1) by (auto simp: rb_ok_def rb_unacked_len_def)
  have use': "unat (use_size self - n) = ?use - unat n"
    using assms(2) small by (simp add: unat_sub_size')
  have fields: "unat (use_size ?self') = ?use - unat n" "max_size ?self' = max_size self"
    "rda_size ?self' = rda_size self" "rb_data ?self' = rb_data self"
    using use' by (simp_all add: hev_ring_buffer_read_release_def Let_def)
  show ul: "rb_unacked_len ?self' = ?u - unat n"
    by (simp add: rb_unacked_len_def fields)
  have "rb_ok ?self' \<and> rb_queue ?self' = drop (unat n) (rb_queue self)"
  proof (cases "use_size self - n = 0")
    case True
    with use' have z: "?use \<le> unat n" by simp
    with assms(2) small have "unat (rda_size self) = 0"
      by (simp add: rb_unacked_len_def)
    with True z assms(1) show ?thesis
      by (simp add: rb_ok_def rb_queue_def hev_ring_buffer_read_release_def Let_def
          rb_unacked_len_def)
  next
    case False
    then have pos: "rp ?self' = rp self" "wp ?self' = wp self"
      by (simp_all add: hev_ring_buffer_read_release_def Let_def)
    have "rb_ok ?self'"
      using assms small by (auto simp: rb_ok_def fields pos rb_unacked_len_def)
    moreover have "ring (rb_data self) (unat (rp self) + ?M - ?u) (unat n + (?use - unat n))
        = ring (rb_data self) (unat (rp self) + ?M - ?u) (unat n)
          @ ring (rb_data self) (unat (rp self) + ?M - ?u + unat n) (?use - unat n)"
      by (rule ring_append)
    moreover have "unat (rp self) + ?M - ?u + unat n = unat (rp self) + ?M - (?u - unat n)"
      using assms(2) small by simp
    moreover have "unat n + (?use - unat n) = ?use" using assms(2) small by simp
    ultimately show ?thesis
      by (simp add: rb_queue_def fields pos ul)
  qed
  then show "rb_ok ?self'" and "rb_queue ?self' = drop (unat n) (rb_queue self)" by simp_all
qed

section \<open>The buffer as a byte queue\<close>

text \<open>
  What a session does with the buffer over time: bytes arrive from the socket, a number of
  pending bytes is handed to lwIP, and lwIP acknowledges a number of bytes. The interface a
  client relies on says how each step moves the two parts of the queue.
\<close>

datatype fifo_op = Fill "byte list" | Handover nat | Ack nat

fun fifo_filled :: "fifo_op list \<Rightarrow> byte list" where
  "fifo_filled [] = []"
| "fifo_filled (Fill bs # ops) = bs @ fifo_filled ops"
| "fifo_filled (_ # ops) = fifo_filled ops"

fun fifo_handed :: "fifo_op list \<Rightarrow> nat" where
  "fifo_handed [] = 0"
| "fifo_handed (Handover n # ops) = n + fifo_handed ops"
| "fifo_handed (_ # ops) = fifo_handed ops"

fun fifo_acked :: "fifo_op list \<Rightarrow> nat" where
  "fifo_acked [] = 0"
| "fifo_acked (Ack n # ops) = n + fifo_acked ops"
| "fifo_acked (_ # ops) = fifo_acked ops"

fun fifo_run :: "(fifo_op \<Rightarrow> 'b \<Rightarrow> bool) \<Rightarrow> (fifo_op \<Rightarrow> 'b \<Rightarrow> 'b) \<Rightarrow> fifo_op list \<Rightarrow> 'b \<Rightarrow> 'b option"
where
  "fifo_run allowed step [] b = Some b"
| "fifo_run allowed step (x # xs) b =
     (if allowed x b then fifo_run allowed step xs (step x b) else None)"

locale byte_fifo =
  fixes ok :: "'b \<Rightarrow> bool"
    and allowed :: "fifo_op \<Rightarrow> 'b \<Rightarrow> bool"
    and step :: "fifo_op \<Rightarrow> 'b \<Rightarrow> 'b"
    and unacked :: "'b \<Rightarrow> byte list"
    and pending :: "'b \<Rightarrow> byte list"
  assumes step_ok: "ok b \<Longrightarrow> allowed x b \<Longrightarrow> ok (step x b)"
    and step_Fill: "ok b \<Longrightarrow> allowed (Fill bs) b \<Longrightarrow>
      unacked (step (Fill bs) b) = unacked b \<and> pending (step (Fill bs) b) = pending b @ bs"
    and allowed_Handover: "ok b \<Longrightarrow> allowed (Handover n) b \<Longrightarrow> n \<le> length (pending b)"
    and step_Handover: "ok b \<Longrightarrow> allowed (Handover n) b \<Longrightarrow>
      unacked (step (Handover n) b) = unacked b @ take n (pending b)
      \<and> pending (step (Handover n) b) = drop n (pending b)"
    and allowed_Ack: "ok b \<Longrightarrow> allowed (Ack n) b \<Longrightarrow> n \<le> length (unacked b)"
    and step_Ack: "ok b \<Longrightarrow> allowed (Ack n) b \<Longrightarrow>
      unacked (step (Ack n) b) = drop n (unacked b) \<and> pending (step (Ack n) b) = pending b"
begin

lemma run_ok: "ok b \<Longrightarrow> fifo_run allowed step xs b = Some b' \<Longrightarrow> ok b'"
  by (induction xs arbitrary: b) (auto intro: step_ok split: if_splits)

lemma run_stream_all:
  "ok b \<Longrightarrow> fifo_run allowed step xs b = Some b' \<Longrightarrow>
   fifo_acked xs + length (unacked b') = length (unacked b) + fifo_handed xs \<and>
   unacked b' @ pending b' = drop (fifo_acked xs) (unacked b @ pending b @ fifo_filled xs) \<and>
   fifo_acked xs \<le> length (unacked b) + fifo_handed xs"
proof (induction xs arbitrary: b)
  case (Cons x xs)
  then have al: "allowed x b" and run: "fifo_run allowed step xs (step x b) = Some b'"
    by (auto split: if_splits)
  note ok = Cons.prems(1)
  note IH = Cons.IH [OF step_ok [OF ok al] run]
  show ?case
  proof (cases x)
    case (Fill bs)
    then show ?thesis using IH al ok by (simp add: step_Fill add.assoc)
  next
    case (Handover n)
    with ok al allowed_Handover [of b n] have "n \<le> length (pending b)" by simp
    with Handover show ?thesis using IH al ok by (simp add: step_Handover del: drop_append)
  next
    case (Ack n)
    with ok al allowed_Ack [of b n] have "n \<le> length (unacked b)" by simp
    with Ack show ?thesis
      using IH al ok by (auto simp: step_Ack add.commute [of n])
  qed
qed simp

lemma run_stream:
  assumes "ok b" and "fifo_run allowed step xs b = Some b'"
  shows "fifo_acked xs + length (unacked b') = length (unacked b) + fifo_handed xs"
    and "unacked b' @ pending b' = drop (fifo_acked xs) (unacked b @ pending b @ fifo_filled xs)"
    and "fifo_acked xs \<le> length (unacked b) + fifo_handed xs"
  using run_stream_all [OF assms] by simp_all

lemma run_from_empty:
  assumes "ok b" "fifo_run allowed step xs b = Some b'" "unacked b = []" "pending b = []"
  shows "pending b' = drop (fifo_handed xs) (fifo_filled xs)"
    and "unacked b' = take (fifo_handed xs - fifo_acked xs)
           (drop (fifo_acked xs) (fifo_filled xs))"
proof -
  have len: "length (unacked b') = fifo_handed xs - fifo_acked xs"
    and le: "fifo_acked xs \<le> fifo_handed xs"
    and str: "unacked b' @ pending b' = drop (fifo_acked xs) (fifo_filled xs)"
    using run_stream [OF assms(1,2)] assms(3,4) by simp_all
  from arg_cong [OF str, of "take (fifo_handed xs - fifo_acked xs)"]
  show "unacked b' = take (fifo_handed xs - fifo_acked xs)
      (drop (fifo_acked xs) (fifo_filled xs))" by (simp add: len)
  from arg_cong [OF str, of "drop (fifo_handed xs - fifo_acked xs)"]
  show "pending b' = drop (fifo_handed xs) (fifo_filled xs)" using le by (simp add: len)
qed

end

definition rb_allowed :: "fifo_op \<Rightarrow> HevRingBuffer \<Rightarrow> bool" where
  "rb_allowed x self =
     (case x of
        Fill bs \<Rightarrow> length bs \<le> iov_size (hev_ring_buffer_writing self)
      | Handover n \<Rightarrow> n \<le> unat (rda_size self)
      | Ack n \<Rightarrow> n \<le> unat (use_size self) - unat (rda_size self))"

definition rb_step :: "fifo_op \<Rightarrow> HevRingBuffer \<Rightarrow> HevRingBuffer" where
  "rb_step x self =
     (case x of
        Fill bs \<Rightarrow> rb_fill bs self
      | Handover n \<Rightarrow> hev_ring_buffer_read_finish self (of_nat n)
      | Ack n \<Rightarrow> hev_ring_buffer_read_release self (of_nat n))"

lemma rb_ok_small: "rb_ok self \<Longrightarrow> n \<le> unat (use_size self) \<Longrightarrow> unat (of_nat n :: size_t) = n"
  by (rule unat_of_nat_size) (auto simp: rb_ok_def)

lemma length_rb_unacked [simp]:
  "length (rb_unacked self) = rb_unacked_len self"
  by (simp add: rb_unacked_def rb_unacked_len_def)

lemma length_rb_pending:
  "rb_ok self \<Longrightarrow> length (rb_pending self) = unat (rda_size self)"
  by (simp add: rb_pending_ring)

interpretation rb: byte_fifo rb_ok rb_allowed rb_step rb_unacked rb_pending
proof
  fix b x assume ok: "rb_ok b" and al: "rb_allowed x b"
  have small: "n \<le> unat (rda_size b) \<Longrightarrow> unat (of_nat n :: size_t) = n"
    "n \<le> rb_unacked_len b \<Longrightarrow> unat (of_nat n :: size_t) = n" for n
    using ok rb_ok_small [OF ok, of n] by (auto simp: rb_ok_def rb_unacked_len_def)
  show "rb_ok (rb_step x b)"
    using ok al small
    by (auto simp: rb_step_def rb_allowed_def writing_size fill_ok read_finish_ok
        read_release_ok rb_unacked_len_def split: fifo_op.splits)
next
  fix b bs assume ok: "rb_ok b" and al: "rb_allowed (Fill bs) b"
  then have "length bs \<le> rb_space b" by (simp add: rb_allowed_def writing_size)
  with ok show "rb_unacked (rb_step (Fill bs) b) = rb_unacked b
      \<and> rb_pending (rb_step (Fill bs) b) = rb_pending b @ bs"
    by (simp add: rb_step_def rb_unacked_def rb_pending_def fill_queue rb_unacked_len_def)
next
  fix b n assume ok: "rb_ok b" and al: "rb_allowed (Handover n) b"
  show "n \<le> length (rb_pending b)"
    using al by (simp add: rb_allowed_def length_rb_pending ok)
next
  fix b n assume ok: "rb_ok b" and al: "rb_allowed (Handover n) b"
  then have le: "n \<le> unat (rda_size b)" and u: "unat (of_nat n :: size_t) = n"
    using rb_ok_small [OF ok, of n] by (auto simp: rb_allowed_def rb_ok_def)
  note rf = read_finish_ok [OF ok, of "of_nat n", unfolded u, OF le]
  show "rb_unacked (rb_step (Handover n) b) = rb_unacked b @ take n (rb_pending b)
      \<and> rb_pending (rb_step (Handover n) b) = drop n (rb_pending b)"
    using take_add [of "rb_unacked_len b" n "rb_queue b"]
    by (simp add: rb_step_def rb_unacked_def rb_pending_def rf add.commute)
next
  fix b n assume ok: "rb_ok b" and al: "rb_allowed (Ack n) b"
  show "n \<le> length (rb_unacked b)"
    using al by (simp add: rb_allowed_def rb_unacked_len_def)
next
  fix b n assume ok: "rb_ok b" and al: "rb_allowed (Ack n) b"
  then have le: "n \<le> rb_unacked_len b" and u: "unat (of_nat n :: size_t) = n"
    using rb_ok_small [OF ok, of n] by (auto simp: rb_allowed_def rb_unacked_len_def)
  note rr = read_release_ok [OF ok, of "of_nat n", unfolded u, OF le]
  show "rb_unacked (rb_step (Ack n) b) = drop n (rb_unacked b)
      \<and> rb_pending (rb_step (Ack n) b) = rb_pending b"
    using le by (simp add: rb_step_def rb_unacked_def rb_pending_def rr drop_take)
qed

lemma rb_step_max_size: "max_size (rb_step x b) = max_size b"
  by (simp add: rb_step_def rb_fill_def hev_ring_buffer_write_finish_def Let_def
      hev_ring_buffer_read_finish_def hev_ring_buffer_read_release_def split: fifo_op.split)

lemma rb_run_max_size: "fifo_run rb_allowed rb_step xs b = Some b' \<Longrightarrow> max_size b' = max_size b"
  by (induction xs arbitrary: b) (auto simp: rb_step_max_size split: if_splits)

section \<open>The buffer is a byte stream\<close>

text \<open>
  C12: Whatever sequence of reads from the server, writes to the local connection and
  acknowledgements by its peer the buffer goes through, within the room it offers each time,
  it delivers the bytes in order: the pending bytes are those filled and not yet handed over,
  the unacknowledged ones those handed over and not yet acknowledged, \<open>reading\<close> exposes
  exactly the pending bytes and \<open>writing\<close> exactly the free room.
\<close>

theorem ring_buffer_stream:
  assumes "0 < s" "s < 2 ^ 62" "length junk = unat s"
    and "fifo_run rb_allowed rb_step xs (hev_ring_buffer_alloca s junk) = Some b"
  shows "rb_pending b = drop (fifo_handed xs) (fifo_filled xs) \<and>
    rb_unacked b = take (fifo_handed xs - fifo_acked xs) (drop (fifo_acked xs) (fifo_filled xs)) \<and>
    iov_gather (hev_ring_buffer_reading b) (rb_data b) = rb_pending b \<and>
    iov_size (hev_ring_buffer_writing b) + length (rb_pending b) + length (rb_unacked b) = unat s"
proof (intro conjI)
  let ?b = "hev_ring_buffer_alloca s junk"
  have ok0: "rb_ok ?b"
    by (rule alloca_ok) (use assms in \<open>simp_all add: word_less_nat_alt\<close>)
  have empty: "rb_unacked ?b = []" "rb_pending ?b = []"
    by (simp_all add: rb_unacked_def rb_pending_def)
  note ok = rb.run_ok [OF ok0 assms(4)]
  show "rb_pending b = drop (fifo_handed xs) (fifo_filled xs)"
    "rb_unacked b = take (fifo_handed xs - fifo_acked xs) (drop (fifo_acked xs) (fifo_filled xs))"
    using rb.run_from_empty [OF ok0 assms(4) empty] by simp_all
  show "iov_gather (hev_ring_buffer_reading b) (rb_data b) = rb_pending b"
    by (rule gather_reading [OF ok])
  have "max_size b = s"
    using rb_run_max_size [OF assms(4)] by (simp add: hev_ring_buffer_alloca_def)
  then show "iov_size (hev_ring_buffer_writing b) + length (rb_pending b) + length (rb_unacked b)
      = unat s"
    using ok by (simp add: writing_size length_rb_pending rb_unacked_len_def)
      (simp add: rb_space_def rb_ok_def)
qed

definition example_ops :: "fifo_op list" where
  "example_ops = [Fill [1, 2, 3], Handover 2, Ack 1, Fill [4, 5], Handover 1]"

theorem ring_buffer_stream_witness:
  "\<exists>b. fifo_run rb_allowed rb_step example_ops (hev_ring_buffer_alloca 4 [0, 0, 0, 0]) = Some b \<and>
     rb_pending b = [4, 5] \<and> rb_unacked b = [2, 3] \<and>
     iov_gather (hev_ring_buffer_reading b) (rb_data b) = [4, 5]"
proof -
  let ?r = "fifo_run rb_allowed rb_step example_ops (hev_ring_buffer_alloca 4 [0, 0, 0, 0])"
  have "?r \<noteq> None" by code_simp
  then obtain b where b: "?r = Some b" by blast
  have "0 < (4 :: size_t)" "(4 :: size_t) < 2 ^ 62" "length [0, 0, 0, 0 :: byte] = unat (4 :: size_t)"
    by simp_all
  from ring_buffer_stream [OF this b] b show ?thesis by (simp add: example_ops_def)
qed

end
