(* ===== verification/HevList.thy ===== *)
theory HevList
  imports Prelude
begin

text \<open>
  The intrusive doubly linked list of \<open>misc/hev-list.h\<close> and \<open>misc/hev-list.c\<close>, at the
  level of its pointers: the heap maps node addresses to \<open>next\<close> and \<open>prev\<close>, the
  list head is a pair of pointers. The session set of the tunnel, the recency order of the
  mapped DNS cache and the frame queue of a UDP session are such lists. The last section
  gives the interface those clients use as a locale and interprets it here.
\<close>

record HevListNode =
  ln_next :: ptr
  ln_prev :: ptr

record HevList =
  head :: ptr
  tail :: ptr

type_synonym list_heap = "ptr \<rightharpoonup> HevListNode"

definition hev_list_node_prev :: "list_heap \<Rightarrow> ptr \<Rightarrow> ptr option" where
  "hev_list_node_prev h node = map_option ln_prev (deref h node)"

definition hev_list_node_next :: "list_heap \<Rightarrow> ptr \<Rightarrow> ptr option" where
  "hev_list_node_next h node = map_option ln_next (deref h node)"

definition hev_list_first :: "HevList \<Rightarrow> ptr" where
  "hev_list_first self = head self"

definition hev_list_last :: "HevList \<Rightarrow> ptr" where
  "hev_list_last self = tail self"

definition hev_list_add_tail ::
  "HevList \<Rightarrow> list_heap \<Rightarrow> ptr \<Rightarrow> (HevList \<times> list_heap) option" where
  "hev_list_add_tail self h newn = do {
     n \<leftarrow> deref h newn;
     let h = h(newn \<mapsto> n\<lparr>ln_prev := tail self, ln_next := 0\<rparr>);
     (self, h) \<leftarrow>
       (if tail self \<noteq> 0 then do {
          t \<leftarrow> deref h (tail self);
          Some (self, h(tail self \<mapsto> t\<lparr>ln_next := newn\<rparr>))
        } else Some (self\<lparr>head := newn\<rparr>, h));
     Some (self\<lparr>tail := newn\<rparr>, h)
   }"

definition hev_list_del ::
  "HevList \<Rightarrow> list_heap \<Rightarrow> ptr \<Rightarrow> (HevList \<times> list_heap) option" where
  "hev_list_del self h node = do {
     n \<leftarrow> deref h node;
     (self, h) \<leftarrow>
       (if ln_prev n \<noteq> 0 then do {
          p \<leftarrow> deref h (ln_prev n);
          Some (self, h(ln_prev n \<mapsto> p\<lparr>ln_next := ln_next n\<rparr>))
        } else Some (self\<lparr>head := ln_next n\<rparr>, h));
     n \<leftarrow> deref h node;
     (if ln_next n \<noteq> 0 then do {
        q \<leftarrow> deref h (ln_next n);
        Some (self, h(ln_next n \<mapsto> q\<lparr>ln_prev := ln_prev n\<rparr>))
      } else Some (self\<lparr>tail := ln_prev n\<rparr>, h))
   }"

section \<open>The sequence a list represents\<close>

definition first_or :: "ptr list \<Rightarrow> ptr \<Rightarrow> ptr" where
  "first_or xs q = (case xs of [] \<Rightarrow> q | x # _ \<Rightarrow> x)"

definition last_or :: "ptr list \<Rightarrow> ptr \<Rightarrow> ptr" where
  "last_or xs p = (if xs = [] then p else last xs)"

text \<open>\<open>seg h p xs q\<close>: the nodes \<open>xs\<close> are linked in this order, the first one's
  \<open>prev\<close> is \<open>p\<close> and the last one's \<open>next\<close> is \<open>q\<close>.\<close>

fun seg :: "list_heap \<Rightarrow> ptr \<Rightarrow> ptr list \<Rightarrow> ptr \<Rightarrow> bool" where
  "seg h p [] q = True"
| "seg h p (x # xs) q =
     (x \<noteq> 0 \<and> h x = Some \<lparr>ln_next = first_or xs q, ln_prev = p\<rparr> \<and> seg h x xs q)"

definition list_rep :: "HevList \<Rightarrow> list_heap \<Rightarrow> ptr list \<Rightarrow> bool" where
  "list_rep self h xs \<longleftrightarrow>
     head self = first_or xs 0 \<and> tail self = last_or xs 0 \<and> distinct xs \<and> seg h 0 xs 0"

lemma first_or_simps [simp]: "first_or [] q = q" "first_or (x # xs) q = x"
  by (simp_all add: first_or_def)

lemma last_or_simps [simp]:
  "last_or [] p = p" "last_or (x # xs) p = last_or xs x" "last_or (xs @ [x]) p = x"
  by (simp_all add: last_or_def)

lemma first_or_append [simp]: "first_or (xs @ ys) q = first_or xs (first_or ys q)"
  by (cases xs) simp_all

lemma last_or_append [simp]: "last_or (xs @ ys) p = last_or ys (last_or xs p)"
  by (simp add: last_or_def)

lemma last_or_in: "xs \<noteq> [] \<Longrightarrow> last_or xs p \<in> set xs"
  by (simp add: last_or_def)

lemma first_or_in: "xs \<noteq> [] \<Longrightarrow> first_or xs p \<in> set xs"
  by (cases xs) simp_all

lemma seg_append [simp]:
  "seg h p (xs @ ys) q \<longleftrightarrow> seg h p xs (first_or ys q) \<and> seg h (last_or xs p) ys q"
  by (induction xs arbitrary: p) auto

lemma seg_upd_other [simp]: "a \<notin> set xs \<Longrightarrow> seg (h(a := v)) p xs q = seg h p xs q"
  by (induction xs arbitrary: p) auto

lemma seg_frame: "(\<And>a. a \<in> set xs \<Longrightarrow> h' a = h a) \<Longrightarrow> seg h' p xs q = seg h p xs q"
  by (induction xs arbitrary: p) auto

lemma seg_nonnull: "seg h p xs q \<Longrightarrow> a \<in> set xs \<Longrightarrow> a \<noteq> 0"
  by (induction xs arbitrary: p) auto

lemma seg_dom: "seg h p xs q \<Longrightarrow> set xs \<subseteq> dom h"
  by (induction xs arbitrary: p) auto

lemma seg_last_upd:
  "seg h p xs q \<Longrightarrow> distinct xs \<Longrightarrow> xs \<noteq> [] \<Longrightarrow>
   \<exists>n. h (last_or xs p) = Some n \<and> ln_next n = q \<and>
       seg (h(last_or xs p \<mapsto> n\<lparr>ln_next := q'\<rparr>)) p xs q'"
  by (induction xs rule: rev_induct) (auto simp: last_or_def)

lemma seg_first_upd:
  "seg h p xs q \<Longrightarrow> distinct xs \<Longrightarrow> xs \<noteq> [] \<Longrightarrow>
   \<exists>n. h (first_or xs q) = Some n \<and> ln_prev n = p \<and>
       seg (h(first_or xs q \<mapsto> n\<lparr>ln_prev := p'\<rparr>)) p' xs q"
  by (cases xs) auto

lemma list_rep_nonnull: "list_rep l h xs \<Longrightarrow> a \<in> set xs \<Longrightarrow> a \<noteq> 0"
  by (auto simp: list_rep_def dest: seg_nonnull)

lemma list_rep_frame:
  "list_rep l h xs \<Longrightarrow> (\<And>a. a \<in> set xs \<Longrightarrow> h' a = h a) \<Longrightarrow> list_rep l h' xs"
  using seg_frame [of xs h' h] by (auto simp: list_rep_def)

lemma list_rep_empty: "list_rep \<lparr>head = 0, tail = 0\<rparr> h []"
  by (simp add: list_rep_def)

lemma list_rep_first: "list_rep l h xs \<Longrightarrow> hev_list_first l = first_or xs 0"
  by (simp add: list_rep_def hev_list_first_def)

lemma list_rep_last: "list_rep l h xs \<Longrightarrow> hev_list_last l = last_or xs 0"
  by (simp add: list_rep_def hev_list_last_def)

lemma list_rep_node_next:
  "list_rep l h (xs @ x # ys) \<Longrightarrow> hev_list_node_next h x = Some (first_or ys 0)"
  by (auto simp: list_rep_def hev_list_node_next_def deref_def)

lemma list_rep_node_prev:
  "list_rep l h (xs @ x # ys) \<Longrightarrow> hev_list_node_prev h x = Some (last_or xs 0)"
  by (auto simp: list_rep_def hev_list_node_prev_def deref_def)

section \<open>Adding and removing\<close>

lemma hev_list_add_tail_rep:
  assumes rep: "list_rep l h xs" and new: "a \<notin> set xs" "a \<noteq> 0" "h a = Some n"
  obtains l' h' where "hev_list_add_tail l h a = Some (l', h')" "list_rep l' h' (xs @ [a])"
    "dom h' = dom h" "\<And>p. p \<notin> insert a (set xs) \<Longrightarrow> h' p = h p"
proof (cases "xs = []")
  case True
  with rep new show thesis
    by (intro that [of "\<lparr>head = a, tail = a\<rparr>" "h(a \<mapsto> \<lparr>ln_next = 0, ln_prev = 0\<rparr>)"])
      (auto simp: hev_list_add_tail_def list_rep_def deref_def)
next
  case False
  let ?h = "h(a \<mapsto> \<lparr>ln_next = 0, ln_prev = last_or xs 0\<rparr>)"
  from rep have tl: "tail l = last_or xs 0" and sg: "seg ?h 0 xs 0" and d: "distinct xs"
    using new by (auto simp: list_rep_def)
  have in_xs: "last_or xs 0 \<in> set xs" using False by (rule last_or_in)
  then have nz: "last_or xs 0 \<noteq> 0" and ne: "last_or xs 0 \<noteq> a"
    using list_rep_nonnull [OF rep] new by auto
  from seg_last_upd [OF sg d False, of a] obtain t where
    t: "?h (last_or xs 0) = Some t" "seg (?h(last_or xs 0 \<mapsto> t\<lparr>ln_next := a\<rparr>)) 0 xs a" by auto
  let ?h' = "?h(last_or xs 0 \<mapsto> t\<lparr>ln_next := a\<rparr>)"
  have "hev_list_add_tail l h a = Some (l\<lparr>tail := a\<rparr>, ?h')"
    using new nz t(1) ne by (auto simp: hev_list_add_tail_def deref_def tl)
  moreover have "list_rep (l\<lparr>tail := a\<rparr>) ?h' (xs @ [a])"
    using rep new t ne False by (cases xs) (auto simp: list_rep_def)
  moreover have "dom ?h' = dom h"
    using new t(1) ne by auto
  ultimately show thesis
    using in_xs by (intro that [of "l\<lparr>tail := a\<rparr>" ?h']) auto
qed

lemma hev_list_del_rep:
  assumes rep: "list_rep l h (as @ x # bs)"
  obtains l' h' where "hev_list_del l h x = Some (l', h')" "list_rep l' h' (as @ bs)"
    "dom h' = dom h" "h' x = h x" "\<And>p. p \<notin> set (as @ x # bs) \<Longrightarrow> h' p = h p"
proof -
  from rep have hx: "h x = Some \<lparr>ln_next = first_or bs 0, ln_prev = last_or as 0\<rparr>" "x \<noteq> 0"
    and sa: "seg h 0 as x" and sb: "seg h x bs 0" and d: "distinct (as @ x # bs)"
    and hd: "head l = first_or as x" and tl: "tail l = last_or bs x"
    by (auto simp: list_rep_def)
  have "\<exists>l1 h1. (if last_or as 0 \<noteq> 0 then do {
          p \<leftarrow> deref h (last_or as 0);
          Some (l, h(last_or as 0 \<mapsto> p\<lparr>ln_next := first_or bs 0\<rparr>))
        } else Some (l\<lparr>head := first_or bs 0\<rparr>, h)) = Some (l1, h1) \<and>
      seg h1 0 as (first_or bs 0) \<and> head l1 = first_or as (first_or bs 0) \<and> tail l1 = tail l \<and>
      dom h1 = dom h \<and> (\<forall>p. p \<notin> set as \<longrightarrow> h1 p = h p)"
  proof (cases "as = []")
    case False
    then have in_as: "last_or as 0 \<in> set as" by (rule last_or_in)
    then have "last_or as 0 \<noteq> 0" using sa by (auto dest: seg_nonnull)
    moreover from seg_last_upd [OF sa, of "first_or bs 0"] d False obtain t where
      "h (last_or as 0) = Some t"
      "seg (h(last_or as 0 \<mapsto> t\<lparr>ln_next := first_or bs 0\<rparr>)) 0 as (first_or bs 0)" by auto
    moreover have "head l = first_or as (first_or bs 0)"
      using False hd by (cases as) auto
    ultimately show ?thesis using in_as by (auto simp: deref_def)
  qed simp
  then obtain l1 h1 where
    1: "(if last_or as 0 \<noteq> 0 then do {
          p \<leftarrow> deref h (last_or as 0);
          Some (l, h(last_or as 0 \<mapsto> p\<lparr>ln_next := first_or bs 0\<rparr>))
        } else Some (l\<lparr>head := first_or bs 0\<rparr>, h)) = Some (l1, h1)"
    and sa1: "seg h1 0 as (first_or bs 0)" and hd1: "head l1 = first_or as (first_or bs 0)"
    and tl1: "tail l1 = tail l" and dom1: "dom h1 = dom h"
    and out1: "\<And>p. p \<notin> set as \<Longrightarrow> h1 p = h p" by blast
  have x1: "h1 x = h x" using d out1 by auto
  have sb1: "seg h1 x bs 0"
    using sb by (subst seg_frame [of bs h1 h]) (use d out1 in auto)
  have "\<exists>l2 h2. (if first_or bs 0 \<noteq> 0 then do {
          q \<leftarrow> deref h1 (first_or bs 0);
          Some (l1, h1(first_or bs 0 \<mapsto> q\<lparr>ln_prev := last_or as 0\<rparr>))
        } else Some (l1\<lparr>tail := last_or as 0\<rparr>, h1)) = Some (l2, h2) \<and>
      seg h2 (last_or as 0) bs 0 \<and> head l2 = head l1 \<and> tail l2 = last_or bs (last_or as 0) \<and>
      dom h2 = dom h1 \<and> (\<forall>p. p \<notin> set bs \<longrightarrow> h2 p = h1 p)"
  proof (cases "bs = []")
    case False
    then have in_bs: "first_or bs 0 \<in> set bs" by (rule first_or_in)
    then have "first_or bs 0 \<noteq> 0" using sb by (auto dest: seg_nonnull)
    moreover from seg_first_upd [OF sb1, of "last_or as 0"] d False obtain t where
      "h1 (first_or bs 0) = Some t"
      "seg (h1(first_or bs 0 \<mapsto> t\<lparr>ln_prev := last_or as 0\<rparr>)) (last_or as 0) bs 0" by auto
    moreover have "tail l1 = last_or bs (last_or as 0)"
      using False tl tl1 by (simp add: last_or_def)
    ultimately show ?thesis using in_bs by (auto simp: deref_def)
  qed simp
  then obtain l2 h2 where
    2: "(if first_or bs 0 \<noteq> 0 then do {
          q \<leftarrow> deref h1 (first_or bs 0);
          Some (l1, h1(first_or bs 0 \<mapsto> q\<lparr>ln_prev := last_or as 0\<rparr>))
        } else Some (l1\<lparr>tail := last_or as 0\<rparr>, h1)) = Some (l2, h2)"
    and sb2: "seg h2 (last_or as 0) bs 0" and hd2: "head l2 = head l1"
    and tl2: "tail l2 = last_or bs (last_or as 0)" and dom2: "dom h2 = dom h1"
    and out2: "\<And>p. p \<notin> set bs \<Longrightarrow> h2 p = h1 p" by blast
  have "hev_list_del l h x = Some (l2, h2)"
    unfolding hev_list_del_def
    by (simp only: deref_Some [OF hx(2)] hx(1) x1 bind.bind_lunit HevListNode.select_convs
        1 2 case_prod_conv)
  moreover have "seg h2 0 as (first_or bs 0)"
    using sa1 by (subst seg_frame [of as h2 h1]) (use d out2 in auto)
  then have "list_rep l2 h2 (as @ bs)"
    using sb2 d by (simp add: list_rep_def hd2 tl2 hd1)
  ultimately show thesis
    using d dom1 dom2 out1 out2 x1 by (intro that [of l2 h2]) auto
qed

section \<open>The interface of a list\<close>

text \<open>
  What a client relies on: a predicate that ties the list to a sequence of nodes, and what
  adding, removing and looking at the first node do to that sequence. Nodes outside the
  sequence and the added or removed node keep their links.
\<close>

locale intrusive_list =
  fixes rep :: "'l \<Rightarrow> (ptr \<rightharpoonup> 'n) \<Rightarrow> ptr list \<Rightarrow> bool"
    and add_tail :: "'l \<Rightarrow> (ptr \<rightharpoonup> 'n) \<Rightarrow> ptr \<Rightarrow> ('l \<times> (ptr \<rightharpoonup> 'n)) option"
    and del :: "'l \<Rightarrow> (ptr \<rightharpoonup> 'n) \<Rightarrow> ptr \<Rightarrow> ('l \<times> (ptr \<rightharpoonup> 'n)) option"
    and first :: "'l \<Rightarrow> ptr"
  assumes rep_distinct: "rep l h xs \<Longrightarrow> distinct xs"
    and rep_live: "rep l h xs \<Longrightarrow> set xs \<subseteq> dom h - {0}"
    and rep_first: "rep l h xs \<Longrightarrow> first l = first_or xs 0"
    and rep_local: "rep l h xs \<Longrightarrow> (\<And>a. a \<in> set xs \<Longrightarrow> h' a = h a) \<Longrightarrow> rep l h' xs"
    and add_tail_law: "rep l h xs \<Longrightarrow> a \<notin> set xs \<Longrightarrow> a \<in> dom h - {0} \<Longrightarrow>
      \<exists>l' h'. add_tail l h a = Some (l', h') \<and> rep l' h' (xs @ [a]) \<and> dom h' = dom h \<and>
        (\<forall>p. p \<notin> insert a (set xs) \<longrightarrow> h' p = h p)"
    and del_law: "rep l h xs \<Longrightarrow> a \<in> set xs \<Longrightarrow>
      \<exists>l' h'. del l h a = Some (l', h') \<and> rep l' h' (remove1 a xs) \<and> dom h' = dom h \<and>
        (\<forall>p. p \<notin> set xs \<longrightarrow> h' p = h p)"
begin

lemma first_NULL_iff: "rep l h xs \<Longrightarrow> first l = 0 \<longleftrightarrow> xs = []"
  using rep_live [of l h xs] by (cases xs) (auto simp: rep_first)

lemma add_tailE:
  assumes "rep l h xs" "a \<notin> set xs" "a \<in> dom h - {0}"
  obtains l' h' where "add_tail l h a = Some (l', h')" "rep l' h' (xs @ [a])"
    "dom h' = dom h" "\<And>p. p \<notin> insert a (set xs) \<Longrightarrow> h' p = h p"
  using add_tail_law [OF assms] by blast

lemma delE:
  assumes "rep l h xs" "a \<in> set xs"
  obtains l' h' where "del l h a = Some (l', h')" "rep l' h' (remove1 a xs)"
    "dom h' = dom h" "\<And>p. p \<notin> set xs \<Longrightarrow> h' p = h p"
  using del_law [OF assms] by blast

text \<open>Removing a node and adding it again moves it to the end: the recency update.\<close>

lemma touch:
  assumes rep: "rep l h xs" and a: "a \<in> set xs"
  shows "\<exists>l' h'. (do { (l, h) \<leftarrow> del l h a; add_tail l h a }) = Some (l', h') \<and>
      rep l' h' (remove1 a xs @ [a]) \<and> dom h' = dom h \<and> (\<forall>p. p \<notin> set xs \<longrightarrow> h' p = h p)"
proof -
  from rep a obtain l1 h1 where 1: "del l h a = Some (l1, h1)" "rep l1 h1 (remove1 a xs)"
    "dom h1 = dom h" "\<And>p. p \<notin> set xs \<Longrightarrow> h1 p = h p" by (rule delE) blast
  have "a \<notin> set (remove1 a xs)" and "a \<in> dom h1 - {0}"
    using rep_distinct [OF rep] rep_live [OF rep] a 1(3) by auto
  with 1(2) obtain l2 h2 where 2: "add_tail l1 h1 a = Some (l2, h2)"
    "rep l2 h2 (remove1 a xs @ [a])" "dom h2 = dom h1"
    "\<And>p. p \<notin> insert a (set (remove1 a xs)) \<Longrightarrow> h2 p = h1 p" by (rule add_tailE) blast
  have "p \<notin> set xs \<Longrightarrow> h2 p = h p" for p
    using 1(4) 2(4) a set_remove1_subset [of a xs] by (metis insertE subsetD)
  with 1 2 show ?thesis by auto
qed

text \<open>Removing the first node pops the sequence.\<close>

lemma pop_first:
  assumes rep: "rep l h (x # xs)"
  shows "first l = x \<and> (\<exists>l' h'. del l h (first l) = Some (l', h') \<and> rep l' h' xs \<and>
      dom h' = dom h \<and> (\<forall>p. p \<notin> set (x # xs) \<longrightarrow> h' p = h p))"
proof -
  have "first l = x" using rep_first [OF rep] by simp
  moreover from rep obtain l' h' where "del l h x = Some (l', h')" "rep l' h' (remove1 x (x # xs))"
    "dom h' = dom h" "\<And>p. p \<notin> set (x # xs) \<Longrightarrow> h' p = h p" by (rule delE [of l h "x # xs" x]) auto
  ultimately show ?thesis by auto
qed

end

interpretation hev: intrusive_list list_rep hev_list_add_tail hev_list_del hev_list_first
proof
  fix l h xs assume rep: "list_rep l h xs"
  show "distinct xs" using rep by (simp add: list_rep_def)
  show "set xs \<subseteq> dom h - {0}"
    using rep list_rep_nonnull [OF rep] seg_dom [of h 0 xs 0] by (auto simp: list_rep_def)
  show "hev_list_first l = first_or xs 0" using rep by (rule list_rep_first)
next
  fix l h xs h' assume "list_rep l h xs" and "\<And>a. a \<in> set xs \<Longrightarrow> h' a = h a"
  then show "list_rep l h' xs" by (rule list_rep_frame)
next
  fix l :: HevList and h :: list_heap and xs a
  assume "list_rep l h xs" "a \<notin> set xs" "a \<in> dom h - {0}"
  then show "\<exists>l' h'. hev_list_add_tail l h a = Some (l', h') \<and> list_rep l' h' (xs @ [a]) \<and>
      dom h' = dom h \<and> (\<forall>p. p \<notin> insert a (set xs) \<longrightarrow> h' p = h p)"
    by (auto elim: hev_list_add_tail_rep [of l h xs a])
next
  fix l :: HevList and h :: list_heap and xs a
  assume rep: "list_rep l h xs" and a: "a \<in> set xs"
  from a obtain as bs where xs: "xs = as @ a # bs" by (auto simp: in_set_conv_decomp)
  with rep have "distinct (as @ a # bs)" by (simp add: list_rep_def)
  then have "remove1 a xs = as @ bs" by (simp add: xs remove1_append)
  with rep show "\<exists>l' h'. hev_list_del l h a = Some (l', h') \<and> list_rep l' h' (remove1 a xs) \<and>
      dom h' = dom h \<and> (\<forall>p. p \<notin> set xs \<longrightarrow> h' p = h p)"
    unfolding xs by (elim hev_list_del_rep) auto
qed

section \<open>The list refines a sequence\<close>

datatype list_op = AddTail ptr | Del ptr

fun list_run :: "list_op list \<Rightarrow> HevList \<Rightarrow> list_heap \<Rightarrow> (HevList \<times> list_heap) option" where
  "list_run [] l h = Some (l, h)"
| "list_run (AddTail a # xs) l h = do { (l, h) \<leftarrow> hev_list_add_tail l h a; list_run xs l h }"
| "list_run (Del a # xs) l h = do { (l, h) \<leftarrow> hev_list_del l h a; list_run xs l h }"

text \<open>The abstract sequence; a node is added when it is not a member and removed when it is.\<close>

fun seq_run :: "ptr set \<Rightarrow> list_op list \<Rightarrow> ptr list \<Rightarrow> ptr list option" where
  "seq_run live [] s = Some s"
| "seq_run live (AddTail a # xs) s =
     (if a \<in> live \<and> a \<notin> set s then seq_run live xs (s @ [a]) else None)"
| "seq_run live (Del a # xs) s = (if a \<in> set s then seq_run live xs (remove1 a s) else None)"

lemma list_run_refines:
  "list_rep l h s \<Longrightarrow> seq_run (dom h - {0}) xs s = Some s' \<Longrightarrow>
   \<exists>l' h'. list_run xs l h = Some (l', h') \<and> list_rep l' h' s' \<and> dom h' = dom h"
proof (induction xs arbitrary: l h s)
  case (Cons x xs)
  show ?case
  proof (cases x)
    case (AddTail a)
    with Cons.prems(2) have a: "a \<in> dom h - {0}" "a \<notin> set s"
      and run: "seq_run (dom h - {0}) xs (s @ [a]) = Some s'" by (simp_all split: if_splits)
    from hev.add_tailE [OF Cons.prems(1) a(2,1)] obtain l1 h1 where
      1: "hev_list_add_tail l h a = Some (l1, h1)" "list_rep l1 h1 (s @ [a])" "dom h1 = dom h"
      by metis
    from Cons.IH [OF 1(2), unfolded 1(3), OF run] show ?thesis by (simp add: AddTail 1(1))
  next
    case (Del a)
    with Cons.prems(2) have a: "a \<in> set s"
      and run: "seq_run (dom h - {0}) xs (remove1 a s) = Some s'" by (simp_all split: if_splits)
    from hev.delE [OF Cons.prems(1) a] obtain l1 h1 where
      1: "hev_list_del l h a = Some (l1, h1)" "list_rep l1 h1 (remove1 a s)" "dom h1 = dom h"
      by metis
    from Cons.IH [OF 1(2), unfolded 1(3), OF run] show ?thesis by (simp add: Del 1(1))
  qed
qed simp

text \<open>
  C19: Starting from an empty list, every sequence of additions at the tail and removals that
  is possible on an abstract sequence of nodes runs without a NULL or dangling dereference on
  the linked nodes, and ends in a well-linked list of exactly that sequence, whose first and
  last pointers are its ends.
\<close>

theorem hev_list_refines_sequence:
  assumes "seq_run (dom h - {0}) xs [] = Some s"
  shows "\<exists>l' h'. list_run xs \<lparr>head = 0, tail = 0\<rparr> h = Some (l', h') \<and> list_rep l' h' s \<and>
    hev_list_first l' = first_or s 0 \<and> hev_list_last l' = last_or s 0"
proof -
  have "list_rep \<lparr>head = 0, tail = 0\<rparr> h []" by (simp add: list_rep_def)
  from list_run_refines [OF this assms] show ?thesis
    by (auto simp: list_rep_def hev_list_first_def hev_list_last_def)
qed

definition example_heap :: list_heap where
  "example_heap = [8 \<mapsto> \<lparr>ln_next = 1, ln_prev = 2\<rparr>, 16 \<mapsto> \<lparr>ln_next = 0, ln_prev = 0\<rparr>,
     24 \<mapsto> \<lparr>ln_next = 0, ln_prev = 7\<rparr>]"

theorem hev_list_refines_sequence_witness:
  "\<exists>l' h'. list_run [AddTail 8, AddTail 16, AddTail 24, Del 16, AddTail 16, Del 8]
     \<lparr>head = 0, tail = 0\<rparr> example_heap = Some (l', h') \<and> list_rep l' h' [24, 16]"
proof -
  have "seq_run (dom example_heap - {0})
      [AddTail 8, AddTail 16, AddTail 24, Del 16, AddTail 16, Del 8] [] = Some [24, 16]"
    by (simp add: example_heap_def)
  from hev_list_refines_sequence [OF this] show ?thesis by blast
qed

end
