(* ===== verification/Socks5Misc.thy ===== *)
theory Socks5Misc
  imports Prelude
begin

text \<open>
  The SOCKS5 wire constants and packed structures of \<open>core/src/hev-socks5-proto.h\<close> and
  the address conversions, name resolution and settings of
  \<open>core/src/hev-socks5-misc.c\<close>. A \<open>HevSocks5Addr\<close> is kept as the bytes the C
  structure has, because the code overlays the union members (a domain length is also the
  first byte of an IPv4 address) and sends the structure as it lies in memory.
\<close>

section \<open>Protocol constants\<close>

definition HEV_SOCKS5_VERSION_5 :: byte where [simp]: "HEV_SOCKS5_VERSION_5 = 5"

definition HEV_SOCKS5_AUTH_METHOD_NONE :: byte where [simp]: "HEV_SOCKS5_AUTH_METHOD_NONE = 0"
definition HEV_SOCKS5_AUTH_METHOD_USER :: byte where [simp]: "HEV_SOCKS5_AUTH_METHOD_USER = 2"
definition HEV_SOCKS5_AUTH_METHOD_DENY :: byte where [simp]: "HEV_SOCKS5_AUTH_METHOD_DENY = 255"

definition HEV_SOCKS5_AUTH_VERSION_1 :: byte where [simp]: "HEV_SOCKS5_AUTH_VERSION_1 = 1"

definition HEV_SOCKS5_REQ_CMD_CONNECT :: byte where [simp]: "HEV_SOCKS5_REQ_CMD_CONNECT = 1"
definition HEV_SOCKS5_REQ_CMD_UDP_ASC :: byte where [simp]: "HEV_SOCKS5_REQ_CMD_UDP_ASC = 3"
definition HEV_SOCKS5_REQ_CMD_FWD_UDP :: byte where [simp]: "HEV_SOCKS5_REQ_CMD_FWD_UDP = 5"

definition HEV_SOCKS5_RES_REP_SUCC :: byte where [simp]: "HEV_SOCKS5_RES_REP_SUCC = 0"
definition HEV_SOCKS5_RES_REP_FAIL :: byte where [simp]: "HEV_SOCKS5_RES_REP_FAIL = 1"
definition HEV_SOCKS5_RES_REP_HOST :: byte where [simp]: "HEV_SOCKS5_RES_REP_HOST = 4"
definition HEV_SOCKS5_RES_REP_IMPL :: byte where [simp]: "HEV_SOCKS5_RES_REP_IMPL = 7"
definition HEV_SOCKS5_RES_REP_ADDR :: byte where [simp]: "HEV_SOCKS5_RES_REP_ADDR = 8"

definition HEV_SOCKS5_ADDR_TYPE_IPV4 :: byte where [simp]: "HEV_SOCKS5_ADDR_TYPE_IPV4 = 1"
definition HEV_SOCKS5_ADDR_TYPE_IPV6 :: byte where [simp]: "HEV_SOCKS5_ADDR_TYPE_IPV6 = 4"
definition HEV_SOCKS5_ADDR_TYPE_NAME :: byte where [simp]: "HEV_SOCKS5_ADDR_TYPE_NAME = 3"

text \<open>\<open>HevSocks5AddrFamily\<close>: the values of \<open>AF_INET\<close>, \<open>AF_INET6\<close>, \<open>AF_UNSPEC\<close>.\<close>

definition HEV_SOCKS5_ADDR_FAMILY_IPV4 :: int where [simp]: "HEV_SOCKS5_ADDR_FAMILY_IPV4 = 2"
definition HEV_SOCKS5_ADDR_FAMILY_IPV6 :: int where [simp]: "HEV_SOCKS5_ADDR_FAMILY_IPV6 = 10"
definition HEV_SOCKS5_ADDR_FAMILY_UNSPEC :: int where [simp]: "HEV_SOCKS5_ADDR_FAMILY_UNSPEC = 0"

section \<open>Structures\<close>

text \<open>
  \<open>body\<close> is the union: \<open>ipv4\<close> (4 address bytes, 2 port bytes), \<open>ipv6\<close> (16 and 2)
  or \<open>domain\<close> (a length byte and up to 258 bytes: the name, then the port). A full
  structure has 259 union bytes; one allocated for a given address has only those it needs.
\<close>

record HevSocks5Addr =
  atype :: byte
  body :: "byte list"

definition sizeof_addr_body :: nat where [simp]: "sizeof_addr_body = 259"

definition addr_bytes :: "HevSocks5Addr \<Rightarrow> byte list" where
  "addr_bytes a = atype a # body a"

record sockaddr_in6 =
  sin6_family :: int
  sin6_port :: u16
  sin6_addr :: "byte list"

section \<open>Building and measuring addresses\<close>

definition hev_socks5_addr_len :: "HevSocks5Addr \<Rightarrow> int option" where
  "hev_socks5_addr_len addr =
     (if atype addr = HEV_SOCKS5_ADDR_TYPE_IPV4 then Some 7
      else if atype addr = HEV_SOCKS5_ADDR_TYPE_IPV6 then Some 19
      else if atype addr = HEV_SOCKS5_ADDR_TYPE_NAME
      then do { l \<leftarrow> mem_get (body addr) 0; Some (4 + uint l) }
      else Some (-1))"

definition hev_socks5_addr_from_name ::
  "HevSocks5Addr \<Rightarrow> byte list \<Rightarrow> int \<Rightarrow> (int \<times> HevSocks5Addr) option" where
  "hev_socks5_addr_from_name addr name port' = do {
     let port = (word_of_int port' :: u16);
     let addr = addr\<lparr>atype := HEV_SOCKS5_ADDR_TYPE_NAME\<rparr>;
     b \<leftarrow> mem_write (body addr) 1 (c_strncpy name 256);
     n \<leftarrow> c_strlen (drop 1 b);
     let len = (word_of_nat n :: byte);
     b \<leftarrow> mem_write b 0 [len];
     b \<leftarrow> mem_write b (1 + unat len) (u16_bytes port);
     Some (4 + uint len, addr\<lparr>body := b\<rparr>)
   }"

definition hev_socks5_addr_from_ipv4 ::
  "HevSocks5Addr \<Rightarrow> byte list \<Rightarrow> int \<Rightarrow> (int \<times> HevSocks5Addr) option" where
  "hev_socks5_addr_from_ipv4 addr ipv4 port = do {
     let addr = addr\<lparr>atype := HEV_SOCKS5_ADDR_TYPE_IPV4\<rparr>;
     ip \<leftarrow> mem_read ipv4 0 4;
     b \<leftarrow> mem_write (body addr) 0 ip;
     b \<leftarrow> mem_write b 4 (u16_bytes (word_of_int port));
     Some (7, addr\<lparr>body := b\<rparr>)
   }"

definition hev_socks5_addr_from_ipv6 ::
  "HevSocks5Addr \<Rightarrow> byte list \<Rightarrow> int \<Rightarrow> (int \<times> HevSocks5Addr) option" where
  "hev_socks5_addr_from_ipv6 addr ipv6 port = do {
     let addr = addr\<lparr>atype := HEV_SOCKS5_ADDR_TYPE_IPV6\<rparr>;
     ip \<leftarrow> mem_read ipv6 0 16;
     b \<leftarrow> mem_write (body addr) 0 ip;
     b \<leftarrow> mem_write b 16 (u16_bytes (word_of_int port));
     Some (19, addr\<lparr>body := b\<rparr>)
   }"

text \<open>\<open>IN6_IS_ADDR_V4MAPPED\<close>: ten zero bytes, then two 255 bytes.\<close>

definition in6_is_addr_v4mapped :: "byte list \<Rightarrow> bool" where
  "in6_is_addr_v4mapped a \<longleftrightarrow> take 12 a = replicate 10 0 @ [255, 255]"

definition hev_socks5_addr_from_sockaddr6 ::
  "HevSocks5Addr \<Rightarrow> sockaddr_in6 \<Rightarrow> (int \<times> HevSocks5Addr) option" where
  "hev_socks5_addr_from_sockaddr6 addr saddr =
     (if in6_is_addr_v4mapped (sin6_addr saddr) then do {
        let addr = addr\<lparr>atype := HEV_SOCKS5_ADDR_TYPE_IPV4\<rparr>;
        b \<leftarrow> mem_write (body addr) 4 (u16_bytes (sin6_port saddr));
        ip \<leftarrow> mem_read (sin6_addr saddr) 12 4;
        b \<leftarrow> mem_write b 0 ip;
        Some (7, addr\<lparr>body := b\<rparr>)
      } else do {
        let addr = addr\<lparr>atype := HEV_SOCKS5_ADDR_TYPE_IPV6\<rparr>;
        b \<leftarrow> mem_write (body addr) 16 (u16_bytes (sin6_port saddr));
        ip \<leftarrow> mem_read (sin6_addr saddr) 0 16;
        b \<leftarrow> mem_write b 0 ip;
        Some (19, addr\<lparr>body := b\<rparr>)
      })"

section \<open>Resolving addresses\<close>

text \<open>
  The resolver functions of the C library and of the task system: \<open>inet_pton\<close> for the two
  families (\<open>None\<close> where it returns 0, the bytes it stores where it returns 1) and
  \<open>getaddrinfo\<close> (no result list, or the family and address of its first entry).
\<close>

datatype addrinfo = AI_Inet "byte list" | AI_Inet6 "byte list" | AI_Other

record resolver =
  inet_pton4 :: "byte list \<Rightarrow> byte list option"
  inet_pton6 :: "byte list \<Rightarrow> byte list option"
  getaddrinfo :: "byte list \<Rightarrow> int \<Rightarrow> addrinfo option"

definition hev_socks5_ipv4_into_sockaddr6 ::
  "HevSocks5Addr \<Rightarrow> sockaddr_in6 \<Rightarrow> sockaddr_in6 option" where
  "hev_socks5_ipv4_into_sockaddr6 addr saddr = do {
     port \<leftarrow> mem_read (body addr) 4 2;
     let saddr = saddr\<lparr>sin6_family := HEV_SOCKS5_ADDR_FAMILY_IPV6,
                       sin6_port := bytes_u16 (port ! 0) (port ! 1)\<rparr>;
     a \<leftarrow> mem_write (sin6_addr saddr) 0 (replicate 10 0);
     a \<leftarrow> mem_write a 10 [0xff];
     a \<leftarrow> mem_write a 11 [0xff];
     ip \<leftarrow> mem_read (body addr) 0 4;
     a \<leftarrow> mem_write a 12 ip;
     Some (saddr\<lparr>sin6_addr := a\<rparr>)
   }"

definition hev_socks5_ipv6_into_sockaddr6 ::
  "HevSocks5Addr \<Rightarrow> sockaddr_in6 \<Rightarrow> sockaddr_in6 option" where
  "hev_socks5_ipv6_into_sockaddr6 addr saddr = do {
     port \<leftarrow> mem_read (body addr) 16 2;
     let saddr = saddr\<lparr>sin6_family := HEV_SOCKS5_ADDR_FAMILY_IPV6,
                       sin6_port := bytes_u16 (port ! 0) (port ! 1)\<rparr>;
     ip \<leftarrow> mem_read (body addr) 0 16;
     a \<leftarrow> mem_write (sin6_addr saddr) 0 ip;
     Some (saddr\<lparr>sin6_addr := a\<rparr>)
   }"

definition hev_socks5_name_resolve_ipv4 ::
  "resolver \<Rightarrow> byte list \<Rightarrow> sockaddr_in6 \<Rightarrow> (int \<times> sockaddr_in6) option" where
  "hev_socks5_name_resolve_ipv4 rs name saddr = do {
     a \<leftarrow> mem_write (sin6_addr saddr) 0 (replicate 10 0);
     case inet_pton4 rs name of
       None \<Rightarrow> Some (-1, saddr\<lparr>sin6_addr := a\<rparr>)
     | Some ip \<Rightarrow> do {
         a \<leftarrow> mem_write a 12 ip;
         a \<leftarrow> mem_write a 10 [0xff];
         a \<leftarrow> mem_write a 11 [0xff];
         Some (0, saddr\<lparr>sin6_addr := a\<rparr>)
       }
   }"

definition hev_socks5_name_resolve_ipv6 ::
  "resolver \<Rightarrow> byte list \<Rightarrow> sockaddr_in6 \<Rightarrow> (int \<times> sockaddr_in6) option" where
  "hev_socks5_name_resolve_ipv6 rs name saddr =
     (case inet_pton6 rs name of
        None \<Rightarrow> Some (-1, saddr)
      | Some ip \<Rightarrow> do {
          a \<leftarrow> mem_write (sin6_addr saddr) 0 ip;
          Some (0, saddr\<lparr>sin6_addr := a\<rparr>)
        })"

definition hev_socks5_name_resolve_name ::
  "resolver \<Rightarrow> byte list \<Rightarrow> sockaddr_in6 \<Rightarrow> int \<Rightarrow> (int \<times> sockaddr_in6 \<times> int) option" where
  "hev_socks5_name_resolve_name rs name saddr family =
     (case getaddrinfo rs name family of
        None \<Rightarrow> Some (-1, saddr, family)
      | Some (AI_Inet sa) \<Rightarrow> do {
          a \<leftarrow> mem_write (sin6_addr saddr) 0 (replicate 10 0);
          a \<leftarrow> mem_write a 10 [0xff];
          a \<leftarrow> mem_write a 11 [0xff];
          ip \<leftarrow> mem_read sa 0 4;
          a \<leftarrow> mem_write a 12 ip;
          Some (0, saddr\<lparr>sin6_addr := a\<rparr>, HEV_SOCKS5_ADDR_FAMILY_IPV4)
        }
      | Some (AI_Inet6 sa) \<Rightarrow> do {
          ip \<leftarrow> mem_read sa 0 16;
          a \<leftarrow> mem_write (sin6_addr saddr) 0 ip;
          Some (0, saddr\<lparr>sin6_addr := a\<rparr>, HEV_SOCKS5_ADDR_FAMILY_IPV6)
        }
      | Some AI_Other \<Rightarrow> Some (-1, saddr, family))"

definition hev_socks5_name_into_sockaddr6 ::
  "resolver \<Rightarrow> byte list \<Rightarrow> int \<Rightarrow> sockaddr_in6 \<Rightarrow> int \<Rightarrow> (int \<times> sockaddr_in6 \<times> int) option" where
  "hev_socks5_name_into_sockaddr6 rs name port saddr family = do {
     let saddr = saddr\<lparr>sin6_family := HEV_SOCKS5_ADDR_FAMILY_IPV6,
                       sin6_port := htons (word_of_int port)\<rparr>;
     (res, saddr) \<leftarrow> hev_socks5_name_resolve_ipv4 rs name saddr;
     if res = 0 then Some (0, saddr, HEV_SOCKS5_ADDR_FAMILY_IPV4)
     else do {
       (res, saddr) \<leftarrow> hev_socks5_name_resolve_ipv6 rs name saddr;
       if res = 0 then Some (0, saddr, HEV_SOCKS5_ADDR_FAMILY_IPV6)
       else hev_socks5_name_resolve_name rs name saddr family
     }
   }"

definition hev_socks5_addr_into_sockaddr6 ::
  "resolver \<Rightarrow> HevSocks5Addr \<Rightarrow> sockaddr_in6 \<Rightarrow> int \<Rightarrow> (int \<times> sockaddr_in6 \<times> int) option" where
  "hev_socks5_addr_into_sockaddr6 rs addr saddr family =
     (if atype addr = HEV_SOCKS5_ADDR_TYPE_IPV4 then do {
        saddr \<leftarrow> hev_socks5_ipv4_into_sockaddr6 addr saddr;
        Some (0, saddr, HEV_SOCKS5_ADDR_FAMILY_IPV4)
      }
      else if atype addr = HEV_SOCKS5_ADDR_TYPE_IPV6 then do {
        saddr \<leftarrow> hev_socks5_ipv6_into_sockaddr6 addr saddr;
        Some (0, saddr, HEV_SOCKS5_ADDR_FAMILY_IPV6)
      }
      else if atype addr = HEV_SOCKS5_ADDR_TYPE_NAME then do {
        len \<leftarrow> mem_get (body addr) 0;
        nm \<leftarrow> mem_read (body addr) 1 (unat len);
        name \<leftarrow> c_string (nm @ [0]);
        port \<leftarrow> mem_read (body addr) (1 + unat len) 2;
        hev_socks5_name_into_sockaddr6 rs name
          (uint (ntohs (bytes_u16 (port ! 0) (port ! 1)))) saddr family
      }
      else Some (-1, saddr, family))"

end
