(* ===== verification/SockIO.thy ===== *)
theory SockIO
  imports Prelude
begin

text \<open>
  The world of one SOCKS5 session task: the byte stream of its TCP socket, the descriptors
  it has open, and the outcomes of its system calls. The stream loops are those of
  \<open>third-part/hev-task-system/src/lib/io/socket/hev-task-io-socket.c\<close> that the SOCKS5
  core calls: they retry on EAGAIN through the yielder and, with \<open>MSG_WAITALL\<close>, until the
  requested length is reached.

  The kernel and the scheduler are scripts, so a theorem about every script covers every
  behaviour. A receive event is a segment of bytes that arrives, an EAGAIN (with the flag
  whether the yielder then gives up, as it does on a timeout) or the end of the stream (the
  result 0 or a negative one, which stays). An empty script is a peer that never sends again,
  so the yielder times out. Results of other system calls come from \<open>w_script\<close>, names
  returned by \<open>getsockname\<close> from \<open>w_names\<close>. \<open>w_live\<close> counts the heap blocks that
  are allocated and not freed, and \<open>w_junk\<close> is the indeterminate content of local variables
  before they are assigned.
\<close>

datatype errno = EAGAIN | EOTHER

datatype rx_event = RxData "byte list" | RxAgain bool | RxEnd int

datatype tx_event = TxAccept nat | TxAgain bool | TxErr int

record world =
  w_rx :: "rx_event list"
  w_txs :: "tx_event list"
  w_tx :: "byte list"
  w_errno :: errno
  w_script :: "int list"
  w_names :: "(int \<times> byte list \<times> u16) list"
  w_next_fd :: int
  w_open :: "int set"
  w_live :: int
  w_junk :: "byte list"

section \<open>Receiving\<close>

fun recv_loop ::
  "bool \<Rightarrow> bool \<Rightarrow> rx_event list \<Rightarrow> nat \<Rightarrow> byte list \<Rightarrow> errno \<Rightarrow>
   int \<times> byte list \<times> rx_event list \<times> errno"
where
  "recv_loop waitall dontwait [] len acc e =
     (if dontwait then if waitall \<and> acc \<noteq> [] then int (length acc) else -1
      else if acc \<noteq> [] then int (length acc) else -2,
      acc, [], EAGAIN)"
| "recv_loop waitall dontwait (RxAgain stop # es) len acc e =
     (if dontwait
      then (if waitall \<and> acc \<noteq> [] then int (length acc) else -1, acc, es, EAGAIN)
      else if stop then (if acc \<noteq> [] then int (length acc) else -2, acc, es, EAGAIN)
      else recv_loop waitall dontwait es len acc EAGAIN)"
| "recv_loop waitall dontwait (RxEnd r # es) len acc e =
     (if waitall \<and> acc \<noteq> [] then int (length acc) else r, acc, RxEnd r # es,
      if r < 0 then EOTHER else e)"
| "recv_loop waitall dontwait (RxData bs # es) len acc e =
     (let got = take (len - length acc) bs;
          rest = drop (len - length acc) bs;
          es' = (if rest = [] then es else RxData rest # es)
      in if \<not> waitall then (int (length got), acc @ got, es', e)
         else if got = [] then (int (length acc), acc, es', e)
         else if length (acc @ got) < len then recv_loop waitall dontwait es len (acc @ got) e
         else (int (length (acc @ got)), acc @ got, es', e))"

definition hev_task_io_socket_recv ::
  "nat \<Rightarrow> bool \<Rightarrow> bool \<Rightarrow> world \<Rightarrow> int \<times> byte list \<times> world" where
  "hev_task_io_socket_recv len waitall dontwait w =
     (let (res, bs, rx, e) = recv_loop waitall dontwait (w_rx w) len [] (w_errno w)
      in (res, bs, w\<lparr>w_rx := rx, w_errno := e\<rparr>))"

text \<open>The bytes a blocking reader gets before the stream ends or the yielder gives up.\<close>

fun rx_bytes :: "rx_event list \<Rightarrow> byte list" where
  "rx_bytes [] = []"
| "rx_bytes (RxData bs # es) = (if bs = [] then [] else bs @ rx_bytes es)"
| "rx_bytes (RxAgain stop # es) = (if stop then [] else rx_bytes es)"
| "rx_bytes (RxEnd r # es) = []"

text \<open>Scripts that respect the kernel: the end of a stream is no positive count.\<close>

definition rx_ok :: "rx_event list \<Rightarrow> bool" where
  "rx_ok es \<longleftrightarrow> (\<forall>r. RxEnd r \<in> set es \<longrightarrow> r \<le> 0)"

lemma rx_ok_simps [simp]:
  "rx_ok []" "rx_ok (RxData bs # es) = rx_ok es" "rx_ok (RxAgain b # es) = rx_ok es"
  "rx_ok (RxEnd r # es) \<longleftrightarrow> r \<le> 0 \<and> rx_ok es"
  by (auto simp: rx_ok_def)

lemma recv_loop_waitall:
  "recv_loop True False es len acc e0 = (res, bs, es', e) \<Longrightarrow> length acc < len \<Longrightarrow> rx_ok es \<Longrightarrow>
   rx_ok es' \<and>
   (if length (rx_bytes es) < len - length acc
    then res < int len
    else res = int len \<and> bs = acc @ take (len - length acc) (rx_bytes es) \<and>
         rx_bytes es' = drop (len - length acc) (rx_bytes es))"
proof (induction True False es len acc e0 arbitrary: res bs es' e rule: recv_loop.induct)
  case (2 stop es len acc e0)
  then show ?case by (cases stop) (auto split: if_splits)
next
  case (4 bs' es len acc e0)
  let ?k = "len - length acc"
  show ?case
  proof (cases "bs' = [] \<or> ?k \<le> length bs'")
    case True
    with 4 show ?thesis by (auto simp: Let_def split: if_splits)
  next
    case False
    then have lt: "length (acc @ bs') < len" and ne: "bs' \<noteq> []" by auto
    with 4(2,4) False have "recv_loop True False es len (acc @ bs') e0 = (res, bs, es', e)"
      by (simp add: Let_def)
    with 4(1) [OF refl refl] 4(4) False lt ne show ?thesis
      by (auto simp: Let_def split: if_splits)
  qed
qed (auto split: if_splits)

lemma recv_waitall:
  assumes "hev_task_io_socket_recv len True False w = (res, bs, w')"
    and "0 < len" "rx_ok (w_rx w)"
  shows "rx_ok (w_rx w')"
    and "len \<le> length (rx_bytes (w_rx w)) \<Longrightarrow> res = int len \<and> bs = take len (rx_bytes (w_rx w)) \<and>
           rx_bytes (w_rx w') = drop len (rx_bytes (w_rx w))"
    and "length (rx_bytes (w_rx w)) < len \<Longrightarrow> res < int len"
  using assms recv_loop_waitall [of "w_rx w" len "[]" "w_errno w" res bs "w_rx w'"]
  by (auto simp: hev_task_io_socket_recv_def split: prod.splits if_splits)

lemma recv_frame:
  assumes "hev_task_io_socket_recv len wa dw w = (res, bs, w')"
  shows "w_tx w' = w_tx w" "w_txs w' = w_txs w" "w_script w' = w_script w"
    "w_names w' = w_names w" "w_open w' = w_open w" "w_next_fd w' = w_next_fd w"
    "w_live w' = w_live w" "w_junk w' = w_junk w"
  using assms by (auto simp: hev_task_io_socket_recv_def split: prod.splits)

lemma recv_loop_length:
  "recv_loop wa dw es len acc e0 = (res, bs, es', e) \<Longrightarrow> length acc \<le> len \<Longrightarrow>
   length bs \<le> len"
  by (induction wa dw es len acc e0 arbitrary: res bs es' e rule: recv_loop.induct)
    (auto simp: Let_def split: if_splits)

section \<open>Sending\<close>

text \<open>An empty send script is a socket that takes everything.\<close>

fun send_loop ::
  "bool \<Rightarrow> bool \<Rightarrow> tx_event list \<Rightarrow> byte list \<Rightarrow> nat \<Rightarrow> errno \<Rightarrow>
   int \<times> nat \<times> tx_event list \<times> errno" where
  "send_loop waitall dontwait [] bs n e = (int (length bs), length bs, [], e)"
| "send_loop waitall dontwait (TxAgain stop # es) bs n e =
     (if dontwait
      then (if waitall \<and> 0 < n then int n else -1, n, es, EAGAIN)
      else if stop then (if 0 < n then int n else -2, n, es, EAGAIN)
      else send_loop waitall dontwait es bs n EAGAIN)"
| "send_loop waitall dontwait (TxErr r # es) bs n e =
     (if waitall \<and> 0 < n then int n else r, n, es, EOTHER)"
| "send_loop waitall dontwait (TxAccept k # es) bs n e =
     (let s = min k (length bs - n)
      in if \<not> waitall then (int s, n + s, es, e)
         else if s = 0 then (int n, n, es, e)
         else if n + s < length bs then send_loop waitall dontwait es bs (n + s) e
         else (int (n + s), n + s, es, e))"

definition hev_task_io_socket_send ::
  "byte list \<Rightarrow> bool \<Rightarrow> bool \<Rightarrow> world \<Rightarrow> int \<times> world" where
  "hev_task_io_socket_send bs waitall dontwait w =
     (let (res, n, txs, e) = send_loop waitall dontwait (w_txs w) bs 0 (w_errno w)
      in (res, w\<lparr>w_tx := w_tx w @ take n bs, w_txs := txs, w_errno := e\<rparr>))"

text \<open>\<open>sendmsg\<close> sends the concatenation of its iovecs.\<close>

definition hev_task_io_socket_sendmsg ::
  "byte list list \<Rightarrow> bool \<Rightarrow> bool \<Rightarrow> world \<Rightarrow> int \<times> world" where
  "hev_task_io_socket_sendmsg iovs waitall dontwait w =
     hev_task_io_socket_send (concat iovs) waitall dontwait w"

definition tx_reliable :: "world \<Rightarrow> bool" where
  "tx_reliable w \<longleftrightarrow> (\<forall>e \<in> set (w_txs w). case e of TxAccept k \<Rightarrow> 0 < k | TxAgain stop \<Rightarrow> \<not> stop
     | TxErr _ \<Rightarrow> False)"

lemma send_loop_reliable:
  "send_loop True False txs bs n e0 = (res, m, txs', e) \<Longrightarrow> n < length bs \<Longrightarrow>
   \<forall>e \<in> set txs. case e of TxAccept k \<Rightarrow> 0 < k | TxAgain stop \<Rightarrow> \<not> stop | TxErr _ \<Rightarrow> False \<Longrightarrow>
   res = int (length bs) \<and> m = length bs \<and> set txs' \<subseteq> set txs"
proof (induction True False txs bs n e0 arbitrary: res m txs' e rule: send_loop.induct)
  case (4 k es bs n e0)
  show ?case
  proof (cases "n + min k (length bs - n) < length bs")
    case True
    with 4 have "send_loop True False es bs (n + min k (length bs - n)) e0 = (res, m, txs', e)"
      by (simp add: Let_def split: if_splits)
    with 4(1) [OF refl _ _ True] 4(3,4) True show ?thesis
      by (auto simp: min_def split: if_splits)
  next
    case False
    with 4(2-4) show ?thesis by (auto simp: Let_def split: if_splits)
  qed
qed (auto split: if_splits)

lemma send_frame:
  assumes "hev_task_io_socket_send bs wa dw w = (res, w')"
  shows "w_rx w' = w_rx w" "w_script w' = w_script w"
    "w_names w' = w_names w" "w_open w' = w_open w" "w_next_fd w' = w_next_fd w"
    "w_live w' = w_live w" "w_junk w' = w_junk w"
  using assms by (auto simp: hev_task_io_socket_send_def split: prod.splits)

lemma send_reliable:
  assumes "hev_task_io_socket_send bs True False w = (res, w')" "tx_reliable w" "bs \<noteq> []"
  shows "res = int (length bs)" "w_tx w' = w_tx w @ bs" "tx_reliable w'"
proof -
  obtain m txs e where sl: "send_loop True False (w_txs w) bs 0 (w_errno w) = (res, m, txs, e)"
    and w': "w' = w\<lparr>w_tx := w_tx w @ take m bs, w_txs := txs, w_errno := e\<rparr>"
    using assms(1) by (auto simp: hev_task_io_socket_send_def split: prod.splits)
  from send_loop_reliable [OF sl] assms(2,3)
  have "res = int (length bs) \<and> m = length bs \<and> set txs \<subseteq> set (w_txs w)"
    by (simp add: tx_reliable_def)
  with w' assms(2) show "res = int (length bs)" "w_tx w' = w_tx w @ bs" "tx_reliable w'"
    by (auto simp: tx_reliable_def)
qed

section \<open>Descriptors and other system calls\<close>

text \<open>The next scripted result; a script that has run out makes the call fail.\<close>

definition sys_result :: "world \<Rightarrow> int \<times> world" where
  "sys_result w =
     (case w_script w of [] \<Rightarrow> (-1, w) | r # rs \<Rightarrow> (r, w\<lparr>w_script := rs\<rparr>))"

text \<open>\<open>socket\<close> returns a fresh descriptor, which is open from then on, or fails.\<close>

definition sys_socket :: "world \<Rightarrow> int \<times> world" where
  "sys_socket w =
     (let (r, w) = sys_result w
      in if r < 0 then (-1, w)
         else (w_next_fd w,
               w\<lparr>w_next_fd := w_next_fd w + 1, w_open := insert (w_next_fd w) (w_open w)\<rparr>))"

definition sys_close :: "int \<Rightarrow> world \<Rightarrow> world" where
  "sys_close fd w = w\<lparr>w_open := w_open w - {fd}\<rparr>"

text \<open>Allocation may fail; freeing gives one block back.\<close>

definition sys_malloc :: "world \<Rightarrow> bool \<times> world" where
  "sys_malloc w =
     (let (r, w) = sys_result w
      in if r < 0 then (False, w) else (True, w\<lparr>w_live := w_live w + 1\<rparr>))"

definition sys_free :: "world \<Rightarrow> world" where
  "sys_free w = w\<lparr>w_live := w_live w - 1\<rparr>"

text \<open>Descriptors are handed out in increasing order and are never negative.\<close>

definition fds_ok :: "world \<Rightarrow> bool" where
  "fds_ok w \<longleftrightarrow> 0 \<le> w_next_fd w \<and> (\<forall>fd \<in> w_open w. 0 \<le> fd \<and> fd < w_next_fd w)"

lemma fds_ok_grow:
  assumes "fds_ok w"
  shows "fds_ok (w\<lparr>w_next_fd := w_next_fd w + 1, w_open := insert (w_next_fd w) (w_open w)\<rparr>)"
    "fds_ok (w\<lparr>w_next_fd := w_next_fd w + 1 + 1, w_open := insert (w_next_fd w + 1) (insert (w_next_fd w) (w_open w))\<rparr>)"
  using assms by (force simp: fds_ok_def)+

lemma sys_result_frame [simp]:
  assumes "sys_result w = (r, w')"
  shows "w_rx w' = w_rx w" "w_tx w' = w_tx w" "w_txs w' = w_txs w" "w_names w' = w_names w"
    "w_open w' = w_open w" "w_next_fd w' = w_next_fd w" "w_live w' = w_live w"
    "w_junk w' = w_junk w"
  using assms by (auto simp: sys_result_def split: list.splits)

lemma sys_close_fields [simp]:
  "w_rx (sys_close fd w) = w_rx w" "w_tx (sys_close fd w) = w_tx w"
  "w_txs (sys_close fd w) = w_txs w" "w_names (sys_close fd w) = w_names w"
  "w_script (sys_close fd w) = w_script w" "w_errno (sys_close fd w) = w_errno w"
  "w_open (sys_close fd w) = w_open w - {fd}" "w_next_fd (sys_close fd w) = w_next_fd w"
  "w_live (sys_close fd w) = w_live w" "w_junk (sys_close fd w) = w_junk w"
  by (simp_all add: sys_close_def)

lemma fds_ok_close [simp]: "fds_ok w \<Longrightarrow> fds_ok (sys_close fd w)"
  by (auto simp: fds_ok_def)

lemma sys_socket_cases:
  assumes "sys_socket w = (fd, w')" "fds_ok w"
  obtains (fail) "fd = -1" "w_open w' = w_open w" "w_next_fd w' = w_next_fd w" "fds_ok w'"
  | (new) "0 \<le> fd" "fd \<notin> w_open w" "w_open w' = insert fd (w_open w)" "fds_ok w'"
proof (cases "sys_result w")
  case (Pair r w1)
  note fr = sys_result_frame [OF Pair]
  show thesis
  proof (cases "r < 0")
    case True
    with assms Pair fr show thesis by (intro fail) (auto simp: sys_socket_def fds_ok_def)
  next
    case False
    with assms Pair fr show thesis by (intro new) (fastforce simp: sys_socket_def fds_ok_def)+
  qed
qed

section \<open>The stream as seen by a blocking reader\<close>

definition w_avail :: "world \<Rightarrow> byte list" where
  "w_avail w = rx_bytes (w_rx w)"

definition w_ok :: "world \<Rightarrow> bool" where
  "w_ok w \<longleftrightarrow> rx_ok (w_rx w) \<and> length (w_junk w) = 259"

lemma w_ok_cong:
  "w_rx w' = w_rx w \<Longrightarrow> w_junk w' = w_junk w \<Longrightarrow> w_ok w' = w_ok w"
  by (simp add: w_ok_def)

lemma recv_loop_ok:
  "recv_loop wa dw es len acc e0 = (res, bs, es', e) \<Longrightarrow> rx_ok es \<Longrightarrow> rx_ok es'"
proof (induction wa dw es len acc e0 arbitrary: res bs es' e rule: recv_loop.induct)
  case (4 wa dw bs' es len acc e0)
  then show ?case
    by (cases "wa \<and> take (len - length acc) bs' \<noteq> []
          \<and> length (acc @ take (len - length acc) bs') < len")
      (auto simp: Let_def split: if_splits)
qed (auto split: if_splits)

lemma recv_ok:
  assumes "hev_task_io_socket_recv n wa dw w = (res, bs, w')" "w_ok w"
  shows "w_ok w'"
proof -
  obtain rx e where rl: "recv_loop wa dw (w_rx w) n [] (w_errno w) = (res, bs, rx, e)"
    and w': "w' = w\<lparr>w_rx := rx, w_errno := e\<rparr>"
    using assms(1) by (auto simp: hev_task_io_socket_recv_def split: prod.splits)
  then show ?thesis using recv_loop_ok [OF rl] assms(2) by (simp add: w_ok_def)
qed

lemma recv_cases:
  assumes "hev_task_io_socket_recv n True False w = (res, bs, w')" "w_ok w" "0 < n"
  obtains (full) "n \<le> length (w_avail w)" "res = int n" "bs = take n (w_avail w)"
      "w_avail w' = drop n (w_avail w)" "w_ok w'"
  | (short) "length (w_avail w) < n" "res < int n" "w_ok w'"
proof (cases "n \<le> length (w_avail w)")
  case True
  have "rx_ok (w_rx w)" using assms(2) by (simp add: w_ok_def)
  from recv_waitall(2) [OF assms(1,3) this] True recv_ok [OF assms(1,2)]
  show thesis by (intro full) (simp_all add: w_avail_def)
next
  case False
  have "rx_ok (w_rx w)" using assms(2) by (simp add: w_ok_def)
  from recv_waitall(3) [OF assms(1,3) this] False recv_ok [OF assms(1,2)]
  show thesis by (intro short) (simp_all add: w_avail_def)
qed

text \<open>What I/O on the stream leaves alone.\<close>

definition sock_frame :: "world \<Rightarrow> world \<Rightarrow> bool" where
  "sock_frame w w' \<longleftrightarrow>
     w_script w' = w_script w \<and> w_names w' = w_names w \<and> w_next_fd w' = w_next_fd w \<and>
     w_open w' = w_open w \<and> w_live w' = w_live w \<and> w_junk w' = w_junk w"

lemma sock_frame_refl [simp]: "sock_frame w w"
  by (simp add: sock_frame_def)

lemma sock_frame_trans: "sock_frame w w' \<Longrightarrow> sock_frame w' w'' \<Longrightarrow> sock_frame w w''"
  by (simp add: sock_frame_def)

lemma tx_reliable_cong: "w_txs w' = w_txs w \<Longrightarrow> tx_reliable w' = tx_reliable w"
  by (simp add: tx_reliable_def)

lemma w_avail_cong: "w_rx w' = w_rx w \<Longrightarrow> w_avail w' = w_avail w"
  by (simp add: w_avail_def)

lemma send_step:
  assumes "tx_reliable w" "bs \<noteq> []"
  obtains w' where "hev_task_io_socket_send bs True False w = (int (length bs), w')"
    "w_tx w' = w_tx w @ bs" "w_rx w' = w_rx w" "tx_reliable w'" "sock_frame w w'"
proof (cases "hev_task_io_socket_send bs True False w")
  case (Pair res w')
  show thesis
    using send_reliable [OF Pair assms] send_frame [OF Pair]
    by (intro that [of w']) (simp_all add: sock_frame_def Pair)
qed

lemma recv_step:
  assumes "w_ok w" "0 < n"
  obtains (full) w' where
      "hev_task_io_socket_recv n True False w = (int n, take n (w_avail w), w')"
      "n \<le> length (w_avail w)" "w_avail w' = drop n (w_avail w)" "w_ok w'"
      "w_tx w' = w_tx w" "w_txs w' = w_txs w" "sock_frame w w'"
  | (short) res bs w' where "hev_task_io_socket_recv n True False w = (res, bs, w')"
      "length (w_avail w) < n" "res \<noteq> int n" "w_ok w'"
      "w_tx w' = w_tx w" "w_txs w' = w_txs w" "sock_frame w w'"
proof (cases "hev_task_io_socket_recv n True False w")
  case (fields res bs w')
  from fields assms show thesis
  proof (cases rule: recv_cases)
    case full
    with fields recv_frame [OF fields] show thesis
      by (intro that(1) [of w']) (simp_all add: sock_frame_def)
  next
    case short
    with fields recv_frame [OF fields] show thesis
      by (intro that(2) [of res bs w']) (simp_all add: sock_frame_def)
  qed
qed

end
