(* ===== verification/Socks5Base.thy ===== *)
theory Socks5Base
  imports Socks5Misc SockIO
begin

text \<open>
  The base object of \<open>core/src/hev-socks5.c\<close>, and the parts of
  \<open>core/src/hev-socks5-misc.c\<close> that touch the world: the timeouts and sizes kept in file
  scope variables, the yielder of blocking I/O, socket creation and the text form of an
  address. Subclasses of \<open>HevSocks5\<close> extend its record, as the C structures embed it as
  their first member.
\<close>

datatype HevSocks5Type =
  HEV_SOCKS5_TYPE_NONE
| HEV_SOCKS5_TYPE_TCP
| HEV_SOCKS5_TYPE_UDP_IN_TCP
| HEV_SOCKS5_TYPE_UDP_IN_UDP

record HevSocks5 =
  sk_fd :: int
  sk_timeout :: int
  sk_udp_associated :: bool
  sk_type :: HevSocks5Type
  sk_addr_family :: int

definition hev_socks5_get_timeout :: "'a HevSocks5_scheme \<Rightarrow> int" where
  "hev_socks5_get_timeout self = sk_timeout self"

definition hev_socks5_set_timeout :: "'a HevSocks5_scheme \<Rightarrow> int \<Rightarrow> 'a HevSocks5_scheme" where
  "hev_socks5_set_timeout self t = self\<lparr>sk_timeout := t\<rparr>"

definition hev_socks5_get_addr_family :: "'a HevSocks5_scheme \<Rightarrow> int" where
  "hev_socks5_get_addr_family self = sk_addr_family self"

definition hev_socks5_set_addr_family ::
  "'a HevSocks5_scheme \<Rightarrow> int \<Rightarrow> 'a HevSocks5_scheme" where
  "hev_socks5_set_addr_family self family = self\<lparr>sk_addr_family := family\<rparr>"

text \<open>The default \<open>binder\<close>.\<close>

definition hev_socks5_bind :: "'a HevSocks5_scheme \<Rightarrow> int \<Rightarrow> sockaddr_in6 \<Rightarrow> world \<Rightarrow> int \<times> world"
where
  "hev_socks5_bind self sock dest w = (0, w)"

text \<open>The constructor runs on a zeroed object.\<close>

definition hev_socks5_construct ::
  "'a HevSocks5_scheme \<Rightarrow> HevSocks5Type \<Rightarrow> 'a HevSocks5_scheme" where
  "hev_socks5_construct self ty =
     self\<lparr>sk_fd := -1, sk_timeout := -1, sk_type := ty,
          sk_addr_family := HEV_SOCKS5_ADDR_FAMILY_UNSPEC\<rparr>"

definition hev_socks5_destruct :: "'a HevSocks5_scheme \<Rightarrow> world \<Rightarrow> world" where
  "hev_socks5_destruct self w =
     (let w = (if sk_fd self \<ge> 0 then sys_close (sk_fd self) w else w) in sys_free w)"

section \<open>Settings\<close>

record socks5_settings =
  set_connect_timeout :: int
  set_tcp_timeout :: int
  set_udp_timeout :: int
  set_task_stack_size :: int
  set_udp_recv_buffer_size :: int
  set_udp_copy_buffer_nums :: int

definition socks5_settings_init :: socks5_settings where
  "socks5_settings_init =
     \<lparr>set_connect_timeout = 10000, set_tcp_timeout = 300000, set_udp_timeout = 60000,
      set_task_stack_size = 8192, set_udp_recv_buffer_size = 512 * 1024,
      set_udp_copy_buffer_nums = 10\<rparr>"

definition hev_socks5_set_connect_timeout :: "int \<Rightarrow> socks5_settings \<Rightarrow> socks5_settings" where
  "hev_socks5_set_connect_timeout t cfg = cfg\<lparr>set_connect_timeout := t\<rparr>"

definition hev_socks5_get_connect_timeout :: "socks5_settings \<Rightarrow> int" where
  "hev_socks5_get_connect_timeout cfg = set_connect_timeout cfg"

definition hev_socks5_set_tcp_timeout :: "int \<Rightarrow> socks5_settings \<Rightarrow> socks5_settings" where
  "hev_socks5_set_tcp_timeout t cfg = cfg\<lparr>set_tcp_timeout := t\<rparr>"

definition hev_socks5_get_tcp_timeout :: "socks5_settings \<Rightarrow> int" where
  "hev_socks5_get_tcp_timeout cfg = set_tcp_timeout cfg"

definition hev_socks5_set_udp_timeout :: "int \<Rightarrow> socks5_settings \<Rightarrow> socks5_settings" where
  "hev_socks5_set_udp_timeout t cfg = cfg\<lparr>set_udp_timeout := t\<rparr>"

definition hev_socks5_get_udp_timeout :: "socks5_settings \<Rightarrow> int" where
  "hev_socks5_get_udp_timeout cfg = set_udp_timeout cfg"

definition hev_socks5_set_task_stack_size :: "int \<Rightarrow> socks5_settings \<Rightarrow> socks5_settings" where
  "hev_socks5_set_task_stack_size n cfg = cfg\<lparr>set_task_stack_size := n\<rparr>"

definition hev_socks5_get_task_stack_size :: "socks5_settings \<Rightarrow> int" where
  "hev_socks5_get_task_stack_size cfg = set_task_stack_size cfg"

definition hev_socks5_set_udp_recv_buffer_size :: "int \<Rightarrow> socks5_settings \<Rightarrow> socks5_settings" where
  "hev_socks5_set_udp_recv_buffer_size n cfg = cfg\<lparr>set_udp_recv_buffer_size := n\<rparr>"

definition hev_socks5_set_udp_copy_buffer_nums :: "int \<Rightarrow> socks5_settings \<Rightarrow> socks5_settings" where
  "hev_socks5_set_udp_copy_buffer_nums n cfg = cfg\<lparr>set_udp_copy_buffer_nums := n\<rparr>"

definition hev_socks5_get_udp_copy_buffer_nums :: "socks5_settings \<Rightarrow> int" where
  "hev_socks5_get_udp_copy_buffer_nums cfg = set_udp_copy_buffer_nums cfg"

section \<open>Yielding\<close>

datatype HevTaskYieldType = HEV_TASK_YIELD | HEV_TASK_WAITIO

text \<open>\<open>slept\<close> is what \<open>hev_task_sleep\<close> returns for a time: the part of it that was left
  when the task was woken, 0 when the time ran out.\<close>

definition hev_socks5_task_io_yielder ::
  "(int \<Rightarrow> int) \<Rightarrow> HevTaskYieldType \<Rightarrow> 'a HevSocks5_scheme \<Rightarrow> int" where
  "hev_socks5_task_io_yielder slept ty self =
     (if ty = HEV_TASK_YIELD then 0
      else if sk_timeout self < 0 then 0
      else if slept (sk_timeout self) \<le> 0 then -1
      else 0)"

section \<open>Sockets\<close>

datatype sock_kind = SOCK_STREAM | SOCK_DGRAM

definition hev_socks5_socket :: "sock_kind \<Rightarrow> world \<Rightarrow> int \<times> world" where
  "hev_socks5_socket ty w =
     (let (fd, w) = sys_socket w in
      if fd < 0 then (-1, w)
      else
        let (res, w) = sys_result w in
        if res < 0 then (-1, sys_close fd w)
        else
          let (res, w) = sys_result w;
              (res, w) = (if res < 0 then sys_result w else (res, w));
              (res, w) = (if ty = SOCK_DGRAM then sys_result w else (res, w))
          in (fd, w))"

section \<open>The text of an address\<close>

fun c_utoa :: "nat \<Rightarrow> byte list" where
  "c_utoa n = (if n < 10 then [48 + of_nat n] else c_utoa (n div 10) @ [48 + of_nat (n mod 10)])"

declare c_utoa.simps [simp del]

text \<open>\<open>snprintf (buf, len, "[%s]:%u", sa, port)\<close>; NULL for an unknown type.\<close>

definition hev_socks5_addr_into_str ::
  "(byte list \<Rightarrow> byte list) \<Rightarrow> (byte list \<Rightarrow> byte list) \<Rightarrow> HevSocks5Addr \<Rightarrow> nat \<Rightarrow> byte list option option"
where
  "hev_socks5_addr_into_str ntop4 ntop6 addr len = do {
     let print = (\<lambda>sa port. Some (Some (take (len - 1)
           ([91] @ sa @ [93, 58] @ c_utoa (unat (ntohs (bytes_u16 (port ! 0) (port ! 1))))))));
     if atype addr = HEV_SOCKS5_ADDR_TYPE_IPV4 then do {
       port \<leftarrow> mem_read (body addr) 4 2;
       ip \<leftarrow> mem_read (body addr) 0 4;
       print (ntop4 ip) port
     }
     else if atype addr = HEV_SOCKS5_ADDR_TYPE_IPV6 then do {
       port \<leftarrow> mem_read (body addr) 16 2;
       ip \<leftarrow> mem_read (body addr) 0 16;
       print (ntop6 ip) port
     }
     else if atype addr = HEV_SOCKS5_ADDR_TYPE_NAME then do {
       n \<leftarrow> mem_get (body addr) 0;
       nm \<leftarrow> mem_read (body addr) 1 (unat n);
       sa \<leftarrow> c_string (nm @ [0]);
       port \<leftarrow> mem_read (body addr) (1 + unat n) 2;
       print sa port
     }
     else Some None
   }"

section \<open>Facts\<close>

text \<open>Creating a socket opens at most the descriptor it returns, and closes it when it fails.\<close>

lemma hev_socks5_socket_cases:
  assumes "hev_socks5_socket ty w = (fd, w')" "fds_ok w"
  obtains (fail) "fd = -1" "w_open w' = w_open w" "fds_ok w'"
  | (new) "0 \<le> fd" "fd \<notin> w_open w" "w_open w' = insert fd (w_open w)" "fds_ok w'"
proof -
  obtain fd1 w1 where s: "sys_socket w = (fd1, w1)" by fastforce
  have res: "fds_ok v \<Longrightarrow> sys_result v = (r, v') \<Longrightarrow> fds_ok v'" for v r v'
    using sys_result_frame [of v r v'] by (simp add: fds_ok_def)
  from s assms(2) show thesis
  proof (cases rule: sys_socket_cases)
    case fail
    with s assms(1) that(1) show thesis by (auto simp: hev_socks5_socket_def Let_def)
  next
    case new
    obtain r2 w2 where r2: "sys_result w1 = (r2, w2)" by fastforce
    obtain r3 w3 where r3: "sys_result w2 = (r3, w3)" by fastforce
    obtain r4 w4 where r4: "sys_result w3 = (r4, w4)" by fastforce
    obtain r5 w5 where r5: "sys_result w4 = (r5, w5)" by fastforce
    note ok2 = res [OF new(4) r2]
    note ok3 = res [OF ok2 r3]
    note ok4 = res [OF ok3 r4]
    note ok5 = res [OF ok4 r5]
    note open' = sys_result_frame(5) [OF r2] sys_result_frame(5) [OF r3]
      sys_result_frame(5) [OF r4] sys_result_frame(5) [OF r5]
    show thesis
    proof (cases "r2 < 0")
      case True
      with s r2 assms(1) new have "fd = -1" "w' = sys_close fd1 w2"
        by (auto simp: hev_socks5_socket_def)
      with new open' ok2 that(1) show thesis by simp
    next
      case False
      with s r2 r3 r4 r5 assms(1) new have "fd = fd1" "w' \<in> {w3, w4, w5}"
        by (auto simp: hev_socks5_socket_def Let_def split: if_splits)
      with new open' ok3 ok4 ok5 that(2) show thesis by auto
    qed
  qed
qed

lemma hev_socks5_socket_frame:
  assumes "hev_socks5_socket ty w = (fd, w')"
  shows "w_rx w' = w_rx w" "w_tx w' = w_tx w" "w_txs w' = w_txs w" "w_junk w' = w_junk w"
    "w_live w' = w_live w"
proof -
  obtain fd1 w1 where s: "sys_socket w = (fd1, w1)" by fastforce
  obtain r2 w2 where r2: "sys_result w1 = (r2, w2)" by fastforce
  obtain r3 w3 where r3: "sys_result w2 = (r3, w3)" by fastforce
  obtain r4 w4 where r4: "sys_result w3 = (r4, w4)" by fastforce
  obtain r5 w5 where r5: "sys_result w4 = (r5, w5)" by fastforce
  have w: "w' \<in> {w1, sys_close fd1 w2, w3, w4, w5}"
    using assms s r2 r3 r4 r5 by (auto simp: hev_socks5_socket_def Let_def split: if_splits)
  have "w_rx w1 = w_rx w \<and> w_tx w1 = w_tx w \<and> w_txs w1 = w_txs w \<and> w_junk w1 = w_junk w
      \<and> w_live w1 = w_live w"
    using s sys_result_frame [of w] by (fastforce simp: sys_socket_def split: prod.splits if_splits)
  with w show "w_rx w' = w_rx w" "w_tx w' = w_tx w" "w_txs w' = w_txs w" "w_junk w' = w_junk w"
    "w_live w' = w_live w"
    using sys_result_frame [OF r2] sys_result_frame [OF r3] sys_result_frame [OF r4]
      sys_result_frame [OF r5] by auto
qed

end
