(* ===== verification/Socks5Client.thy ===== *)
theory Socks5Client
  imports Socks5Base
begin

text \<open>
  The SOCKS5 client of \<open>core/src/hev-socks5-client.c\<close>: connecting to the server and the
  two handshakes (one message at a time, or pipelined). The virtual functions
  \<open>get_upstream_addr\<close>, \<open>set_upstream_addr\<close> and \<open>binder\<close> are arguments; the TCP and
  UDP clients of \<open>hev-socks5-client-tcp.c\<close> and \<open>hev-socks5-client-udp.c\<close> provide them.
  A state-changing function returns its C result with the new object and world.
\<close>

record HevSocks5Client = HevSocks5 +
  auth_user :: "byte list option"
  auth_pass :: "byte list option"

definition hev_socks5_client_write_auth_methods ::
  "'a HevSocks5Client_scheme \<Rightarrow> world \<Rightarrow> int \<times> world" where
  "hev_socks5_client_write_auth_methods self w =
     (let m = (if auth_user self = None \<or> auth_pass self = None
               then HEV_SOCKS5_AUTH_METHOD_NONE else HEV_SOCKS5_AUTH_METHOD_USER);
          (res, w) = hev_task_io_socket_send [HEV_SOCKS5_VERSION_5, 1, m] True False w
      in (if res \<le> 0 then -1 else 0, w))"

definition hev_socks5_client_write_auth_creds ::
  "'a HevSocks5Client_scheme \<Rightarrow> world \<Rightarrow> int \<times> world" where
  "hev_socks5_client_write_auth_creds self w =
     (case (auth_user self, auth_pass self) of
        (Some user, Some pass) \<Rightarrow>
          (let ub1 = (word_of_nat (length user) :: byte);
               ub2 = (word_of_nat (length pass) :: byte);
               iov = [[HEV_SOCKS5_AUTH_VERSION_1, ub1], take (unat ub1) user, [ub2],
                      take (unat ub2) pass];
               (res, w) = hev_task_io_socket_sendmsg iov True False w
           in (if res \<le> 0 then -1 else 0, w))
      | _ \<Rightarrow> (0, w))"

definition hev_socks5_client_write_request ::
  "('a HevSocks5Client_scheme \<Rightarrow> world \<Rightarrow> HevSocks5Addr option \<times> 'a HevSocks5Client_scheme \<times> world) \<Rightarrow>
   'a HevSocks5Client_scheme \<Rightarrow> world \<Rightarrow> (int \<times> 'a HevSocks5Client_scheme \<times> world) option" where
  "hev_socks5_client_write_request get_upstream_addr self w = do {
     let cmd = (case sk_type self of
         HEV_SOCKS5_TYPE_TCP \<Rightarrow> Some HEV_SOCKS5_REQ_CMD_CONNECT
       | HEV_SOCKS5_TYPE_UDP_IN_TCP \<Rightarrow> Some HEV_SOCKS5_REQ_CMD_FWD_UDP
       | HEV_SOCKS5_TYPE_UDP_IN_UDP \<Rightarrow> Some HEV_SOCKS5_REQ_CMD_UDP_ASC
       | HEV_SOCKS5_TYPE_NONE \<Rightarrow> None);
     case cmd of
       None \<Rightarrow> Some (-1, self, w)
     | Some cmd \<Rightarrow> do {
         let (addr, self, w) = get_upstream_addr self w;
         addr \<leftarrow> addr;
         addrlen \<leftarrow>
           (if atype addr = HEV_SOCKS5_ADDR_TYPE_IPV4 then Some (Some 7)
            else if atype addr = HEV_SOCKS5_ADDR_TYPE_IPV6 then Some (Some 19)
            else if atype addr = HEV_SOCKS5_ADDR_TYPE_NAME
            then do { l \<leftarrow> mem_get (body addr) 0; Some (Some (4 + unat l)) }
            else Some None);
         case addrlen of
           None \<Rightarrow> Some (-1, self, w)
         | Some addrlen \<Rightarrow> do {
             bs \<leftarrow> mem_read (addr_bytes addr) 0 addrlen;
             let (ret, w) = hev_task_io_socket_sendmsg
               [[HEV_SOCKS5_VERSION_5, cmd, 0], bs] True False w;
             if ret \<le> 0 then Some (-1, self, w)
             else Some (0, self, sys_free w)
           }
       }
   }"

definition hev_socks5_client_read_auth_method ::
  "'a HevSocks5Client_scheme \<Rightarrow> world \<Rightarrow> int \<times> world" where
  "hev_socks5_client_read_auth_method self w =
     (let (res, bs, w) = hev_task_io_socket_recv 2 True False w
      in if res \<noteq> 2 then (-1, w)
         else if bs ! 0 \<noteq> HEV_SOCKS5_VERSION_5 then (-1, w)
         else (uint (bs ! 1), w))"

definition hev_socks5_client_read_auth_creds ::
  "'a HevSocks5Client_scheme \<Rightarrow> world \<Rightarrow> int \<times> world" where
  "hev_socks5_client_read_auth_creds self w =
     (let (ret, bs, w) = hev_task_io_socket_recv 2 True False w
      in if ret \<noteq> 2 then (-1, w)
         else if bs ! 0 \<noteq> HEV_SOCKS5_AUTH_VERSION_1 then (-1, w)
         else if bs ! 1 \<noteq> HEV_SOCKS5_RES_REP_SUCC then (-1, w)
         else (0, w))"

text \<open>The rest of \<open>res.addr\<close> keeps the indeterminate bytes of the stack.\<close>

definition hev_socks5_client_read_response ::
  "('a HevSocks5Client_scheme \<Rightarrow> HevSocks5Addr \<Rightarrow> world \<Rightarrow>
      (int \<times> 'a HevSocks5Client_scheme \<times> world) option) \<Rightarrow>
   'a HevSocks5Client_scheme \<Rightarrow> world \<Rightarrow> (int \<times> 'a HevSocks5Client_scheme \<times> world) option" where
  "hev_socks5_client_read_response set_upstream_addr self w =
     (let (ret, bs, w) = hev_task_io_socket_recv 4 True False w
      in if ret \<noteq> 4 then Some (-1, self, w)
         else if bs ! 0 \<noteq> HEV_SOCKS5_VERSION_5 then Some (-1, self, w)
         else if bs ! 1 \<noteq> HEV_SOCKS5_RES_REP_SUCC then Some (-1, self, w)
         else
           let addrlen = (if bs ! 3 = HEV_SOCKS5_ADDR_TYPE_IPV4 then 6
                          else if bs ! 3 = HEV_SOCKS5_ADDR_TYPE_IPV6 then 18 else (0::nat))
           in if addrlen = 0 then Some (-1, self, w)
              else
                let (ret, ab, w) = hev_task_io_socket_recv addrlen True False w
                in if ret \<noteq> int addrlen then Some (-1, self, w)
                   else do {
                     b \<leftarrow> mem_write (w_junk w) 0 ab;
                     (ret, self, w) \<leftarrow> set_upstream_addr self \<lparr>atype = bs ! 3, body = b\<rparr> w;
                     Some (if ret < 0 then -1 else 0, self, w)
                   })"

definition hev_socks5_client_connect ::
  "socks5_settings \<Rightarrow> resolver \<Rightarrow>
   ('a HevSocks5Client_scheme \<Rightarrow> int \<Rightarrow> sockaddr_in6 \<Rightarrow> world \<Rightarrow> int \<times> world) \<Rightarrow>
   'a HevSocks5Client_scheme \<Rightarrow> byte list \<Rightarrow> int \<Rightarrow> world \<Rightarrow>
   (int \<times> 'a HevSocks5Client_scheme \<times> world) option" where
  "hev_socks5_client_connect cfg rs binder self addr port w = do {
     let self = hev_socks5_set_timeout self (hev_socks5_get_connect_timeout cfg);
     let addr_family = hev_socks5_get_addr_family self;
     let saddr = \<lparr>sin6_family = 0, sin6_port = 0, sin6_addr = take 16 (w_junk w)\<rparr>;
     (res, saddr, addr_family) \<leftarrow> hev_socks5_name_into_sockaddr6 rs addr port saddr addr_family;
     if res < 0 then Some (-1, self, w)
     else do {
       let (fd, w) = hev_socks5_socket SOCK_STREAM w;
       if fd < 0 then Some (-1, self, w)
       else do {
         let (res, w) = binder self fd saddr w;
         if res < 0 then Some (-1, self, sys_close fd w)
         else do {
           let (res, w) = sys_result w;
           if res < 0 then Some (-1, self, sys_close fd w)
           else do {
             let self = self\<lparr>sk_fd := fd\<rparr>;
             let self = hev_socks5_set_addr_family self addr_family;
             Some (0, self, w)
           }
         }
       }
     }
   }"

definition hev_socks5_client_handshake_standard ::
  "('a HevSocks5Client_scheme \<Rightarrow> world \<Rightarrow> HevSocks5Addr option \<times> 'a HevSocks5Client_scheme \<times> world) \<Rightarrow>
   ('a HevSocks5Client_scheme \<Rightarrow> HevSocks5Addr \<Rightarrow> world \<Rightarrow>
      (int \<times> 'a HevSocks5Client_scheme \<times> world) option) \<Rightarrow>
   'a HevSocks5Client_scheme \<Rightarrow> world \<Rightarrow> (int \<times> 'a HevSocks5Client_scheme \<times> world) option" where
  "hev_socks5_client_handshake_standard get_upstream_addr set_upstream_addr self w = do {
     let (res, w) = hev_socks5_client_write_auth_methods self w;
     if res < 0 then Some (-1, self, w) else do {
     let (res, w) = hev_socks5_client_read_auth_method self w;
     if res < 0 then Some (-1, self, w) else do {
     (res, w) \<leftarrow>
       (if res = uint HEV_SOCKS5_AUTH_METHOD_USER then do {
          let (res, w) = hev_socks5_client_write_auth_creds self w;
          if res < 0 then Some (-1, w)
          else do {
            let (res, w) = hev_socks5_client_read_auth_creds self w;
            Some (if res < 0 then -1 else 0, w)
          }
        }
        else if res \<noteq> uint HEV_SOCKS5_AUTH_METHOD_NONE then Some (-1 :: int, w)
        else Some (0, w));
     if res < 0 then Some (-1, self, w) else do {
     (res, self, w) \<leftarrow> hev_socks5_client_write_request get_upstream_addr self w;
     if res < 0 then Some (-1, self, w) else do {
     (res, self, w) \<leftarrow> hev_socks5_client_read_response set_upstream_addr self w;
     Some (if res < 0 then -1 else 0, self, w)
   }}}}}"

definition hev_socks5_client_handshake_pipeline ::
  "('a HevSocks5Client_scheme \<Rightarrow> world \<Rightarrow> HevSocks5Addr option \<times> 'a HevSocks5Client_scheme \<times> world) \<Rightarrow>
   ('a HevSocks5Client_scheme \<Rightarrow> HevSocks5Addr \<Rightarrow> world \<Rightarrow>
      (int \<times> 'a HevSocks5Client_scheme \<times> world) option) \<Rightarrow>
   'a HevSocks5Client_scheme \<Rightarrow> world \<Rightarrow> (int \<times> 'a HevSocks5Client_scheme \<times> world) option" where
  "hev_socks5_client_handshake_pipeline get_upstream_addr set_upstream_addr self w = do {
     let (res, w) = hev_socks5_client_write_auth_methods self w;
     if res < 0 then Some (-1, self, w) else do {
     let (res, w) = hev_socks5_client_write_auth_creds self w;
     if res < 0 then Some (-1, self, w) else do {
     (res, self, w) \<leftarrow> hev_socks5_client_write_request get_upstream_addr self w;
     if res < 0 then Some (-1, self, w) else do {
     let (res, w) = hev_socks5_client_read_auth_method self w;
     if res < 0 then Some (-1, self, w) else do {
     (res, w) \<leftarrow>
       (if res = uint HEV_SOCKS5_AUTH_METHOD_USER then do {
          let (res, w) = hev_socks5_client_read_auth_creds self w;
          Some (if res < 0 then -1 else 0, w)
        }
        else if res \<noteq> uint HEV_SOCKS5_AUTH_METHOD_NONE then Some (-1 :: int, w)
        else Some (0, w));
     if res < 0 then Some (-1, self, w) else do {
     (res, self, w) \<leftarrow> hev_socks5_client_read_response set_upstream_addr self w;
     Some (if res < 0 then -1 else 0, self, w)
   }}}}}}"

definition hev_socks5_client_handshake ::
  "socks5_settings \<Rightarrow>
   ('a HevSocks5Client_scheme \<Rightarrow> world \<Rightarrow> HevSocks5Addr option \<times> 'a HevSocks5Client_scheme \<times> world) \<Rightarrow>
   ('a HevSocks5Client_scheme \<Rightarrow> HevSocks5Addr \<Rightarrow> world \<Rightarrow>
      (int \<times> 'a HevSocks5Client_scheme \<times> world) option) \<Rightarrow>
   'a HevSocks5Client_scheme \<Rightarrow> bool \<Rightarrow> world \<Rightarrow> (int \<times> 'a HevSocks5Client_scheme \<times> world) option" where
  "hev_socks5_client_handshake cfg get_upstream_addr set_upstream_addr self pipeline w = do {
     let self = hev_socks5_set_timeout self (hev_socks5_get_tcp_timeout cfg);
     (res, self, w) \<leftarrow>
       (if pipeline
        then hev_socks5_client_handshake_pipeline get_upstream_addr set_upstream_addr self w
        else hev_socks5_client_handshake_standard get_upstream_addr set_upstream_addr self w);
     let self = (case sk_type self of
         HEV_SOCKS5_TYPE_UDP_IN_TCP \<Rightarrow>
           hev_socks5_set_timeout self (hev_socks5_get_udp_timeout cfg)
       | HEV_SOCKS5_TYPE_UDP_IN_UDP \<Rightarrow>
           hev_socks5_set_timeout self (hev_socks5_get_udp_timeout cfg)
       | _ \<Rightarrow> self);
     Some (res, self, w)
   }"

definition hev_socks5_client_set_auth ::
  "'a HevSocks5Client_scheme \<Rightarrow> byte list option \<Rightarrow> byte list option \<Rightarrow> 'a HevSocks5Client_scheme"
where
  "hev_socks5_client_set_auth self user pass = self\<lparr>auth_user := user, auth_pass := pass\<rparr>"

definition hev_socks5_client_construct ::
  "'a HevSocks5Client_scheme \<Rightarrow> HevSocks5Type \<Rightarrow> 'a HevSocks5Client_scheme" where
  "hev_socks5_client_construct self ty = hev_socks5_construct self ty"

definition hev_socks5_client_destruct :: "'a HevSocks5Client_scheme \<Rightarrow> world \<Rightarrow> world" where
  "hev_socks5_client_destruct self w = hev_socks5_destruct self w"

section \<open>The TCP client\<close>

record HevSocks5ClientTCP = HevSocks5Client +
  ctcp_addr :: "HevSocks5Addr option"

definition hev_socks5_client_tcp_get_upstream_addr ::
  "'a HevSocks5ClientTCP_scheme \<Rightarrow> world \<Rightarrow>
   HevSocks5Addr option \<times> 'a HevSocks5ClientTCP_scheme \<times> world" where
  "hev_socks5_client_tcp_get_upstream_addr self w =
     (ctcp_addr self, self\<lparr>ctcp_addr := None\<rparr>, w)"

definition hev_socks5_client_tcp_set_upstream_addr ::
  "'a HevSocks5ClientTCP_scheme \<Rightarrow> HevSocks5Addr \<Rightarrow> world \<Rightarrow>
   (int \<times> 'a HevSocks5ClientTCP_scheme \<times> world) option" where
  "hev_socks5_client_tcp_set_upstream_addr self addr w = Some (0, self, w)"

text \<open>A negative length is an allocation request that \<open>size_t\<close> makes huge: it fails.\<close>

definition hev_socks5_client_tcp_construct ::
  "'a HevSocks5ClientTCP_scheme \<Rightarrow> HevSocks5Addr \<Rightarrow> world \<Rightarrow>
   (int \<times> 'a HevSocks5ClientTCP_scheme \<times> world) option" where
  "hev_socks5_client_tcp_construct self addr w = do {
     let self = hev_socks5_client_construct self HEV_SOCKS5_TYPE_TCP;
     res \<leftarrow> hev_socks5_addr_len addr;
     let (got, w) = (if res < 0 then (False, w) else sys_malloc w);
     if \<not> got then Some (-1, self\<lparr>ctcp_addr := None\<rparr>, w)
     else do {
       bs \<leftarrow> mem_read (addr_bytes addr) 0 (nat res);
       Some (0, self\<lparr>ctcp_addr := Some \<lparr>atype = hd bs, body = tl bs\<rparr>\<rparr>, w)
     }
   }"

definition hev_socks5_client_tcp_destruct :: "'a HevSocks5ClientTCP_scheme \<Rightarrow> world \<Rightarrow> world"
where
  "hev_socks5_client_tcp_destruct self w =
     (let w = (if ctcp_addr self \<noteq> None then sys_free w else w)
      in hev_socks5_client_destruct self w)"

text \<open>The three \<open>_new_\<close> functions allocate a zeroed object and an address on the stack.\<close>

definition HevSocks5ClientTCP_zero :: HevSocks5ClientTCP where
  "HevSocks5ClientTCP_zero =
     \<lparr>sk_fd = 0, sk_timeout = 0, sk_udp_associated = False, sk_type = HEV_SOCKS5_TYPE_NONE,
      sk_addr_family = 0, auth_user = None, auth_pass = None, ctcp_addr = None\<rparr>"

definition client_tcp_new_with ::
  "(HevSocks5Addr \<Rightarrow> (int \<times> HevSocks5Addr) option) \<Rightarrow> world \<Rightarrow>
   (HevSocks5ClientTCP option \<times> world) option" where
  "client_tcp_new_with mk w = do {
     let (got, w) = sys_malloc w;
     if \<not> got then Some (None, w)
     else do {
       (_, addr) \<leftarrow> mk \<lparr>atype = 0, body = w_junk w\<rparr>;
       (res, self, w) \<leftarrow> hev_socks5_client_tcp_construct HevSocks5ClientTCP_zero addr w;
       if res < 0 then Some (None, sys_free w) else Some (Some self, w)
     }
   }"

definition hev_socks5_client_tcp_new_name where
  "hev_socks5_client_tcp_new_name name port =
     client_tcp_new_with (\<lambda>a. hev_socks5_addr_from_name a name port)"

definition hev_socks5_client_tcp_new_ipv4 where
  "hev_socks5_client_tcp_new_ipv4 ipv4 port =
     client_tcp_new_with (\<lambda>a. hev_socks5_addr_from_ipv4 a ipv4 port)"

definition hev_socks5_client_tcp_new_ipv6 where
  "hev_socks5_client_tcp_new_ipv6 ipv6 port =
     client_tcp_new_with (\<lambda>a. hev_socks5_addr_from_ipv6 a ipv6 port)"

section \<open>The UDP client\<close>

record HevSocks5ClientUDP = HevSocks5Client +
  cudp_fd :: int

definition hev_socks5_client_udp_get_upstream_addr ::
  "'a HevSocks5ClientUDP_scheme \<Rightarrow> world \<Rightarrow>
   HevSocks5Addr option \<times> 'a HevSocks5ClientUDP_scheme \<times> world" where
  "hev_socks5_client_udp_get_upstream_addr self w =
     (let family = hev_socks5_get_addr_family self in
      if family = HEV_SOCKS5_ADDR_FAMILY_IPV4 then
        let (got, w) = sys_malloc w
        in (if got then Some \<lparr>atype = HEV_SOCKS5_ADDR_TYPE_IPV4, body = replicate 6 0\<rparr> else None,
            self, w)
      else if family = HEV_SOCKS5_ADDR_FAMILY_IPV6 then
        let (got, w) = sys_malloc w
        in (if got then Some \<lparr>atype = HEV_SOCKS5_ADDR_TYPE_IPV6, body = replicate 18 0\<rparr> else None,
            self, w)
      else (None, self, w))"

definition hev_socks5_client_udp_set_upstream_addr ::
  "resolver \<Rightarrow> ('a HevSocks5ClientUDP_scheme \<Rightarrow> int \<Rightarrow> sockaddr_in6 \<Rightarrow> world \<Rightarrow> int \<times> world) \<Rightarrow>
   'a HevSocks5ClientUDP_scheme \<Rightarrow> HevSocks5Addr \<Rightarrow> world \<Rightarrow>
   (int \<times> 'a HevSocks5ClientUDP_scheme \<times> world) option" where
  "hev_socks5_client_udp_set_upstream_addr rs binder self addr w =
     (if sk_type self \<noteq> HEV_SOCKS5_TYPE_UDP_IN_UDP then Some (0, self, w)
      else do {
        let addr_family = hev_socks5_get_addr_family self;
        let saddr = \<lparr>sin6_family = 0, sin6_port = 0, sin6_addr = take 16 (w_junk w)\<rparr>;
        (res, saddr, _) \<leftarrow> hev_socks5_addr_into_sockaddr6 rs addr saddr addr_family;
        if res < 0 then Some (-1, self, w)
        else do {
          let (fd, w) = hev_socks5_socket SOCK_DGRAM w;
          if fd < 0 then Some (-1, self, w)
          else do {
            let (res, w) = binder self fd saddr w;
            if res < 0 then Some (-1, self, sys_close fd w)
            else do {
              let (res, w) = sys_result w;
              if res < 0 then Some (-1, self, sys_close fd w)
              else Some (0, self\<lparr>sk_udp_associated := True, cudp_fd := fd\<rparr>, w)
            }
          }
        }
      })"

definition hev_socks5_client_udp_get_fd :: "'a HevSocks5ClientUDP_scheme \<Rightarrow> int" where
  "hev_socks5_client_udp_get_fd self =
     (case sk_type self of
        HEV_SOCKS5_TYPE_UDP_IN_TCP \<Rightarrow> sk_fd self
      | HEV_SOCKS5_TYPE_UDP_IN_UDP \<Rightarrow> cudp_fd self
      | _ \<Rightarrow> -1)"

definition hev_socks5_client_udp_construct ::
  "'a HevSocks5ClientUDP_scheme \<Rightarrow> HevSocks5Type \<Rightarrow> 'a HevSocks5ClientUDP_scheme" where
  "hev_socks5_client_udp_construct self ty =
     (hev_socks5_client_construct self ty)\<lparr>cudp_fd := -1\<rparr>"

definition hev_socks5_client_udp_destruct :: "'a HevSocks5ClientUDP_scheme \<Rightarrow> world \<Rightarrow> world"
where
  "hev_socks5_client_udp_destruct self w =
     (let w = (if cudp_fd self \<ge> 0 then sys_close (cudp_fd self) w else w)
      in hev_socks5_client_destruct self w)"

definition HevSocks5ClientUDP_zero :: HevSocks5ClientUDP where
  "HevSocks5ClientUDP_zero =
     \<lparr>sk_fd = 0, sk_timeout = 0, sk_udp_associated = False, sk_type = HEV_SOCKS5_TYPE_NONE,
      sk_addr_family = 0, auth_user = None, auth_pass = None, cudp_fd = 0\<rparr>"

definition hev_socks5_client_udp_new ::
  "HevSocks5Type \<Rightarrow> world \<Rightarrow> HevSocks5ClientUDP option \<times> world" where
  "hev_socks5_client_udp_new ty w =
     (let (got, w) = sys_malloc w
      in if \<not> got then (None, w)
         else (Some (hev_socks5_client_udp_construct HevSocks5ClientUDP_zero ty), w))"

end
