(* ===== verification/ClientHandshake.thy ===== *)
theory ClientHandshake
  imports Socks5Client
begin

text \<open>
  The client handshakes against their specification: which bytes the client sends, which
  server replies make a handshake succeed, and that it returns on every reply. The lemmas are
  proved for any client that provides the upstream-address interface, stated as a locale, and
  interpreted on the TCP client and the UDP client.
\<close>

section \<open>Messages\<close>

definition creds_set :: "'a HevSocks5Client_scheme \<Rightarrow> bool" where
  "creds_set self \<longleftrightarrow> auth_user self \<noteq> None \<and> auth_pass self \<noteq> None"

definition msg_methods :: "'a HevSocks5Client_scheme \<Rightarrow> byte list" where
  "msg_methods self = [5, 1, if creds_set self then 2 else 0]"

definition cred_bytes :: "byte list \<Rightarrow> byte list" where
  "cred_bytes s = word_of_nat (length s) # take (unat (word_of_nat (length s) :: byte)) s"

definition msg_creds :: "'a HevSocks5Client_scheme \<Rightarrow> byte list" where
  "msg_creds self =
     (case (auth_user self, auth_pass self) of
        (Some user, Some pass) \<Rightarrow> [1] @ cred_bytes user @ cred_bytes pass
      | _ \<Rightarrow> [])"

definition addr_size :: "HevSocks5Addr \<Rightarrow> nat" where
  "addr_size a =
     (if atype a = 1 then 7 else if atype a = 4 then 19 else 4 + unat (body a ! 0))"

definition addr_valid :: "HevSocks5Addr \<Rightarrow> bool" where
  "addr_valid a \<longleftrightarrow>
     atype a \<in> {1, 3, 4} \<and> body a \<noteq> [] \<and> addr_size a \<le> Suc (length (body a))"

definition addr_wire :: "HevSocks5Addr \<Rightarrow> byte list" where
  "addr_wire a = take (addr_size a) (addr_bytes a)"

definition request_cmd :: "HevSocks5Type \<Rightarrow> byte option" where
  "request_cmd ty =
     (case ty of
        HEV_SOCKS5_TYPE_TCP \<Rightarrow> Some 1
      | HEV_SOCKS5_TYPE_UDP_IN_TCP \<Rightarrow> Some 5
      | HEV_SOCKS5_TYPE_UDP_IN_UDP \<Rightarrow> Some 3
      | HEV_SOCKS5_TYPE_NONE \<Rightarrow> None)"

definition msg_request :: "HevSocks5Type \<Rightarrow> HevSocks5Addr \<Rightarrow> byte list" where
  "msg_request ty a = [5, the (request_cmd ty), 0] @ addr_wire a"

section \<open>Replies\<close>

definition reply_method :: "byte list \<Rightarrow> byte option" where
  "reply_method s = (if 2 \<le> length s \<and> s ! 0 = 5 then Some (s ! 1) else None)"

definition reply_creds :: "byte list \<Rightarrow> bool" where
  "reply_creds s \<longleftrightarrow> 2 \<le> length s \<and> s ! 0 = 1 \<and> s ! 1 = 0"

definition reply_final :: "byte list \<Rightarrow> bool" where
  "reply_final s \<longleftrightarrow> 4 \<le> length s \<and> s ! 0 = 5 \<and> s ! 1 = 0 \<and>
     (s ! 3 = 1 \<and> 10 \<le> length s \<or> s ! 3 = 4 \<and> 22 \<le> length s)"

definition server_reply :: "byte list \<Rightarrow> bool" where
  "server_reply s \<longleftrightarrow>
     (case reply_method s of
        None \<Rightarrow> False
      | Some m \<Rightarrow>
          if m = 2 then reply_creds (drop 2 s) \<and> reply_final (drop 4 s)
          else m = 0 \<and> reply_final (drop 2 s))"

text \<open>What the client sends when it waits for each reply.\<close>

definition standard_sent :: "'a HevSocks5Client_scheme \<Rightarrow> HevSocks5Addr \<Rightarrow> byte list \<Rightarrow> byte list"
where
  "standard_sent self a s =
     msg_methods self @
     (case reply_method s of
        None \<Rightarrow> []
      | Some m \<Rightarrow>
          if m = 2
          then msg_creds self @ (if reply_creds (drop 2 s) then msg_request (sk_type self) a else [])
          else if m = 0 then msg_request (sk_type self) a else [])"

text \<open>What it sends when it does not wait.\<close>

definition pipeline_sent :: "'a HevSocks5Client_scheme \<Rightarrow> HevSocks5Addr \<Rightarrow> byte list" where
  "pipeline_sent self a = msg_methods self @ msg_creds self @ msg_request (sk_type self) a"

section \<open>Single steps\<close>

lemma write_auth_methods_step:
  assumes "tx_reliable w"
  obtains w' where "hev_socks5_client_write_auth_methods self w = (0, w')"
    "w_tx w' = w_tx w @ msg_methods self" "w_rx w' = w_rx w" "tx_reliable w'" "sock_frame w w'"
proof -
  have "msg_methods self \<noteq> []" by (simp add: msg_methods_def)
  from send_step [OF assms this] obtain w' where
    w': "hev_task_io_socket_send (msg_methods self) True False w
      = (int (length (msg_methods self)), w')"
    "w_tx w' = w_tx w @ msg_methods self" "w_rx w' = w_rx w" "tx_reliable w'" "sock_frame w w'" .
  then have "hev_socks5_client_write_auth_methods self w = (0, w')"
    by (auto simp: hev_socks5_client_write_auth_methods_def msg_methods_def creds_set_def
        Let_def split: if_splits)
  with w' that show thesis by blast
qed

lemma write_auth_creds_step:
  assumes "tx_reliable w"
  obtains w' where "hev_socks5_client_write_auth_creds self w = (0, w')"
    "w_tx w' = w_tx w @ msg_creds self" "w_rx w' = w_rx w" "tx_reliable w'" "sock_frame w w'"
proof (cases "creds_set self")
  case False
  with assms show thesis
    by (intro that [of w]) (auto simp: hev_socks5_client_write_auth_creds_def msg_creds_def
        creds_set_def split: option.splits)
next
  case True
  then have ne: "msg_creds self \<noteq> []"
    by (auto simp: msg_creds_def creds_set_def)
  from send_step [OF assms this] obtain w' where
    w': "hev_task_io_socket_send (msg_creds self) True False w
      = (int (length (msg_creds self)), w')"
    "w_tx w' = w_tx w @ msg_creds self" "w_rx w' = w_rx w" "tx_reliable w'" "sock_frame w w'" .
  with True ne have "hev_socks5_client_write_auth_creds self w = (0, w')"
    by (auto simp: hev_socks5_client_write_auth_creds_def msg_creds_def creds_set_def
        cred_bytes_def hev_task_io_socket_sendmsg_def Let_def split: option.splits)
  with w' that show thesis by blast
qed

lemma read_auth_method_step:
  assumes "w_ok w"
  obtains r w' where "hev_socks5_client_read_auth_method self w = (r, w')" "w_ok w'"
    "w_tx w' = w_tx w" "w_txs w' = w_txs w" "sock_frame w w'"
    "case reply_method (w_avail w) of None \<Rightarrow> r = -1
     | Some m \<Rightarrow> r = uint m \<and> w_avail w' = drop 2 (w_avail w)"
proof -
  have two: "(0::nat) < 2" by simp
  from assms two show thesis
  proof (cases rule: recv_step)
    case (full w')
    then show thesis
      by (intro that [of "if w_avail w ! 0 = 5 then uint (w_avail w ! 1) else -1" w'])
        (auto simp: hev_socks5_client_read_auth_method_def reply_method_def)
  next
    case (short res bs w')
    then show thesis
      by (intro that [of "-1" w'])
        (auto simp: hev_socks5_client_read_auth_method_def reply_method_def)
  qed
qed

lemma read_auth_creds_step:
  assumes "w_ok w"
  obtains w' where
    "hev_socks5_client_read_auth_creds self w = (if reply_creds (w_avail w) then 0 else -1, w')"
    "w_ok w'" "w_tx w' = w_tx w" "w_txs w' = w_txs w" "sock_frame w w'"
    "reply_creds (w_avail w) \<Longrightarrow> w_avail w' = drop 2 (w_avail w)"
proof -
  have two: "(0::nat) < 2" by simp
  from assms two show thesis
  proof (cases rule: recv_step)
    case (full w')
    then show thesis
      by (intro that [of w']) (auto simp: hev_socks5_client_read_auth_creds_def reply_creds_def)
  next
    case (short res bs w')
    then show thesis
      by (intro that [of w']) (auto simp: hev_socks5_client_read_auth_creds_def reply_creds_def)
  qed
qed

section \<open>Clients in general\<close>

text \<open>
  What a handshake needs of \<open>get_upstream_addr\<close> and \<open>set_upstream_addr\<close>: a ready client
  gives a valid address (its target) and neither function touches the stream.
  \<open>accepting\<close> clients take every address the server returns.
\<close>

locale upstream_client =
  fixes ready :: "'a HevSocks5Client_scheme \<Rightarrow> world \<Rightarrow> bool"
    and target :: "'a HevSocks5Client_scheme \<Rightarrow> HevSocks5Addr"
    and accepting :: "'a HevSocks5Client_scheme \<Rightarrow> bool"
    and get_up :: "'a HevSocks5Client_scheme \<Rightarrow> world \<Rightarrow>
      HevSocks5Addr option \<times> 'a HevSocks5Client_scheme \<times> world"
    and set_up :: "'a HevSocks5Client_scheme \<Rightarrow> HevSocks5Addr \<Rightarrow> world \<Rightarrow>
      (int \<times> 'a HevSocks5Client_scheme \<times> world) option"
  assumes ready_frame: "sock_frame w w' \<Longrightarrow> ready self w' = ready self w"
    and timeout_laws: "ready (self\<lparr>sk_timeout := t\<rparr>) w = ready self w"
      "target (self\<lparr>sk_timeout := t\<rparr>) = target self"
      "accepting (self\<lparr>sk_timeout := t\<rparr>) = accepting self"
    and target_valid: "ready self w \<Longrightarrow> addr_valid (target self)"
    and get_law: "ready self w \<Longrightarrow> \<exists>self' w'. get_up self w = (Some (target self), self', w') \<and>
      w_rx w' = w_rx w \<and> w_tx w' = w_tx w \<and> w_txs w' = w_txs w \<and> w_junk w' = w_junk w \<and>
      (accepting self \<longrightarrow> accepting self')"
    and set_law: "w_ok w \<Longrightarrow> addr_valid addr \<Longrightarrow> atype addr \<noteq> 3 \<Longrightarrow>
      \<exists>ret self' w'. set_up self addr w = Some (ret, self', w') \<and> w_tx w' = w_tx w \<and>
        (accepting self \<longrightarrow> 0 \<le> ret)"
begin

lemma write_request_step:
  assumes rdy: "ready self w" and tx: "tx_reliable w" and ty: "request_cmd (sk_type self) \<noteq> None"
  obtains self' w' where "hev_socks5_client_write_request get_up self w = Some (0, self', w')"
    "w_tx w' = w_tx w @ msg_request (sk_type self) (target self)" "w_rx w' = w_rx w"
    "tx_reliable w'" "w_junk w' = w_junk w" "accepting self \<Longrightarrow> accepting self'"
proof -
  from get_law [OF rdy] obtain self' w1 where
    g: "get_up self w = (Some (target self), self', w1)" and w1: "w_rx w1 = w_rx w"
      "w_tx w1 = w_tx w" "w_txs w1 = w_txs w" "w_junk w1 = w_junk w"
    and acc: "accepting self \<Longrightarrow> accepting self'" by blast
  let ?a = "target self" and ?c = "the (request_cmd (sk_type self))"
  have v: "addr_valid ?a" by (rule target_valid [OF rdy])
  from tx w1 have tx1: "tx_reliable w1" by (simp add: tx_reliable_def)
  have ne: "msg_request (sk_type self) ?a \<noteq> []" by (simp add: msg_request_def)
  from send_step [OF tx1 ne] obtain w2 where
    s: "hev_task_io_socket_send (msg_request (sk_type self) ?a) True False w1
      = (int (length (msg_request (sk_type self) ?a)), w2)"
    and w2: "w_tx w2 = w_tx w1 @ msg_request (sk_type self) ?a" "w_rx w2 = w_rx w1"
      "tx_reliable w2" "sock_frame w1 w2" .
  have rd: "mem_read (addr_bytes ?a) 0 (addr_size ?a) = Some (addr_wire ?a)"
    using v by (simp add: mem_read_def addr_valid_def addr_wire_def addr_bytes_def)
  have pos: "int (length (msg_request (sk_type self) ?a)) > 0"
    by (simp add: msg_request_def)
  from ty obtain c where c: "request_cmd (sk_type self) = Some c" by blast
  have cmd: "(case sk_type self of
      HEV_SOCKS5_TYPE_TCP \<Rightarrow> Some HEV_SOCKS5_REQ_CMD_CONNECT
    | HEV_SOCKS5_TYPE_UDP_IN_TCP \<Rightarrow> Some HEV_SOCKS5_REQ_CMD_FWD_UDP
    | HEV_SOCKS5_TYPE_UDP_IN_UDP \<Rightarrow> Some HEV_SOCKS5_REQ_CMD_UDP_ASC
    | HEV_SOCKS5_TYPE_NONE \<Rightarrow> None) = Some c"
    using c by (simp add: request_cmd_def split: HevSocks5Type.splits)
  have msg: "msg_request (sk_type self) ?a = [5, c, 0] @ addr_wire ?a"
    using c by (simp add: msg_request_def)
  consider (ipv4) "atype ?a = 1" "addr_size ?a = 7" | (ipv6) "atype ?a = 4" "addr_size ?a = 19"
    | (name) "atype ?a = 3" "mem_get (body ?a) 0 = Some (body ?a ! 0)"
        "addr_size ?a = 4 + unat (body ?a ! 0)"
    using v by (auto simp: addr_valid_def addr_size_def mem_get_def)
  then have "hev_socks5_client_write_request get_up self w =
      (let (ret, w) = hev_task_io_socket_sendmsg [[5, c, 0], addr_wire ?a] True False w1
       in if ret \<le> 0 then Some (-1, self', w) else Some (0, self', sys_free w))"
    unfolding hev_socks5_client_write_request_def Let_def cmd option.case g prod.case
    using rd by cases simp_all
  moreover have "hev_task_io_socket_sendmsg [[5, c, 0], addr_wire ?a] True False w1
      = (int (length (msg_request (sk_type self) ?a)), w2)"
    by (simp only: hev_task_io_socket_sendmsg_def concat.simps append_Nil2 msg [symmetric] s)
  ultimately have "hev_socks5_client_write_request get_up self w = Some (0, self', sys_free w2)"
    using pos by simp
  moreover have "tx_reliable (sys_free w2)" using w2 by (simp add: tx_reliable_def sys_free_def)
  ultimately show thesis
    using w1 w2 acc by (intro that [of self' "sys_free w2"]) (auto simp: sys_free_def sock_frame_def)
qed

lemma set_up_reply:
  assumes ok: "w_ok w" and n: "n = 6 \<and> ty = 1 \<or> n = 18 \<and> ty = 4" and ab: "length ab = n"
  obtains b ret self' w' where "mem_write (w_junk w) 0 ab = Some b"
    "set_up self \<lparr>atype = ty, body = b\<rparr> w = Some (ret, self', w')" "w_tx w' = w_tx w"
    "accepting self \<Longrightarrow> 0 \<le> ret"
proof -
  let ?b = "write_at (w_junk w) 0 ab"
  have j: "length (w_junk w) = 259" using ok by (simp add: w_ok_def)
  have le: "0 + length ab \<le> length (w_junk w)" using n ab j by auto
  have len: "length ?b = 259" using length_write_at [OF le] j by simp
  then have ne: "?b \<noteq> []" by auto
  have "addr_valid \<lparr>atype = ty, body = ?b\<rparr>" "atype \<lparr>atype = ty, body = ?b\<rparr> \<noteq> 3"
    using n len ne by (auto simp add: addr_valid_def addr_size_def)
  from set_law [OF ok this, of self] obtain ret self' w' where
    st: "set_up self \<lparr>atype = ty, body = ?b\<rparr> w = Some (ret, self', w')" "w_tx w' = w_tx w"
    "accepting self \<Longrightarrow> 0 \<le> ret" by blast
  show thesis by (rule that [OF mem_write_Some [OF le] st])
qed

lemma read_response_step:
  assumes ok: "w_ok w"
  obtains r self' w' where "hev_socks5_client_read_response set_up self w = Some (r, self', w')"
    "w_tx w' = w_tx w" "r = 0 \<or> r = -1" "r = 0 \<Longrightarrow> reply_final (w_avail w)"
    "accepting self \<Longrightarrow> reply_final (w_avail w) \<Longrightarrow> r = 0"
proof -
  let ?s = "w_avail w"
  have four: "(0::nat) < 4" by simp
  from ok four show thesis
  proof (cases rule: recv_step)
    case (short res bs w')
    have "hev_socks5_client_read_response set_up self w = Some (-1, self, w')"
      using short(3) by (simp add: hev_socks5_client_read_response_def short(1))
    then show thesis
      using short(5) by (rule that) (use short(2) in \<open>simp_all add: reply_final_def\<close>)
  next
    case (full w1)
    consider (bad) "?s ! 0 \<noteq> 5 \<or> ?s ! 1 \<noteq> 0 \<or> ?s ! 3 \<noteq> 1 \<and> ?s ! 3 \<noteq> 4"
      | (good) n where "?s ! 0 = 5" "?s ! 1 = 0" "n = 6 \<and> ?s ! 3 = 1 \<or> n = (18 :: nat) \<and> ?s ! 3 = 4"
      by blast
    then show thesis
    proof cases
      case bad
      then have "hev_socks5_client_read_response set_up self w = Some (-1, self, w1)"
        by (simp add: hev_socks5_client_read_response_def full(1))
      then show thesis
        using full(5) by (rule that) (use bad in \<open>auto simp: reply_final_def\<close>)
    next
      case good
      then have eq: "hev_socks5_client_read_response set_up self w =
          (let (ret, ab, w) = hev_task_io_socket_recv n True False w1
           in if ret \<noteq> int n then Some (-1, self, w)
              else do {
                b \<leftarrow> mem_write (w_junk w) 0 ab;
                (ret, self, w) \<leftarrow> set_up self \<lparr>atype = take 4 ?s ! 3, body = b\<rparr> w;
                Some (if ret < 0 then -1 else 0, self, w)
              })"
        by (elim disjE) (simp_all add: hev_socks5_client_read_response_def full(1))
      have n: "0 < n" using good(3) by auto
      have len: "reply_final ?s \<longleftrightarrow> 4 + n \<le> length ?s"
        using good by (auto simp: reply_final_def)
      from full(4) n show thesis
      proof (cases rule: recv_step)
        case (short res bs w')
        have a: "hev_socks5_client_read_response set_up self w = Some (-1, self, w')"
          unfolding eq short(1) Let_def prod.case using short(3) by simp
        have b: "w_tx w' = w_tx w" using full(5) short(5) by simp
        have "\<not> reply_final ?s" using short(2) full(3) len by simp
        then show thesis by (intro that [OF a b]) simp_all
      next
        case f2: (full w2)
        have "length (take n (w_avail w1)) = n" using f2(2) by simp
        from set_up_reply [OF f2(4) good(3) this] obtain b ret self' w3 where
          st: "mem_write (w_junk w2) 0 (take n (w_avail w1)) = Some b"
            "set_up self \<lparr>atype = ?s ! 3, body = b\<rparr> w2 = Some (ret, self', w3)"
            "w_tx w3 = w_tx w2" "accepting self \<Longrightarrow> 0 \<le> ret"
          by metis
        have t: "take 4 ?s ! 3 = ?s ! 3" by simp
        have "hev_socks5_client_read_response set_up self w
            = Some (if ret < 0 then -1 else 0, self', w3)"
          unfolding eq f2(1) Let_def prod.case t by (simp add: st(1,2))
        moreover have "w_tx w3 = w_tx w" using full(5) f2(5) st(3) by simp
        moreover have "reply_final ?s" using f2(2) full(2,3) len by simp
        ultimately show thesis
          using st(4) by (intro that [of "if ret < 0 then -1 else 0" self' w3]) simp_all
      qed
    qed
  qed
qed

lemma handshake_standard_result:
  assumes rdy: "ready self w" and ok: "w_ok w" and tx: "tx_reliable w"
    and ty: "request_cmd (sk_type self) \<noteq> None"
  obtains (res) r self' w' where
    "hev_socks5_client_handshake_standard get_up set_up self w = Some (r, self', w')"
    "w_tx w' = w_tx w @ standard_sent self (target self) (w_avail w)" "r = 0 \<or> r = -1"
    "r = 0 \<Longrightarrow> server_reply (w_avail w)" "accepting self \<Longrightarrow> server_reply (w_avail w) \<Longrightarrow> r = 0"
proof -
  let ?hs = "hev_socks5_client_handshake_standard get_up set_up self w" and ?s = "w_avail w"
  note def = hev_socks5_client_handshake_standard_def
  from write_auth_methods_step [OF tx, of self] obtain w1 where
    m1: "hev_socks5_client_write_auth_methods self w = (0, w1)" and
    w1: "w_tx w1 = w_tx w @ msg_methods self" "w_rx w1 = w_rx w" "tx_reliable w1" "sock_frame w w1" .
  have ok1: "w_ok w1" and av1: "w_avail w1 = ?s"
    using w1 ok by (simp_all add: w_ok_def sock_frame_def w_avail_def)
  from read_auth_method_step [OF ok1, of self] obtain m w2 where
    m2: "hev_socks5_client_read_auth_method self w1 = (m, w2)" and
    w2: "w_ok w2" "w_tx w2 = w_tx w1" "w_txs w2 = w_txs w1" "sock_frame w1 w2" and
    m: "case reply_method ?s of None \<Rightarrow> m = -1
      | Some x \<Rightarrow> m = uint x \<and> w_avail w2 = drop 2 ?s"
    unfolding av1 by metis
  have tx2: "tx_reliable w2" using w1(3) w2(3) by (simp add: tx_reliable_def)
  have fr2: "sock_frame w w2" by (rule sock_frame_trans [OF w1(4) w2(4)])
  have finish: thesis
    if w: "w_ok v" "w_avail v = rest" "tx_reliable v" "sock_frame w v"
      and eq: "?hs = do {
        (res, self, w) \<leftarrow> hev_socks5_client_write_request get_up self v;
        if res < 0 then Some (-1, self, w) else do {
        (res, self, w) \<leftarrow> hev_socks5_client_read_response set_up self w;
        Some (if res < 0 then -1 else 0, self, w) }}"
      and sent: "w_tx w @ standard_sent self (target self) ?s
        = w_tx v @ msg_request (sk_type self) (target self)"
      and rest: "server_reply ?s = reply_final rest" for v rest
  proof -
    have "ready self v" using ready_frame [OF w(4)] rdy by blast
    from write_request_step [OF this w(3) ty] obtain self' w3 where
      wr: "hev_socks5_client_write_request get_up self v = Some (0, self', w3)"
        "w_tx w3 = w_tx v @ msg_request (sk_type self) (target self)" "w_rx w3 = w_rx v"
        "tx_reliable w3" "w_junk w3 = w_junk v" "accepting self \<Longrightarrow> accepting self'"
      by blast
    have "w_ok w3" "w_avail w3 = rest" using wr w by (simp_all add: w_ok_def w_avail_def)
    from read_response_step [OF this(1), of self', unfolded this(2)] obtain r self'' w4 where
      rr: "hev_socks5_client_read_response set_up self' w3 = Some (r, self'', w4)"
        "w_tx w4 = w_tx w3" "r = 0 \<or> r = -1" "r = 0 \<Longrightarrow> reply_final rest"
        "accepting self' \<Longrightarrow> reply_final rest \<Longrightarrow> r = 0"
      by blast
    have "?hs = Some (r, self'', w4)" using rr(3) by (auto simp: eq wr(1) rr(1))
    then show thesis
      by (rule res) (use rr wr rest sent in auto)
  qed
  have failed: thesis if "?hs = Some (-1, self, v)" "\<not> server_reply ?s"
    "w_tx v = w_tx w @ standard_sent self (target self) ?s" for v
    by (rule res [OF that(1,3)]) (use that(2) in simp_all)
  show thesis
  proof (cases "reply_method ?s")
    case None
    with m have "?hs = Some (-1, self, w2)" by (simp add: def m1 m2)
    then show thesis
      by (rule failed) (use None w1 w2 in \<open>simp_all add: server_reply_def standard_sent_def\<close>)
  next
    case (Some x)
    with m have mx: "m = uint x" and rest2: "w_avail w2 = drop 2 ?s" by simp_all
    have x2: "m = 2 \<longleftrightarrow> x = 2" and x0: "m = 0 \<longleftrightarrow> x = 0" and pos: "\<not> m < 0"
      unfolding mx by (simp_all add: word_uint_eq_iff)
    consider "x = 0" | "x = 2" | "x \<noteq> 0" "x \<noteq> 2" by blast
    then show thesis
    proof cases
      case 1
      show thesis
        by (rule finish [OF w2(1) rest2 tx2 fr2])
          (use 1 x0 x2 pos Some w1 w2 in
            \<open>simp_all add: def m1 m2 server_reply_def standard_sent_def\<close>)
    next
      case 3
      then have "?hs = Some (-1, self, w2)" using x0 x2 pos by (simp add: def m1 m2)
      then show thesis
        by (rule failed) (use Some 3 w1 w2 in \<open>simp_all add: server_reply_def standard_sent_def\<close>)
    next
      case 2
      from write_auth_creds_step [OF tx2, of self] obtain w3 where
        m3: "hev_socks5_client_write_auth_creds self w2 = (0, w3)" and
        w3: "w_tx w3 = w_tx w2 @ msg_creds self" "w_rx w3 = w_rx w2" "tx_reliable w3"
          "sock_frame w2 w3" .
      have ok3: "w_ok w3" and av3: "w_avail w3 = drop 2 ?s"
        using w3 w2(1) rest2 by (simp_all add: w_ok_def sock_frame_def w_avail_def)
      from read_auth_creds_step [OF ok3, of self, unfolded av3] obtain w4 where
        m4: "hev_socks5_client_read_auth_creds self w3
          = (if reply_creds (drop 2 ?s) then 0 else -1, w4)" and
        w4: "w_ok w4" "w_tx w4 = w_tx w3" "w_txs w4 = w_txs w3" "sock_frame w3 w4"
          "reply_creds (drop 2 ?s) \<Longrightarrow> w_avail w4 = drop 2 (drop 2 ?s)"
        by blast
      have tx4: "tx_reliable w4" using w3(3) w4(3) by (simp add: tx_reliable_def)
      have fr4: "sock_frame w w4"
        by (rule sock_frame_trans [OF fr2 sock_frame_trans [OF w3(4) w4(4)]])
      show thesis
      proof (cases "reply_creds (drop 2 ?s)")
        case True
        show thesis
          by (rule finish [OF w4(1) w4(5) [OF True] tx4 fr4])
            (use 2 x0 x2 pos Some True w1 w2 w3 w4 in
              \<open>simp_all add: def m1 m2 m3 m4 server_reply_def standard_sent_def\<close>)
      next
        case False
        then have "?hs = Some (-1, self, w4)" using 2 x0 x2 pos by (simp add: def m1 m2 m3 m4)
        then show thesis
          by (rule failed)
            (use Some False 2 w1 w2 w3 w4 in \<open>simp_all add: server_reply_def standard_sent_def\<close>)
      qed
    qed
  qed
qed

lemma handshake_pipeline_result:
  assumes rdy: "ready self w" and ok: "w_ok w" and tx: "tx_reliable w"
    and ty: "request_cmd (sk_type self) \<noteq> None"
  obtains (res) r self' w' where
    "hev_socks5_client_handshake_pipeline get_up set_up self w = Some (r, self', w')"
    "w_tx w' = w_tx w @ pipeline_sent self (target self)" "r = 0 \<or> r = -1"
    "r = 0 \<Longrightarrow> server_reply (w_avail w)" "accepting self \<Longrightarrow> server_reply (w_avail w) \<Longrightarrow> r = 0"
proof -
  let ?hs = "hev_socks5_client_handshake_pipeline get_up set_up self w" and ?s = "w_avail w"
  note def = hev_socks5_client_handshake_pipeline_def
  from write_auth_methods_step [OF tx, of self] obtain w1 where
    m1: "hev_socks5_client_write_auth_methods self w = (0, w1)" and
    w1: "w_tx w1 = w_tx w @ msg_methods self" "w_rx w1 = w_rx w" "tx_reliable w1" "sock_frame w w1" .
  from write_auth_creds_step [OF w1(3), of self] obtain w2 where
    m2: "hev_socks5_client_write_auth_creds self w1 = (0, w2)" and
    w2: "w_tx w2 = w_tx w1 @ msg_creds self" "w_rx w2 = w_rx w1" "tx_reliable w2" "sock_frame w1 w2" .
  have "ready self w2" using ready_frame [OF sock_frame_trans [OF w1(4) w2(4)]] rdy by blast
  from write_request_step [OF this w2(3) ty] obtain self' w3 where
    m3: "hev_socks5_client_write_request get_up self w2 = Some (0, self', w3)" and
    w3: "w_tx w3 = w_tx w2 @ msg_request (sk_type self) (target self)" "w_rx w3 = w_rx w2"
      "tx_reliable w3" "w_junk w3 = w_junk w2" and acc: "accepting self \<Longrightarrow> accepting self'"
    by blast
  have ok3: "w_ok w3" and av3: "w_avail w3 = ?s"
    using w1 w2 w3 ok by (simp_all add: w_ok_def sock_frame_def w_avail_def)
  have tx3: "w_tx w3 = w_tx w @ pipeline_sent self (target self)"
    using w1 w2 w3 by (simp add: pipeline_sent_def)
  from read_auth_method_step [OF ok3, of self'] obtain m w4 where
    m4: "hev_socks5_client_read_auth_method self' w3 = (m, w4)" and
    w4: "w_ok w4" "w_tx w4 = w_tx w3" "w_txs w4 = w_txs w3" "sock_frame w3 w4" and
    m: "case reply_method ?s of None \<Rightarrow> m = -1
      | Some x \<Rightarrow> m = uint x \<and> w_avail w4 = drop 2 ?s"
    unfolding av3 by metis
  have finish: thesis
    if w: "w_ok v" "w_avail v = rest" "w_tx v = w_tx w3"
      and eq: "?hs = do {
        (res, self, w) \<leftarrow> hev_socks5_client_read_response set_up self' v;
        Some (if res < 0 then -1 else 0, self, w) }"
      and rest: "server_reply ?s = reply_final rest" for v rest
  proof -
    from read_response_step [OF w(1), of self', unfolded w(2)] obtain r self'' w5 where
      rr: "hev_socks5_client_read_response set_up self' v = Some (r, self'', w5)"
        "w_tx w5 = w_tx v" "r = 0 \<or> r = -1" "r = 0 \<Longrightarrow> reply_final rest"
        "accepting self' \<Longrightarrow> reply_final rest \<Longrightarrow> r = 0"
      by blast
    have "?hs = Some (r, self'', w5)" using rr(3) by (auto simp: eq rr(1))
    then show thesis
      by (rule res) (use rr tx3 rest w(3) acc in auto)
  qed
  have failed: thesis if "?hs = Some (-1, self', v)" "\<not> server_reply ?s" "w_tx v = w_tx w3" for v
    by (rule res [OF that(1)]) (use that(2,3) tx3 in simp_all)
  show thesis
  proof (cases "reply_method ?s")
    case None
    with m have "?hs = Some (-1, self', w4)" by (simp add: def m1 m2 m3 m4)
    then show thesis by (rule failed) (use None w4 in \<open>simp_all add: server_reply_def\<close>)
  next
    case (Some x)
    with m have mx: "m = uint x" and rest4: "w_avail w4 = drop 2 ?s" by simp_all
    have x2: "m = 2 \<longleftrightarrow> x = 2" and x0: "m = 0 \<longleftrightarrow> x = 0" and pos: "\<not> m < 0"
      unfolding mx by (simp_all add: word_uint_eq_iff)
    consider "x = 0" | "x = 2" | "x \<noteq> 0" "x \<noteq> 2" by blast
    then show thesis
    proof cases
      case 1
      show thesis
        by (rule finish [OF w4(1) rest4 w4(2)])
          (use 1 x0 x2 pos Some in \<open>simp_all add: def m1 m2 m3 m4 server_reply_def\<close>)
    next
      case 3
      then have "?hs = Some (-1, self', w4)" using x0 x2 pos by (simp add: def m1 m2 m3 m4)
      then show thesis by (rule failed) (use Some 3 w4 in \<open>simp_all add: server_reply_def\<close>)
    next
      case 2
      from read_auth_creds_step [OF w4(1), of self', unfolded rest4] obtain w5 where
        m5: "hev_socks5_client_read_auth_creds self' w4
          = (if reply_creds (drop 2 ?s) then 0 else -1, w5)" and
        w5: "w_ok w5" "w_tx w5 = w_tx w4" "w_txs w5 = w_txs w4" "sock_frame w4 w5"
          "reply_creds (drop 2 ?s) \<Longrightarrow> w_avail w5 = drop 2 (drop 2 ?s)"
        by blast
      have tx5: "w_tx w5 = w_tx w3" using w4(2) w5(2) by simp
      show thesis
      proof (cases "reply_creds (drop 2 ?s)")
        case True
        show thesis
          by (rule finish [OF w5(1) w5(5) [OF True] tx5])
            (use 2 x0 x2 pos Some True in \<open>simp_all add: def m1 m2 m3 m4 m5 server_reply_def\<close>)
      next
        case False
        then have "?hs = Some (-1, self', w5)" using 2 x0 x2 pos by (simp add: def m1 m2 m3 m4 m5)
        then show thesis
          by (rule failed) (use Some False 2 tx5 in \<open>simp_all add: server_reply_def\<close>)
      qed
    qed
  qed
qed

lemma handshake_result:
  assumes "ready self w" "w_ok w" "tx_reliable w" "request_cmd (sk_type self) \<noteq> None"
  shows "\<exists>r self' w'. hev_socks5_client_handshake cfg get_up set_up self pipeline w = Some (r, self', w') \<and>
    w_tx w' = w_tx w @ (if pipeline then pipeline_sent self (target self)
      else standard_sent self (target self) (w_avail w)) \<and>
    (r = 0 \<or> r = -1) \<and> (r = 0 \<longrightarrow> server_reply (w_avail w)) \<and>
    (accepting self \<longrightarrow> server_reply (w_avail w) \<longrightarrow> r = 0)"
proof -
  let ?self = "hev_socks5_set_timeout self (hev_socks5_get_tcp_timeout cfg)"
  have st: "ready ?self w" "request_cmd (sk_type ?self) \<noteq> None"
    "target ?self = target self" "accepting ?self = accepting self"
    using assms by (simp_all add: timeout_laws hev_socks5_set_timeout_def)
  have "msg_methods ?self = msg_methods self" "msg_creds ?self = msg_creds self"
    "sk_type ?self = sk_type self"
    by (simp_all add: msg_methods_def msg_creds_def creds_set_def hev_socks5_set_timeout_def)
  then have msgs: "pipeline_sent ?self a = pipeline_sent self a"
    "standard_sent ?self a s = standard_sent self a s" for a s
    unfolding pipeline_sent_def standard_sent_def by (simp_all only:)
  show ?thesis
  proof (cases pipeline)
    case True
    obtain r self' w' where
      a: "hev_socks5_client_handshake_pipeline get_up set_up ?self w = Some (r, self', w')" and
      b: "w_tx w' = w_tx w @ pipeline_sent ?self (target ?self)" "r = 0 \<or> r = -1"
        "r = 0 \<Longrightarrow> server_reply (w_avail w)"
        "accepting ?self \<Longrightarrow> server_reply (w_avail w) \<Longrightarrow> r = 0"
      using handshake_pipeline_result [OF st(1) assms(2,3) st(2)] by blast
    show ?thesis
      using b unfolding st msgs by (simp add: hev_socks5_client_handshake_def True a)
  next
    case False
    obtain r self' w' where
      a: "hev_socks5_client_handshake_standard get_up set_up ?self w = Some (r, self', w')" and
      b: "w_tx w' = w_tx w @ standard_sent ?self (target ?self) (w_avail w)" "r = 0 \<or> r = -1"
        "r = 0 \<Longrightarrow> server_reply (w_avail w)"
        "accepting ?self \<Longrightarrow> server_reply (w_avail w) \<Longrightarrow> r = 0"
      using handshake_standard_result [OF st(1) assms(2,3) st(2)] by blast
    show ?thesis
      using b unfolding st msgs by (simp add: hev_socks5_client_handshake_def False a)
  qed
qed

end

section \<open>The TCP client and the UDP client\<close>

definition tcp_ready :: "'a HevSocks5ClientTCP_scheme \<Rightarrow> bool" where
  "tcp_ready self \<longleftrightarrow> (case ctcp_addr self of None \<Rightarrow> False | Some a \<Rightarrow> addr_valid a)"

interpretation tcp: upstream_client "\<lambda>self w. tcp_ready self" "\<lambda>self. the (ctcp_addr self)"
  "\<lambda>self. True" hev_socks5_client_tcp_get_upstream_addr hev_socks5_client_tcp_set_upstream_addr
  by unfold_locales
    (auto simp: tcp_ready_def hev_socks5_client_tcp_get_upstream_addr_def
      hev_socks5_client_tcp_set_upstream_addr_def split: option.splits)

text \<open>The UDP client allocates the address it gives, an unspecified one of its family.\<close>

definition udp_ready :: "'a HevSocks5ClientUDP_scheme \<Rightarrow> world \<Rightarrow> bool" where
  "udp_ready self w \<longleftrightarrow>
     sk_addr_family self \<in> {HEV_SOCKS5_ADDR_FAMILY_IPV4, HEV_SOCKS5_ADDR_FAMILY_IPV6} \<and>
     (case w_script w of [] \<Rightarrow> False | r # _ \<Rightarrow> 0 \<le> r)"

definition udp_target :: "'a HevSocks5ClientUDP_scheme \<Rightarrow> HevSocks5Addr" where
  "udp_target self =
     (if sk_addr_family self = HEV_SOCKS5_ADDR_FAMILY_IPV4
      then \<lparr>atype = 1, body = replicate 6 0\<rparr> else \<lparr>atype = 4, body = replicate 18 0\<rparr>)"

lemma udp_get_upstream_addr:
  assumes "udp_ready self w"
  shows "\<exists>w'. hev_socks5_client_udp_get_upstream_addr self w = (Some (udp_target self), self, w') \<and>
    w_rx w' = w_rx w \<and> w_tx w' = w_tx w \<and> w_txs w' = w_txs w \<and> w_junk w' = w_junk w"
proof -
  from assms obtain r rs where sc: "w_script w = r # rs" "0 \<le> r"
    and fam: "sk_addr_family self = HEV_SOCKS5_ADDR_FAMILY_IPV4
      \<or> sk_addr_family self = HEV_SOCKS5_ADDR_FAMILY_IPV6"
    by (auto simp: udp_ready_def split: list.splits)
  have "sys_malloc w = (True, w\<lparr>w_script := rs, w_live := w_live w + 1\<rparr>)"
    using sc by (simp add: sys_malloc_def sys_result_def)
  with fam show ?thesis
    by (auto simp add: udp_target_def hev_socks5_client_udp_get_upstream_addr_def
        hev_socks5_get_addr_family_def)
qed

lemma udp_set_upstream_addr:
  assumes ok: "w_ok w" and v: "addr_valid addr" "atype addr \<noteq> 3"
    and b: "\<And>self fd sa v. w_tx (snd (binder self fd sa v)) = w_tx v"
  shows "\<exists>ret self' w'. hev_socks5_client_udp_set_upstream_addr rs binder self addr w
    = Some (ret, self', w') \<and> w_tx w' = w_tx w \<and>
      (sk_type self = HEV_SOCKS5_TYPE_UDP_IN_TCP \<longrightarrow> 0 \<le> ret)"
proof (cases "sk_type self = HEV_SOCKS5_TYPE_UDP_IN_UDP")
  case False
  then show ?thesis by (simp add: hev_socks5_client_udp_set_upstream_addr_def)
next
  case True
  let ?sa = "\<lparr>sin6_family = 0, sin6_port = 0, sin6_addr = take 16 (w_junk w)\<rparr>"
  have "length (take 16 (w_junk w)) = 16" using ok by (simp add: w_ok_def)
  then have "\<exists>sa f. hev_socks5_addr_into_sockaddr6 rs addr ?sa (hev_socks5_get_addr_family self)
      = Some (0, sa, f)"
    using v by (auto simp: addr_valid_def addr_size_def hev_socks5_addr_into_sockaddr6_def
        hev_socks5_ipv4_into_sockaddr6_def hev_socks5_ipv6_into_sockaddr6_def bytes_simps)
  then obtain sa f where sa:
    "hev_socks5_addr_into_sockaddr6 rs addr ?sa (hev_socks5_get_addr_family self) = Some (0, sa, f)"
    by blast
  obtain fd w1 where s: "hev_socks5_socket SOCK_DGRAM w = (fd, w1)" by fastforce
  obtain res w2 where bd: "binder self fd sa w1 = (res, w2)" by fastforce
  obtain res' w3 where c: "sys_result w2 = (res', w3)" by fastforce
  have "w_tx w2 = w_tx w1" using b [of self fd sa w1] by (simp add: bd)
  with hev_socks5_socket_frame(2) [OF s] sys_result_frame(2) [OF c] show ?thesis
    by (simp add: hev_socks5_client_udp_set_upstream_addr_def True sa s bd c)
qed

interpretation udp: upstream_client udp_ready udp_target
  "\<lambda>self. sk_type self = HEV_SOCKS5_TYPE_UDP_IN_TCP" hev_socks5_client_udp_get_upstream_addr
  "hev_socks5_client_udp_set_upstream_addr rs hev_socks5_bind" for rs
proof
  show "\<exists>ret self' w'. hev_socks5_client_udp_set_upstream_addr rs hev_socks5_bind self addr w
      = Some (ret, self', w') \<and> w_tx w' = w_tx w \<and>
        (sk_type self = HEV_SOCKS5_TYPE_UDP_IN_TCP \<longrightarrow> 0 \<le> ret)"
    if "w_ok w" "addr_valid addr" "atype addr \<noteq> 3"
    for self :: "'a HevSocks5ClientUDP_scheme" and addr w
    by (rule udp_set_upstream_addr [OF that]) (simp add: hev_socks5_bind_def)
next
  show "\<exists>self' w'. hev_socks5_client_udp_get_upstream_addr self w = (Some (udp_target self), self', w') \<and>
      w_rx w' = w_rx w \<and> w_tx w' = w_tx w \<and> w_txs w' = w_txs w \<and> w_junk w' = w_junk w \<and>
      (sk_type self = HEV_SOCKS5_TYPE_UDP_IN_TCP \<longrightarrow> sk_type self' = HEV_SOCKS5_TYPE_UDP_IN_TCP)"
    if "udp_ready self w" for self :: "'a HevSocks5ClientUDP_scheme" and w
    using udp_get_upstream_addr [OF that] by blast
qed (simp_all add: udp_ready_def udp_target_def sock_frame_def addr_valid_def addr_size_def)

section \<open>Correctness of the handshakes\<close>


definition example_world :: "byte list \<Rightarrow> world" where
  "example_world bs =
     \<lparr>w_rx = [RxAgain False, RxData (take 3 bs), RxData (drop 3 bs)], w_txs = [TxAccept 2], w_tx = [],
      w_errno = EOTHER, w_script = [0, 0, 0, 0], w_names = [], w_next_fd = 3, w_open = {},
      w_live = 0, w_junk = replicate 259 0\<rparr>"

definition example_tcp :: HevSocks5ClientTCP where
  "example_tcp = HevSocks5ClientTCP_zero\<lparr>sk_type := HEV_SOCKS5_TYPE_TCP,
     auth_user := Some [117], auth_pass := Some [112, 119],
     ctcp_addr := Some \<lparr>atype = 1, body = [10, 0, 0, 1, 0, 80]\<rparr>\<rparr>"

lemma example_world_ok [simp]: "w_ok (example_world bs)" "tx_reliable (example_world bs)"
  by (simp_all add: example_world_def w_ok_def tx_reliable_def)



definition example_resolver :: resolver where
  "example_resolver = \<lparr>inet_pton4 = \<lambda>_. None, inet_pton6 = \<lambda>_. None, getaddrinfo = \<lambda>_ _. None\<rparr>"

definition example_udp :: HevSocks5ClientUDP where
  "example_udp = HevSocks5ClientUDP_zero\<lparr>sk_type := HEV_SOCKS5_TYPE_UDP_IN_TCP,
     sk_addr_family := HEV_SOCKS5_ADDR_FAMILY_IPV4\<rparr>"


end
