(* ===== verification/Socks5Udp.thy ===== *)
theory Socks5Udp
  imports Socks5Client
begin

text \<open>
  The UDP relay of \<open>core/src/hev-socks5-udp.c\<close>: datagrams framed in the TCP stream (UDP in
  TCP) or carried in UDP datagrams with a SOCKS5 header (UDP in UDP), and the forwarding loop
  of the server. A message's \<open>buf\<close> pointer is the memory from that pointer to the end of
  its object, and \<open>addr\<close> the address structure it points to, its union
  extending to the end of the object the pointer is into.

  A datagram socket is a script of what its receive calls find and of how many datagrams its
  send calls take, together with the datagrams sent.
\<close>

definition UDP_BUF_SIZE :: nat where
  "UDP_BUF_SIZE = 1500"

text \<open>An address pointer: not yet assigned, NULL, or pointing to an address. Reading an
  unassigned one is undefined behaviour.\<close>

datatype addr_ptr = AddrUninit | AddrNull | AddrPtr HevSocks5Addr

definition addr_is_null :: "addr_ptr \<Rightarrow> bool option" where
  "addr_is_null p = (case p of AddrUninit \<Rightarrow> None | AddrNull \<Rightarrow> Some True | AddrPtr _ \<Rightarrow> Some False)"

definition addr_deref :: "addr_ptr \<Rightarrow> HevSocks5Addr option" where
  "addr_deref p = (case p of AddrPtr a \<Rightarrow> Some a | _ \<Rightarrow> None)"

record HevSocks5UDPMsg =
  m_addr :: addr_ptr
  m_buf :: "byte list"
  m_len :: size_t

datatype dg_event = DgData "(sockaddr_in6 \<times> byte list) list" | DgAgain bool | DgErr int

record dgram_sock =
  d_rx :: "dg_event list"
  d_send :: "int list"
  d_tx :: "(sockaddr_in6 option \<times> byte list) list"

section \<open>Batches of datagrams\<close>

text \<open>\<open>recvmmsg\<close> into buffers of the sizes \<open>caps\<close>: a datagram that does not fit is cut.\<close>

fun recvmmsg_loop ::
  "nat list \<Rightarrow> bool \<Rightarrow> dg_event list \<Rightarrow> errno \<Rightarrow>
   int \<times> (sockaddr_in6 \<times> byte list) list \<times> dg_event list \<times> errno" where
  "recvmmsg_loop caps dontwait [] e = (if dontwait then -1 else -2, [], [], EAGAIN)"
| "recvmmsg_loop caps dontwait (DgAgain stop # es) e =
     (if dontwait then (-1, [], es, EAGAIN)
      else if stop then (-2, [], es, EAGAIN)
      else recvmmsg_loop caps dontwait es EAGAIN)"
| "recvmmsg_loop caps dontwait (DgErr r # es) e = (r, [], DgErr r # es, EOTHER)"
| "recvmmsg_loop caps dontwait (DgData ms # es) e =
     (let n = length caps;
          got = map (\<lambda>(c, sa, bs). (sa, take c bs)) (zip caps ms);
          rest = drop n ms
      in (int (length got), got, (if rest = [] then es else DgData rest # es), e))"

definition hev_task_io_socket_recvmmsg ::
  "nat list \<Rightarrow> bool \<Rightarrow> dgram_sock \<Rightarrow> world \<Rightarrow>
   int \<times> (sockaddr_in6 \<times> byte list) list \<times> dgram_sock \<times> world" where
  "hev_task_io_socket_recvmmsg caps dontwait d w =
     (let (res, ms, rx, e) = recvmmsg_loop caps dontwait (d_rx d) (w_errno w)
      in (res, ms, d\<lparr>d_rx := rx\<rparr>, w\<lparr>w_errno := e\<rparr>))"

text \<open>\<open>sendmmsg\<close> with \<open>MSG_WAITALL\<close>; an empty script is a socket that takes everything.\<close>

fun sendmmsg_loop :: "int list \<Rightarrow> nat \<Rightarrow> nat \<Rightarrow> errno \<Rightarrow> int \<times> nat \<times> int list \<times> errno" where
  "sendmmsg_loop [] n c e = (int n, n, [], e)"
| "sendmmsg_loop (r # rs) n c e =
     (if r \<le> 0 then (if 0 < c then int c else r, c, rs, if r < 0 then EOTHER else e)
      else let c' = min (c + nat r) n
           in if c' < n then sendmmsg_loop rs n c' e else (int c', c', rs, e))"

definition hev_task_io_socket_sendmmsg ::
  "(sockaddr_in6 option \<times> byte list) list \<Rightarrow> dgram_sock \<Rightarrow> world \<Rightarrow> int \<times> dgram_sock \<times> world" where
  "hev_task_io_socket_sendmmsg ms d w =
     (let (res, n, rs, e) = sendmmsg_loop (d_send d) (length ms) 0 (w_errno w)
      in (res, d\<lparr>d_send := rs, d_tx := d_tx d @ take n ms\<rparr>, w\<lparr>w_errno := e\<rparr>))"

section \<open>Sending\<close>

text \<open>The three iovecs of one message; \<open>Some None\<close> when its address has no length.\<close>

definition udp_frame_tcp :: "HevSocks5UDPMsg \<Rightarrow> byte list option option" where
  "udp_frame_tcp m = do {
     addr \<leftarrow> addr_deref (m_addr m);
     addrlen \<leftarrow> hev_socks5_addr_len addr;
     if addrlen \<le> 0 then Some None
     else do {
       let datlen = htons (ucast (m_len m));
       let hdrlen = (word_of_int (3 + addrlen) :: byte);
       ab \<leftarrow> mem_read (addr_bytes addr) 0 (nat addrlen);
       db \<leftarrow> mem_read (m_buf m) 0 (unat (m_len m));
       Some (Some (u16_bytes datlen @ [hdrlen] @ ab @ db))
     }
   }"

definition udp_frame_udp :: "HevSocks5UDPMsg \<Rightarrow> byte list option option" where
  "udp_frame_udp m = do {
     addr \<leftarrow> addr_deref (m_addr m);
     addrlen \<leftarrow> hev_socks5_addr_len addr;
     if addrlen \<le> 0 then Some None
     else do {
       ab \<leftarrow> mem_read (addr_bytes addr) 0 (nat addrlen);
       db \<leftarrow> mem_read (m_buf m) 0 (unat (m_len m));
       Some (Some ([0, 0, 0] @ ab @ db))
     }
   }"

text \<open>The loop over the messages, which stops at the first bad address.\<close>

fun udp_frames ::
  "(HevSocks5UDPMsg \<Rightarrow> byte list option option) \<Rightarrow> HevSocks5UDPMsg list \<Rightarrow> byte list list option option"
where
  "udp_frames frame [] = Some (Some [])"
| "udp_frames frame (m # ms) = do {
     f \<leftarrow> frame m;
     case f of
       None \<Rightarrow> Some None
     | Some bs \<Rightarrow> do { fs \<leftarrow> udp_frames frame ms; Some (map_option (\<lambda>fs. bs # fs) fs) }
   }"

definition hev_socks5_udp_sendmmsg_tcp ::
  "HevSocks5UDPMsg list \<Rightarrow> world \<Rightarrow> (int \<times> world) option" where
  "hev_socks5_udp_sendmmsg_tcp msgv w = do {
     iov \<leftarrow> udp_frames udp_frame_tcp msgv;
     case iov of
       None \<Rightarrow> Some (-1, w)
     | Some iov \<Rightarrow> do {
         let (res, w) = hev_task_io_socket_sendmsg iov True False w;
         Some (if res \<le> 0 then -1 else int (length msgv), w)
       }
   }"

definition hev_socks5_udp_sendmmsg_udp ::
  "HevSocks5UDPMsg list \<Rightarrow> dgram_sock \<Rightarrow> world \<Rightarrow> (int \<times> dgram_sock \<times> world) option" where
  "hev_socks5_udp_sendmmsg_udp msgv d w = do {
     mvec \<leftarrow> udp_frames udp_frame_udp msgv;
     case mvec of
       None \<Rightarrow> Some (-1, d, w)
     | Some mvec \<Rightarrow> Some (hev_task_io_socket_sendmmsg (map (\<lambda>bs. (None, bs)) mvec) d w)
   }"

definition hev_socks5_udp_sendmmsg ::
  "'a HevSocks5_scheme \<Rightarrow> HevSocks5UDPMsg list \<Rightarrow> dgram_sock \<Rightarrow> world \<Rightarrow>
   (int \<times> dgram_sock \<times> world) option" where
  "hev_socks5_udp_sendmmsg self msgv d w =
     (case sk_type self of
        HEV_SOCKS5_TYPE_UDP_IN_TCP \<Rightarrow> do {
          (res, w) \<leftarrow> hev_socks5_udp_sendmmsg_tcp msgv w;
          Some (res, d, w)
        }
      | HEV_SOCKS5_TYPE_UDP_IN_UDP \<Rightarrow> hev_socks5_udp_sendmmsg_udp msgv d w
      | _ \<Rightarrow> Some (-1, d, w))"

section \<open>Receiving\<close>

text \<open>
  \<open>done\<close> are the messages received so far, in order; the result keeps the untouched ones
  after them. The header is read without waiting for all of it first, then completed.
\<close>

fun udp_recv_tcp_loop ::
  "bool \<Rightarrow> HevSocks5UDPMsg list \<Rightarrow> HevSocks5UDPMsg list \<Rightarrow> world \<Rightarrow>
   (int \<times> HevSocks5UDPMsg list \<times> world) option" where
  "udp_recv_tcp_loop nonblock done [] w = Some (int (length done), done, w)"
| "udp_recv_tcp_loop nonblock done (m # ms) w = do {
     let (res, hd, w) = hev_task_io_socket_recv 5 False nonblock w;
     let (res, hd, w) =
       (if 0 < res \<and> res < 5
        then let (res2, hd2, w) = hev_task_io_socket_recv (5 - nat res) True False w
             in (res + res2, hd @ hd2, w)
        else (res, hd, w));
     if res \<noteq> 5
     then Some (if done \<noteq> [] then int (length done) else res, done @ m # ms, w)
     else do {
       let hdrlen = hd ! 2;
       if unat hdrlen < 5 then Some (-1, done @ m # ms, w)
       else do {
         let addrlen = unat hdrlen - 3;
         let datlen = ntohs (bytes_u16 (hd ! 0) (hd ! 1));
         if (ucast datlen :: size_t) > m_len m - word_of_nat addrlen
         then Some (-1, done @ m # ms, w)
         else do {
           let n = addrlen - 2 + unat datlen;
           let (res, bs, w) = hev_task_io_socket_recv n True False w;
           b \<leftarrow> mem_write (m_buf m) 2 bs;
           if res \<noteq> int n then Some (res, done @ m\<lparr>m_buf := b\<rparr> # ms, w)
           else do {
             b \<leftarrow> mem_write b 0 [hd ! 3, hd ! 4];
             let m = \<lparr>m_addr = AddrPtr \<lparr>atype = b ! 0, body = drop 1 b\<rparr>,
                      m_buf = drop addrlen b, m_len = ucast datlen\<rparr>;
             udp_recv_tcp_loop nonblock (done @ [m]) ms w
           }
         }
       }
     }
   }"

definition hev_socks5_udp_recvmmsg_tcp ::
  "HevSocks5UDPMsg list \<Rightarrow> bool \<Rightarrow> world \<Rightarrow> (int \<times> HevSocks5UDPMsg list \<times> world) option" where
  "hev_socks5_udp_recvmmsg_tcp msgv nonblock w = udp_recv_tcp_loop nonblock [] msgv w"

text \<open>Unpacking the received datagrams in place.\<close>

fun udp_unpack ::
  "HevSocks5UDPMsg list \<Rightarrow> byte list list \<Rightarrow> (bool \<times> HevSocks5UDPMsg list) option" where
  "udp_unpack ms [] = Some (True, ms)"
| "udp_unpack [] (dg # dgs) = None"
| "udp_unpack (m # ms) (dg # dgs) = do {
     b \<leftarrow> mem_write (m_buf m) 0 dg;
     at \<leftarrow> mem_get b 3;
     let addr = \<lparr>atype = at, body = drop 4 b\<rparr>;
     addrlen \<leftarrow> hev_socks5_addr_len addr;
     let m = m\<lparr>m_buf := b, m_len := word_of_nat (length dg)\<rparr>;
     if m_len m < 4 then do {
       (ok, ms) \<leftarrow> udp_unpack ms dgs;
       Some (ok, m\<lparr>m_addr := AddrNull, m_len := 0\<rparr> # ms)
     }
     else if addrlen \<le> 0 then Some (False, m # ms)
     else do {
       let doff = 3 + addrlen;
       if (word_of_int doff :: size_t) > m_len m then Some (False, m # ms)
       else do {
         (ok, ms) \<leftarrow> udp_unpack ms dgs;
         Some (ok, \<lparr>m_addr = AddrPtr addr, m_buf = drop (nat doff) b,
                    m_len = m_len m - word_of_int doff\<rparr> # ms)
       }
     }
   }"

definition hev_socks5_udp_recvmmsg_udp ::
  "'a HevSocks5_scheme \<Rightarrow> HevSocks5UDPMsg list \<Rightarrow> bool \<Rightarrow> dgram_sock \<Rightarrow> world \<Rightarrow>
   (int \<times> HevSocks5UDPMsg list \<times> 'a HevSocks5_scheme \<times> dgram_sock \<times> world) option" where
  "hev_socks5_udp_recvmmsg_udp self msgv nonblock d w = do {
     let (res, dgs, d, w) =
       hev_task_io_socket_recvmmsg (map (\<lambda>m. unat (m_len m)) msgv) nonblock d w;
     if res \<le> 0 then Some (res, msgv, self, d, w)
     else do {
       let (r, w) = (if \<not> sk_udp_associated self then sys_result w else (0, w));
       if r < 0 then Some (-1, msgv, self, d, w)
       else do {
         let self = self\<lparr>sk_udp_associated := True\<rparr>;
         (ok, msgv) \<leftarrow> udp_unpack msgv (map snd dgs);
         Some (if ok then res else -1, msgv, self, d, w)
       }
     }
   }"

definition hev_socks5_udp_recvmmsg ::
  "'a HevSocks5_scheme \<Rightarrow> HevSocks5UDPMsg list \<Rightarrow> bool \<Rightarrow> dgram_sock \<Rightarrow> world \<Rightarrow>
   (int \<times> HevSocks5UDPMsg list \<times> 'a HevSocks5_scheme \<times> dgram_sock \<times> world) option" where
  "hev_socks5_udp_recvmmsg self msgv nonblock d w =
     (case sk_type self of
        HEV_SOCKS5_TYPE_UDP_IN_TCP \<Rightarrow> do {
          (res, msgv, w) \<leftarrow> hev_socks5_udp_recvmmsg_tcp msgv nonblock w;
          Some (res, msgv, self, d, w)
        }
      | HEV_SOCKS5_TYPE_UDP_IN_UDP \<Rightarrow> hev_socks5_udp_recvmmsg_udp self msgv nonblock d w
      | _ \<Rightarrow> Some (-1, msgv, self, d, w))"

section \<open>Forwarding\<close>

text \<open>
  The socket address and data of each of the first \<open>n\<close> received messages; \<open>Some None\<close> when
  one has no data, no address or an address that does not resolve. A count beyond the
  messages, or the address of a message that was not received, is undefined behaviour.
  \<open>sa0\<close> is the indeterminate socket address on the stack.
\<close>

fun udp_dests ::
  "resolver \<Rightarrow> int \<Rightarrow> sockaddr_in6 \<Rightarrow> nat \<Rightarrow> HevSocks5UDPMsg list \<Rightarrow>
   (sockaddr_in6 \<times> byte list) list option option" where
  "udp_dests rs family sa0 0 ms = Some (Some [])"
| "udp_dests rs family sa0 (Suc n) [] = None"
| "udp_dests rs family sa0 (Suc n) (m # ms) = do {
     invalid \<leftarrow> (if m_len m = 0 then Some True else addr_is_null (m_addr m));
     if invalid then Some None
     else do {
       addr \<leftarrow> addr_deref (m_addr m);
       (ret, sa, _) \<leftarrow> hev_socks5_addr_into_sockaddr6 rs addr sa0 family;
       if ret < 0 then Some None
       else do {
         bs \<leftarrow> mem_read (m_buf m) 0 (unat (m_len m));
         r \<leftarrow> udp_dests rs family sa0 n ms;
         Some (map_option (\<lambda>r. (sa, bs) # r) r)
       }
     }
   }"

definition fwd_result :: "int \<Rightarrow> world \<Rightarrow> int" where
  "fwd_result res w =
     (if res \<le> 0 then (if res = -1 \<and> w_errno w = EAGAIN then 0 else -1) else 1)"

text \<open>\<open>bufs\<close> are the receive buffers, of indeterminate content.\<close>

definition hev_socks5_udp_fwd_f ::
  "resolver \<Rightarrow> ('a HevSocks5_scheme \<Rightarrow> int \<Rightarrow> sockaddr_in6 \<Rightarrow> world \<Rightarrow> int \<times> world) \<Rightarrow>
   'a HevSocks5_scheme \<Rightarrow> int \<Rightarrow> byte list list \<Rightarrow> bool \<Rightarrow> dgram_sock \<Rightarrow> dgram_sock \<Rightarrow> world \<Rightarrow>
   (int \<times> 'a HevSocks5_scheme \<times> bool \<times> dgram_sock \<times> dgram_sock \<times> world) option" where
  "hev_socks5_udp_fwd_f rs binder self fd bufs bnd da db w = do {
     let svec = map (\<lambda>b. \<lparr>m_addr = AddrUninit, m_buf = b, m_len = word_of_nat UDP_BUF_SIZE\<rparr>) bufs;
     (res, svec, self, da, w) \<leftarrow> hev_socks5_udp_recvmmsg self svec True da w;
     if res \<le> 0 then Some (fwd_result res w, self, bnd, da, db, w)
     else do {
       let sa0 = \<lparr>sin6_family = 0, sin6_port = 0, sin6_addr = take 16 (w_junk w)\<rparr>;
       dvec \<leftarrow> udp_dests rs (hev_socks5_get_addr_family self) sa0 (nat res) svec;
       case dvec of
         None \<Rightarrow> Some (-1, self, bnd, da, db, w)
       | Some dvec \<Rightarrow> do {
           let (ret, w) = (if \<not> bnd then binder self fd (fst (hd dvec)) w else (0, w));
           if ret < 0 then Some (-1, self, bnd, da, db, w)
           else do {
             let (res, db, w) =
               hev_task_io_socket_sendmmsg (map (\<lambda>(sa, bs). (Some sa, bs)) dvec) db w;
             Some (fwd_result res w, self, True, da, db, w)
           }
         }
     }
   }"

fun udp_replies ::
  "byte list list \<Rightarrow> byte list \<Rightarrow> (sockaddr_in6 \<times> byte list) list \<Rightarrow> HevSocks5UDPMsg list option" where
  "udp_replies bufs junk [] = Some []"
| "udp_replies [] junk (dg # dgs) = None"
| "udp_replies (b # bufs) junk ((sa, bs) # dgs) = do {
     b \<leftarrow> mem_write b 0 bs;
     (_, addr) \<leftarrow> hev_socks5_addr_from_sockaddr6 \<lparr>atype = 0, body = junk\<rparr> sa;
     ms \<leftarrow> udp_replies bufs junk dgs;
     Some (\<lparr>m_addr = AddrPtr addr, m_buf = b, m_len = word_of_nat (length bs)\<rparr> # ms)
   }"

definition hev_socks5_udp_fwd_b ::
  "'a HevSocks5_scheme \<Rightarrow> byte list list \<Rightarrow> dgram_sock \<Rightarrow> dgram_sock \<Rightarrow> world \<Rightarrow>
   (int \<times> dgram_sock \<times> dgram_sock \<times> world) option" where
  "hev_socks5_udp_fwd_b self bufs da db w = do {
     let (res, dgs, db, w) =
       hev_task_io_socket_recvmmsg (map (\<lambda>_. UDP_BUF_SIZE) bufs) True db w;
     (res, da, w) \<leftarrow>
       (if 0 < res then do {
          dvec \<leftarrow> udp_replies bufs (take 18 (w_junk w)) dgs;
          hev_socks5_udp_sendmmsg self dvec da w
        } else Some (res, da, w));
     Some (fwd_result res w, da, db, w)
   }"

section \<open>The forwarding loop\<close>

text \<open>
  The yielder of this file also watches the control connection of UDP in UDP. How long a sleep
  leaves is the next scripted result.
\<close>

definition udp_task_io_yielder ::
  "HevTaskYieldType \<Rightarrow> 'a HevSocks5_scheme \<Rightarrow> world \<Rightarrow> int \<times> 'a HevSocks5_scheme \<times> world" where
  "udp_task_io_yielder ty self w =
     (let (res, _, w) =
        (if sk_type self = HEV_SOCKS5_TYPE_UDP_IN_UDP
         then hev_task_io_socket_recv 1 False True w else (1, [], w))
      in if res = 0 \<or> res < 0 \<and> w_errno w \<noteq> EAGAIN
         then (-1, hev_socks5_set_timeout self 0, w)
         else
           let (left, w) =
             (if ty = HEV_TASK_YIELD \<or> sk_timeout self < 0 then (0, w) else sys_result w)
           in (hev_socks5_task_io_yielder (\<lambda>_. left) ty self, self, w))"

record 'a splicer =
  sp_self :: 'a
  sp_res_f :: int
  sp_res_b :: int
  sp_bind :: bool
  sp_a :: dgram_sock
  sp_b :: dgram_sock
  sp_w :: world

text \<open>One round of the loop: whether it goes on, and the state after it. The conjunction of
  two results of which none is positive is 0 unless both are -1.\<close>

definition udp_splicer_round ::
  "resolver \<Rightarrow> ('a HevSocks5_scheme \<Rightarrow> int \<Rightarrow> sockaddr_in6 \<Rightarrow> world \<Rightarrow> int \<times> world) \<Rightarrow>
   int \<Rightarrow> byte list list \<Rightarrow> byte list list \<Rightarrow> 'a HevSocks5_scheme splicer \<Rightarrow>
   (bool \<times> 'a HevSocks5_scheme splicer) option" where
  "udp_splicer_round rs binder fd_b bufs_f bufs_b s = do {
     let self = sp_self s;
     let w = sp_w s;
     (res_f, self, bnd, da, db, w) \<leftarrow>
       (if 0 \<le> sp_res_f s
        then hev_socks5_udp_fwd_f rs binder self fd_b bufs_f (sp_bind s) (sp_a s) (sp_b s) w
        else Some (sp_res_f s, self, sp_bind s, sp_a s, sp_b s, w));
     (res_b, da, db, w) \<leftarrow>
       (if 0 \<le> sp_res_b s then hev_socks5_udp_fwd_b self bufs_b da db w
        else Some (sp_res_b s, da, db, w));
     let s = \<lparr>sp_self = self, sp_res_f = res_f, sp_res_b = res_b, sp_bind = bnd,
              sp_a = da, sp_b = db, sp_w = w\<rparr>;
     if 0 < res_f \<or> 0 < res_b then do {
       let (r, self, w) = udp_task_io_yielder HEV_TASK_YIELD self w;
       Some (r = 0, s\<lparr>sp_self := self, sp_w := w\<rparr>)
     }
     else if res_f = 0 \<or> res_b = 0 then do {
       let (r, self, w) = udp_task_io_yielder HEV_TASK_WAITIO self w;
       Some (r = 0, s\<lparr>sp_self := self, sp_w := w\<rparr>)
     }
     else Some (False, s)
   }"

fun udp_splicer_rounds ::
  "resolver \<Rightarrow> ('a HevSocks5_scheme \<Rightarrow> int \<Rightarrow> sockaddr_in6 \<Rightarrow> world \<Rightarrow> int \<times> world) \<Rightarrow>
   int \<Rightarrow> byte list list \<Rightarrow> byte list list \<Rightarrow> nat \<Rightarrow> 'a HevSocks5_scheme splicer \<Rightarrow>
   (bool \<times> 'a HevSocks5_scheme splicer) option" where
  "udp_splicer_rounds rs binder fd_b bufs_f bufs_b 0 s = Some (True, s)"
| "udp_splicer_rounds rs binder fd_b bufs_f bufs_b (Suc n) s = do {
     (more, s) \<leftarrow> udp_splicer_round rs binder fd_b bufs_f bufs_b s;
     if more then udp_splicer_rounds rs binder fd_b bufs_f bufs_b n s else Some (False, s)
   }"

text \<open>\<open>fuel\<close> bounds the rounds; \<open>Some None\<close> is a loop that is still running then.\<close>

definition hev_socks5_udp_splicer ::
  "resolver \<Rightarrow> ('a HevSocks5_scheme \<Rightarrow> int \<Rightarrow> sockaddr_in6 \<Rightarrow> world \<Rightarrow> int \<times> world) \<Rightarrow>
   byte list list \<Rightarrow> byte list list \<Rightarrow> nat \<Rightarrow> 'a HevSocks5_scheme \<Rightarrow> int \<Rightarrow> dgram_sock \<Rightarrow> dgram_sock \<Rightarrow>
   world \<Rightarrow> (int \<times> 'a HevSocks5_scheme \<times> dgram_sock \<times> dgram_sock \<times> world) option option" where
  "hev_socks5_udp_splicer rs binder bufs_f bufs_b fuel self fd_b da db w = do {
     let (got, w) = sys_malloc w;
     if \<not> got then Some (Some (-1, self, da, db, w))
     else do {
       (more, s) \<leftarrow> udp_splicer_rounds rs binder fd_b bufs_f bufs_b fuel
         \<lparr>sp_self = self, sp_res_f = 1, sp_res_b = 1, sp_bind = False, sp_a = da, sp_b = db,
          sp_w = w\<rparr>;
       Some (if more then None else Some (0, sp_self s, sp_a s, sp_b s, sys_free (sp_w s)))
     }
   }"

section \<open>TCP splicing\<close>

text \<open>\<open>core/src/hev-socks5-tcp.c\<close>; \<open>io_splice\<close> is the task system's copy loop.\<close>

definition hev_socks5_tcp_splicer ::
  "(int \<Rightarrow> int \<Rightarrow> world \<Rightarrow> world) \<Rightarrow> 'a HevSocks5_scheme \<Rightarrow> int \<Rightarrow> world \<Rightarrow> int \<times> world" where
  "hev_socks5_tcp_splicer io_splice self fd w =
     (let cfd = sk_fd self in if cfd < 0 then (-1, w) else (0, io_splice cfd fd w))"

end
