(* ===== verification/UdpFraming.thy ===== *)
theory UdpFraming
  imports ClientHandshake Socks5Udp
begin

text \<open>
  The datagram framing of UDP in TCP: what \<open>hev_socks5_udp_sendmmsg\<close> puts into the stream,
  \<open>hev_socks5_udp_recvmmsg\<close> takes out again, whatever segments the bytes arrive in; and what
  happens when the stream ends inside a frame.
\<close>

section \<open>Frames\<close>

text \<open>A message that fits a frame: the header length is one byte, the data length two.\<close>

definition udp_tcp_ok :: "HevSocks5UDPMsg \<Rightarrow> bool" where
  "udp_tcp_ok m \<longleftrightarrow>
     (case m_addr m of AddrPtr a \<Rightarrow> addr_valid a \<and> addr_size a \<le> 252 | _ \<Rightarrow> False) \<and>
     unat (m_len m) \<le> length (m_buf m) \<and> unat (m_len m) < 2 ^ 16"

definition udp_payload :: "HevSocks5UDPMsg \<Rightarrow> (byte list \<times> byte list) option" where
  "udp_payload m =
     (case m_addr m of
        AddrPtr a \<Rightarrow> Some (addr_wire a, take (unat (m_len m)) (m_buf m))
      | _ \<Rightarrow> None)"

definition udp_wire :: "HevSocks5UDPMsg \<Rightarrow> byte list" where
  "udp_wire m =
     (case m_addr m of
        AddrPtr a \<Rightarrow> u16_bytes (htons (ucast (m_len m))) @ [word_of_nat (3 + addr_size a)] @
          addr_wire a @ take (unat (m_len m)) (m_buf m)
      | _ \<Rightarrow> [])"

text \<open>A receive buffer that is large enough for a message.\<close>

definition udp_fits :: "HevSocks5UDPMsg \<Rightarrow> HevSocks5UDPMsg \<Rightarrow> bool" where
  "udp_fits b m \<longleftrightarrow>
     (case m_addr m of
        AddrPtr a \<Rightarrow> addr_size a + unat (m_len m) \<le> unat (m_len b)
      | _ \<Rightarrow> False) \<and>
     length (m_buf b) = unat (m_len b) \<and> unat (m_len b) < 2 ^ 62"

lemma addr_len_valid: "addr_valid a \<Longrightarrow> hev_socks5_addr_len a = Some (int (addr_size a))"
  by (auto simp: addr_valid_def hev_socks5_addr_len_def addr_size_def mem_get_def)

lemma addr_size_ge: "addr_valid a \<Longrightarrow> 4 \<le> addr_size a"
  by (auto simp: addr_valid_def addr_size_def)

lemma addr_read: "addr_valid a \<Longrightarrow> mem_read (addr_bytes a) 0 (addr_size a) = Some (addr_wire a)"
  by (simp add: mem_read_def addr_valid_def addr_wire_def addr_bytes_def)

lemma length_addr_wire: "addr_valid a \<Longrightarrow> length (addr_wire a) = addr_size a"
  by (simp add: addr_valid_def addr_wire_def addr_bytes_def)

lemma udp_frame_tcp_wire:
  assumes "udp_tcp_ok m"
  shows "udp_frame_tcp m = Some (Some (udp_wire m))"
proof -
  from assms obtain a where a: "m_addr m = AddrPtr a" "addr_valid a" "addr_size a \<le> 252"
    and le: "unat (m_len m) \<le> length (m_buf m)"
    by (auto simp: udp_tcp_ok_def split: addr_ptr.splits)
  have "\<not> int (addr_size a) \<le> 0" using addr_size_ge [OF a(2)] by simp
  moreover have "(word_of_int (3 + int (addr_size a)) :: byte) = word_of_nat (3 + addr_size a)"
    by simp
  moreover have "mem_read (m_buf m) 0 (unat (m_len m)) = Some (take (unat (m_len m)) (m_buf m))"
    using le by (simp add: mem_read_def)
  ultimately show ?thesis
    by (simp add: udp_frame_tcp_def udp_wire_def a(1) addr_deref_def addr_len_valid [OF a(2)]
        addr_read [OF a(2)] del: of_nat_add)
qed

lemma udp_frames_tcp:
  "\<forall>m \<in> set ms. udp_tcp_ok m \<Longrightarrow> udp_frames udp_frame_tcp ms = Some (Some (map udp_wire ms))"
  by (induction ms) (auto simp: udp_frame_tcp_wire)

section \<open>Receiving one message\<close>

lemma recv_some:
  assumes ok: "w_ok w" and n: "0 < n" and ne: "w_avail w \<noteq> []"
  obtains (again) w' where "dw" "hev_task_io_socket_recv n False dw w = (-1, [], w')"
      "w_avail w' = w_avail w" "w_ok w'" "w_tx w' = w_tx w" "w_errno w' = EAGAIN"
  | (got) k w' where "hev_task_io_socket_recv n False dw w = (int k, take k (w_avail w), w')"
      "1 \<le> k" "k \<le> n" "k \<le> length (w_avail w)" "w_avail w' = drop k (w_avail w)" "w_ok w'"
      "w_tx w' = w_tx w"
proof -
  have "\<exists>r bs es' e'. recv_loop False dw es n [] e = (r, bs, es', e') \<and>
      (dw \<and> r = -1 \<and> bs = [] \<and> rx_bytes es' = rx_bytes es \<and> e' = EAGAIN \<or>
       (\<exists>k. r = int k \<and> bs = take k (rx_bytes es) \<and> 1 \<le> k \<and> k \<le> n \<and> k \<le> length (rx_bytes es) \<and>
         rx_bytes es' = drop k (rx_bytes es)))" if "rx_bytes es \<noteq> []" for es e
    using that
  proof (induction es arbitrary: e)
    case (Cons x es)
    show ?case
    proof (cases x)
      case (RxData bs)
      with Cons.prems have bs: "bs \<noteq> []" by auto
      let ?k = "min n (length bs)"
      have "take n bs = take ?k (rx_bytes (RxData bs # es))"
        using bs by (cases "n \<le> length bs") simp_all
      moreover have "1 \<le> ?k" using n bs by (cases bs) auto
      moreover have "rx_bytes (if drop n bs = [] then es else RxData (drop n bs) # es)
          = drop ?k (rx_bytes (RxData bs # es))"
        using bs by (auto simp: min_def)
      moreover have "length (take n bs) = ?k" by simp
      ultimately show ?thesis using bs
        by (simp add: RxData Let_def)
    next
      case (RxAgain stop)
      with Cons show ?thesis by (cases dw) (auto split: if_splits)
    qed (use Cons.prems in auto)
  qed simp
  from this [of "w_rx w" "w_errno w"] ne obtain r bs es' e' where
    rl: "recv_loop False dw (w_rx w) n [] (w_errno w) = (r, bs, es', e')" and
    cs: "dw \<and> r = -1 \<and> bs = [] \<and> rx_bytes es' = w_avail w \<and> e' = EAGAIN \<or>
       (\<exists>k. r = int k \<and> bs = take k (w_avail w) \<and> 1 \<le> k \<and> k \<le> n \<and> k \<le> length (w_avail w) \<and>
         rx_bytes es' = drop k (w_avail w))"
    unfolding w_avail_def by blast
  have rv: "hev_task_io_socket_recv n False dw w = (r, bs, w\<lparr>w_rx := es', w_errno := e'\<rparr>)"
    by (simp add: hev_task_io_socket_recv_def rl)
  have ok': "w_ok (w\<lparr>w_rx := es', w_errno := e'\<rparr>)" by (rule recv_ok [OF rv ok])
  from cs show thesis
  proof (elim disjE exE conjE)
    assume "dw" "r = -1" "bs = []" "rx_bytes es' = w_avail w" "e' = EAGAIN"
    with rv ok' show thesis
      by (intro again [of "w\<lparr>w_rx := es', w_errno := e'\<rparr>"]) (simp_all add: w_avail_def)
  next
    fix k assume "r = int k" "bs = take k (w_avail w)" "1 \<le> k" "k \<le> n" "k \<le> length (w_avail w)"
      "rx_bytes es' = drop k (w_avail w)"
    with rv ok' show thesis
      by (intro got [of k "w\<lparr>w_rx := es', w_errno := e'\<rparr>"]) (simp_all add: w_avail_def)
  qed
qed

text \<open>Reading the five header bytes in two steps.\<close>

definition udp_recv_header :: "bool \<Rightarrow> world \<Rightarrow> int \<times> byte list \<times> world" where
  "udp_recv_header nonblock w =
     (let (res, hd, w) = hev_task_io_socket_recv 5 False nonblock w
      in if 0 < res \<and> res < 5
         then let (res2, hd2, w) = hev_task_io_socket_recv (5 - nat res) True False w
              in (res + res2, hd @ hd2, w)
         else (res, hd, w))"

lemma udp_recv_header:
  assumes ok: "w_ok w" and len: "5 \<le> length (w_avail w)"
  obtains (again) w' where "nonblock" "udp_recv_header nonblock w = (-1, [], w')"
      "w_avail w' = w_avail w" "w_ok w'"
  | (got) w' where "udp_recv_header nonblock w = (5, take 5 (w_avail w), w')"
      "w_avail w' = drop 5 (w_avail w)" "w_ok w'"
proof -
  have five: "(0::nat) < 5" and ne: "w_avail w \<noteq> []" using len by auto
  from ok five ne show thesis
  proof (cases rule: recv_some [of w 5 nonblock])
    case (again w')
    then show thesis by (intro that(1) [of w']) (simp_all add: udp_recv_header_def)
  next
    case (got k w1)
    show thesis
    proof (cases "k = 5")
      case True
      with got show thesis by (intro that(2) [of w1]) (simp_all add: udp_recv_header_def)
    next
      case False
      with got(3) have k: "k < 5" "0 < 5 - k" by auto
      from got(6) k(2) show thesis
      proof (cases rule: recv_step)
        case (full w2)
        have tk: "take k (w_avail w) @ take (5 - k) (drop k (w_avail w)) = take 5 (w_avail w)"
          using take_add [of k "5 - k" "w_avail w"] k(1) by simp
        have "udp_recv_header nonblock w = (int k + int (5 - k),
            take k (w_avail w) @ take (5 - k) (w_avail w1), w2)"
          unfolding udp_recv_header_def got(1) Let_def prod.case nat_int full(1)
          using k(1) got(2) by simp
        then have "udp_recv_header nonblock w = (5, take 5 (w_avail w), w2)"
          using k(1) by (simp add: got(5) tk)
        moreover have "w_avail w2 = drop 5 (w_avail w)"
          using k(1) by (simp add: full(3) got(5))
        ultimately show thesis using full(4) by (rule that(2))
      next
        case (short res bs w2)
        then have "length (w_avail w) - k < 5 - k" by (simp add: got(5))
        with len show thesis by linarith
      qed
    qed
  qed
qed

declare udp_recv_tcp_loop.simps(2) [simp del]

lemma udp_recv_tcp_loop_Cons:
  "udp_recv_tcp_loop nonblock dn (m # ms) w =
     (let (res, hd, w) = udp_recv_header nonblock w
      in if res \<noteq> 5
         then Some (if dn \<noteq> [] then int (length dn) else res, dn @ m # ms, w)
         else do {
           let hdrlen = hd ! 2;
           if unat hdrlen < 5 then Some (-1, dn @ m # ms, w)
           else do {
             let addrlen = unat hdrlen - 3;
             let datlen = ntohs (bytes_u16 (hd ! 0) (hd ! 1));
             if (ucast datlen :: size_t) > m_len m - word_of_nat addrlen
             then Some (-1, dn @ m # ms, w)
             else do {
               let n = addrlen - 2 + unat datlen;
               let (res, bs, w) = hev_task_io_socket_recv n True False w;
               b \<leftarrow> mem_write (m_buf m) 2 bs;
               if res \<noteq> int n then Some (res, dn @ m\<lparr>m_buf := b\<rparr> # ms, w)
               else do {
                 b \<leftarrow> mem_write b 0 [hd ! 3, hd ! 4];
                 let m = \<lparr>m_addr = AddrPtr \<lparr>atype = b ! 0, body = drop 1 b\<rparr>,
                          m_buf = drop addrlen b, m_len = ucast datlen\<rparr>;
                 udp_recv_tcp_loop nonblock (dn @ [m]) ms w
               }
             }
           }
         })"
  by (simp add: udp_recv_header_def udp_recv_tcp_loop.simps(2) split: prod.split)

lemma udp_recv_tcp_loop_good:
  assumes "udp_recv_header nonblock w = (5, [lo, hi, h, x, y], w1)" and h: "5 \<le> unat h"
    and "datlen = ntohs (bytes_u16 lo hi)"
    and "\<not> (ucast datlen :: size_t) > m_len m - word_of_nat (unat h - 3)"
    and n: "n = unat h - 5 + unat datlen"
    and "hev_task_io_socket_recv n True False w1 = (int n, bs, w2)"
    and "mem_write (m_buf m) 2 bs = Some b1" "mem_write b1 0 [x, y] = Some b2"
  shows "udp_recv_tcp_loop nonblock dn (m # ms) w = udp_recv_tcp_loop nonblock
    (dn @ [\<lparr>m_addr = AddrPtr \<lparr>atype = b2 ! 0, body = drop 1 b2\<rparr>,
            m_buf = drop (unat h - 3) b2, m_len = ucast datlen\<rparr>]) ms w2"
proof -
  have "unat h - 3 - 2 + unat datlen = n" using h n by simp
  moreover have "[lo, hi, h, x, y] ! 2 = h" "[lo, hi, h, x, y] ! 3 = x" "[lo, hi, h, x, y] ! 4 = y"
    "[lo, hi, h, x, y] ! 1 = hi" by simp_all
  moreover have "\<not> unat h < 5" using h by simp
  ultimately show ?thesis
    unfolding udp_recv_tcp_loop_Cons assms(1) Let_def prod.case
    using assms(3,4,6-8) by (simp only: nth_Cons_0 refl if_False not_True_eq_False
        Option.bind_lunit prod.case)
qed

text \<open>The frame of a message, taken apart as the receiver reads it.\<close>

lemma udp_wire_parts:
  assumes "udp_tcp_ok m"
  obtains a x y ws dat lo hi where "m_addr m = AddrPtr a" "addr_wire a = x # y # ws"
    "udp_wire m = [lo, hi, word_of_nat (3 + addr_size a), x, y] @ ws @ dat"
    "dat = take (unat (m_len m)) (m_buf m)" "length dat = unat (m_len m)"
    "ntohs (bytes_u16 lo hi) = ucast (m_len m)" "length ws = addr_size a - 2"
    "x = atype a" "y = body a ! 0" "4 \<le> addr_size a" "addr_size a \<le> 252"
    "unat (ucast (m_len m) :: u16) = unat (m_len m)"
proof -
  from assms obtain a where a: "m_addr m = AddrPtr a" "addr_valid a" "addr_size a \<le> 252"
    and le: "unat (m_len m) \<le> length (m_buf m)" "unat (m_len m) < 2 ^ 16"
    by (auto simp: udp_tcp_ok_def split: addr_ptr.splits)
  note ge = addr_size_ge [OF a(2)] and len = length_addr_wire [OF a(2)]
  obtain y ys where b: "body a = y # ys" using a(2) by (auto simp: addr_valid_def neq_Nil_conv)
  define ws where "ws = drop 2 (addr_wire a)"
  have "addr_wire a = take 2 (addr_wire a) @ ws" by (simp add: ws_def)
  moreover have "take 2 (addr_wire a) = [atype a, y]"
    using ge b by (simp add: addr_wire_def addr_bytes_def min_def numeral_2_eq_2)
  ultimately have w: "addr_wire a = atype a # y # ws" by simp
  let ?v = "htons (ucast (m_len m))"
  have "u16_bytes ?v = [ucast ?v, ucast (drop_bit 8 ?v)]" by (simp add: u16_bytes_def)
  moreover have "ntohs (bytes_u16 (ucast ?v) (ucast (drop_bit 8 ?v))) = ucast (m_len m)"
    using bytes_u16_inverse [of ?v] by (simp add: u16_bytes_def)
  moreover have "unat (ucast (m_len m) :: u16) = unat (m_len m)"
    using le(2) by (rule unat_ucast_size_u16)
  ultimately show thesis
    using a b ge le w len
    by (intro that [of a "atype a" y ws "ucast ?v" "ucast (drop_bit 8 ?v)"
          "take (unat (m_len m)) (m_buf m)"])
      (auto simp: udp_wire_def ws_def)
qed

lemma write_header_bytes:
  "2 + length ts \<le> length d \<Longrightarrow>
   write_at (write_at d 2 ts) 0 [x, y] = x # y # ts @ drop (2 + length ts) d"
  by (simp add: write_at_def min_def)

lemma udp_recv_step:
  assumes ok: "w_ok w" and m: "udp_tcp_ok m" and fits: "udp_fits b m"
    and av: "w_avail w = udp_wire m @ rest"
  obtains (again) w' where "nonblock"
      "udp_recv_tcp_loop nonblock dn (b # bs) w =
        Some (if dn \<noteq> [] then int (length dn) else -1, dn @ b # bs, w')"
      "w_avail w' = w_avail w"
  | (got) b' w' where "udp_recv_tcp_loop nonblock dn (b # bs) w =
        udp_recv_tcp_loop nonblock (dn @ [b']) bs w'"
      "udp_payload b' = udp_payload m" "w_ok w'" "w_avail w' = rest"
proof -
  from m obtain a x y ws dat lo hi where p: "m_addr m = AddrPtr a" "addr_wire a = x # y # ws"
    "udp_wire m = [lo, hi, word_of_nat (3 + addr_size a), x, y] @ ws @ dat"
    "dat = take (unat (m_len m)) (m_buf m)" "length dat = unat (m_len m)"
    "ntohs (bytes_u16 lo hi) = ucast (m_len m)" "length ws = addr_size a - 2"
    "x = atype a" "y = body a ! 0" "4 \<le> addr_size a" "addr_size a \<le> 252"
    "unat (ucast (m_len m) :: u16) = unat (m_len m)"
    by (rule udp_wire_parts)
  let ?s = "addr_size a" and ?l = "unat (m_len m)"
  have "5 \<le> length (w_avail w)" by (simp add: av p(3))
  with ok show thesis
  proof (cases rule: udp_recv_header [where nonblock = nonblock])
    case (again w')
    then show thesis
      by (intro that(1) [of w']) (simp_all add: udp_recv_tcp_loop_Cons)
  next
    case (got w1)
    have hd: "take 5 (w_avail w) = [lo, hi, word_of_nat (3 + ?s), x, y]" by (simp add: av p(3))
    have av1: "w_avail w1 = ws @ dat @ rest" using got(2) by (simp add: av p(3))
    have h: "unat (word_of_nat (3 + ?s) :: byte) = 3 + ?s"
      using unat_of_nat [where 'a = 8, of "3 + ?s"] p(11) by (simp del: of_nat_add)
    from fits have f: "?s + ?l \<le> unat (m_len b)" "length (m_buf b) = unat (m_len b)"
      "unat (m_len b) < 2 ^ 62" by (simp_all add: udp_fits_def p(1))
    have us: "unat (word_of_nat ?s :: size_t) = ?s" using p(11) by (simp add: unat_of_nat)
    have sub: "unat (m_len b - word_of_nat ?s) = unat (m_len b) - ?s"
      using f(1) by (subst unat_sub_size') (simp_all add: us)
    have fit: "\<not> (ucast (ucast (m_len m) :: u16) :: size_t) > m_len b - word_of_nat ?s"
      using f(1) by (simp add: word_less_nat_alt sub p(12))
    define n where "n = ?s - 2 + ?l"
    have n: "0 < n" "n = length (ws @ dat)" using p(5,7,10) by (simp_all add: n_def)
    from got(3) n(1) show thesis
    proof (cases rule: recv_step)
      case (short res bs' w2)
      then show thesis using n(2) by (simp add: av1)
    next
      case (full w2)
      have tk: "take n (w_avail w1) = ws @ dat" using n(2) by (simp add: av1)
      have le2: "2 + length (ws @ dat) \<le> length (m_buf b)"
        using f(1,2) p(5,7,10) by simp
      let ?tl = "drop (2 + length (ws @ dat)) (m_buf b)"
      let ?b = "x # y # ws @ dat @ ?tl"
      let ?b' = "\<lparr>m_addr = AddrPtr \<lparr>atype = x, body = y # ws @ dat @ ?tl\<rparr>,
        m_buf = drop ?s ?b, m_len = ucast (ucast (m_len m) :: u16)\<rparr>"
      have w1: "mem_write (m_buf b) 2 (ws @ dat) = Some (write_at (m_buf b) 2 (ws @ dat))"
        by (rule mem_write_Some [OF le2])
      have w2: "mem_write (write_at (m_buf b) 2 (ws @ dat)) 0 [x, y] = Some ?b"
        using le2 write_header_bytes [OF le2, of x y] by (simp add: mem_write_def)
      have "udp_recv_tcp_loop nonblock dn (b # bs) w
          = udp_recv_tcp_loop nonblock (dn @ [?b']) bs w2"
      proof -
        let ?h = "word_of_nat (3 + ?s) :: byte"
        have "5 \<le> unat ?h" "unat ?h - 3 = ?s" "unat ?h - 5 = ?s - 2" using p(10) h by simp_all
        moreover have "?b ! 0 = x" "drop 1 ?b = y # ws @ dat @ ?tl" by simp_all
        ultimately show ?thesis
          using udp_recv_tcp_loop_good [OF got(1) [unfolded hd], of "ucast (m_len m)" b n "ws @ dat" w2
              "write_at (m_buf b) 2 (ws @ dat)" ?b dn bs]
            fit p(6,12) full(1) tk w1 w2 by (simp only: n_def refl simp_thms)
      qed
      moreover have "udp_payload ?b' = udp_payload m"
      proof -
        have sz: "addr_size \<lparr>atype = x, body = y # ws @ dat @ ?tl\<rparr> = ?s"
          by (simp add: addr_size_def p(8,9))
        have "take ?s ?b = addr_wire a" using p(2,7,10) by (simp add: take_Cons')
        moreover have "take ?l (drop ?s ?b) = dat" using p(5,7,10) by (simp add: drop_Cons')
        moreover have "addr_wire \<lparr>atype = x, body = y # ws @ dat @ ?tl\<rparr> = take ?s ?b"
          unfolding addr_wire_def sz addr_bytes_def by simp
        ultimately show ?thesis
          by (simp only: udp_payload_def p(1,4) p(12) addr_ptr.case HevSocks5UDPMsg.select_convs
              unat_ucast_u16)
      qed
      moreover have "w_avail w2 = rest" using n(2) by (simp add: full(3) av1)
      ultimately show thesis using full(4) by (intro that(2))
    qed
  qed
qed

section \<open>Receiving a batch\<close>

lemma udp_recv_batch:
  assumes "w_ok w" "\<forall>m \<in> set ms. udp_tcp_ok m" "list_all2 udp_fits bs ms"
    and "w_avail w = concat (map udp_wire ms) @ rest"
  shows "\<exists>k out w'. k \<le> length ms \<and> (\<not> nonblock \<longrightarrow> k = length ms) \<and>
    udp_recv_tcp_loop nonblock dn bs w
      = Some (if k < length ms \<and> k = 0 \<and> dn = [] then -1 else int (length dn + k), dn @ out, w') \<and>
    map udp_payload (take k out) = map udp_payload (take k ms) \<and>
    w_avail w' = concat (map udp_wire (drop k ms)) @ rest"
  using assms
proof (induction ms arbitrary: bs w dn)
  case Nil
  then show ?case by auto
next
  case (Cons m ms)
  from Cons.prems(3) obtain b bs' where bs: "bs = b # bs'" and fits: "udp_fits b m"
    and fits': "list_all2 udp_fits bs' ms" by (auto simp: list_all2_Cons2)
  have m: "udp_tcp_ok m" and ms: "\<forall>m \<in> set ms. udp_tcp_ok m" using Cons.prems(2) by simp_all
  have av: "w_avail w = udp_wire m @ (concat (map udp_wire ms) @ rest)" using Cons.prems(4) by simp
  from Cons.prems(1) m fits av show ?case
  proof (cases rule: udp_recv_step [where nonblock = nonblock and dn = dn and bs = bs'])
    case (again w')
    then show ?thesis
      unfolding bs by (intro exI [of _ 0] exI [of _ "b # bs'"] exI [of _ w']) (simp add: av)
  next
    case (got b' w')
    from Cons.IH [OF got(3) ms fits' got(4), of "dn @ [b']"] obtain k out w2 where
      ih: "k \<le> length ms" "\<not> nonblock \<longrightarrow> k = length ms"
      "udp_recv_tcp_loop nonblock (dn @ [b']) bs' w' = Some (int (length (dn @ [b']) + k), (dn @ [b']) @ out, w2)"
      "map udp_payload (take k out) = map udp_payload (take k ms)"
      "w_avail w2 = concat (map udp_wire (drop k ms)) @ rest" by auto
    show ?thesis
      unfolding bs got(1)
      by (intro exI [of _ "Suc k"] exI [of _ "b' # out"] exI [of _ w2]) (use ih got(2) in simp)
  qed
qed

text \<open>
  C15: Datagrams sent over TCP come out as they went in. Sending a batch puts exactly the
  frames of its messages into the stream; receiving from a stream that starts with those
  frames, in whatever segments they arrive, into buffers that are large enough never runs into
  undefined behaviour and yields the messages in order, each with its own address and data:
  all of them when the call may block, a prefix of them (or -1 for none) when it may not. What
  is not yet delivered stays in the stream.
\<close>

theorem udp_in_tcp_roundtrip:
  assumes "\<forall>m \<in> set ms. udp_tcp_ok m" "ms \<noteq> []" "list_all2 udp_fits bs ms"
    and "tx_reliable ws" "w_ok wr" "w_avail wr = concat (map udp_wire ms) @ rest"
  shows "(\<exists>ws'. hev_socks5_udp_sendmmsg_tcp ms ws = Some (int (length ms), ws') \<and>
      w_tx ws' = w_tx ws @ concat (map udp_wire ms)) \<and>
    (\<exists>k out wr'. k \<le> length ms \<and> (\<not> nonblock \<longrightarrow> k = length ms) \<and>
      hev_socks5_udp_recvmmsg_tcp bs nonblock wr = Some (if k = 0 then -1 else int k, out, wr') \<and>
      map udp_payload (take k out) = map udp_payload (take k ms) \<and>
      w_avail wr' = concat (map udp_wire (drop k ms)) @ rest)"
proof
  have "udp_wire (hd ms) \<noteq> []"
    using assms(1,2) by (cases ms) (auto simp: udp_wire_def udp_tcp_ok_def split: addr_ptr.splits)
  then have ne: "concat (map udp_wire ms) \<noteq> []" using assms(2) by (cases ms) auto
  from send_step [OF assms(4) ne] obtain ws' where
    s: "hev_task_io_socket_send (concat (map udp_wire ms)) True False ws
      = (int (length (concat (map udp_wire ms))), ws')" "w_tx ws' = w_tx ws @ concat (map udp_wire ms)"
    by blast
  have "0 < length (concat (map udp_wire ms))" using ne by blast
  then have "hev_socks5_udp_sendmmsg_tcp ms ws = Some (int (length ms), ws')"
    unfolding hev_socks5_udp_sendmmsg_tcp_def udp_frames_tcp [OF assms(1)]
      hev_task_io_socket_sendmsg_def
    by (simp add: s(1))
  with s(2) show "\<exists>ws'. hev_socks5_udp_sendmmsg_tcp ms ws = Some (int (length ms), ws') \<and>
      w_tx ws' = w_tx ws @ concat (map udp_wire ms)" by blast
  from udp_recv_batch [OF assms(5,1,3,6), of nonblock "[]"] obtain k out wr' where
    k: "k \<le> length ms" "\<not> nonblock \<longrightarrow> k = length ms" and
    r: "udp_recv_tcp_loop nonblock [] bs wr
      = Some (if k < length ms \<and> k = 0 \<and> ([] :: HevSocks5UDPMsg list) = [] then -1
              else int (length ([] :: HevSocks5UDPMsg list) + k), [] @ out, wr')" and
    p: "map udp_payload (take k out) = map udp_payload (take k ms)"
      "w_avail wr' = concat (map udp_wire (drop k ms)) @ rest" by blast
  have "hev_socks5_udp_recvmmsg_tcp bs nonblock wr = Some (if k = 0 then -1 else int k, out, wr')"
    using assms(2) by (simp add: hev_socks5_udp_recvmmsg_tcp_def r)
  with k p show "\<exists>k out wr'. k \<le> length ms \<and> (\<not> nonblock \<longrightarrow> k = length ms) \<and>
      hev_socks5_udp_recvmmsg_tcp bs nonblock wr = Some (if k = 0 then -1 else int k, out, wr') \<and>
      map udp_payload (take k out) = map udp_payload (take k ms) \<and>
      w_avail wr' = concat (map udp_wire (drop k ms)) @ rest"
    by blast
qed

definition example_msg :: HevSocks5UDPMsg where
  "example_msg = \<lparr>m_addr = AddrPtr \<lparr>atype = 3, body = [2, 97, 98, 0, 53]\<rparr>,
     m_buf = [1, 2, 3], m_len = 3\<rparr>"

definition example_buf :: HevSocks5UDPMsg where
  "example_buf = \<lparr>m_addr = AddrUninit, m_buf = replicate 12 0, m_len = 12\<rparr>"

theorem udp_in_tcp_roundtrip_witness:
  "\<exists>out wr'. hev_socks5_udp_recvmmsg_tcp [example_buf, example_buf] False
      (example_world (udp_wire example_msg @ udp_wire example_msg @ [7])) = Some (2, out, wr') \<and>
    map udp_payload (take 2 out)
      = [Some ([3, 2, 97, 98, 0, 53], [1, 2, 3]), Some ([3, 2, 97, 98, 0, 53], [1, 2, 3])]"
proof -
  let ?w = "example_world (udp_wire example_msg @ udp_wire example_msg @ [7])"
  have 1: "\<forall>m \<in> set [example_msg, example_msg]. udp_tcp_ok m"
    by (simp add: udp_tcp_ok_def example_msg_def addr_valid_def addr_size_def)
  have 2: "[example_msg, example_msg] \<noteq> []" by simp
  have 3: "list_all2 udp_fits [example_buf, example_buf] [example_msg, example_msg]"
    by (simp add: udp_fits_def example_msg_def example_buf_def addr_size_def)
  have 4: "w_avail ?w = concat (map udp_wire [example_msg, example_msg]) @ [7]"
    by (simp add: example_world_def w_avail_def udp_wire_def example_msg_def)
  have 5: "map udp_payload (take 2 [example_msg, example_msg])
      = [Some ([3, 2, 97, 98, 0, 53], [1, 2, 3]), Some ([3, 2, 97, 98, 0, 53], [1, 2, 3])]"
    by (simp add: udp_payload_def example_msg_def addr_wire_def addr_size_def addr_bytes_def)
  from udp_in_tcp_roundtrip [OF 1 2 3 example_world_ok(2) example_world_ok(1) 4, of "[]" False]
  obtain k out wr' where k: "k = length [example_msg, example_msg]" and
    r: "hev_socks5_udp_recvmmsg_tcp [example_buf, example_buf] False ?w
      = Some (if k = 0 then -1 else int k, out, wr')" and
    p: "map udp_payload (take k out) = map udp_payload (take k [example_msg, example_msg])" by blast
  have "k = 2" using k by simp
  with r p 5 show ?thesis
    by (intro exI [of _ out] exI [of _ wr']) (simp only: if_False of_nat_numeral simp_thms
        zero_neq_numeral [symmetric] numeral_eq_iff)
qed


end
