(* ===== verification/Socks5Server.thy ===== *)
theory Socks5Server
  imports Socks5Udp
begin

text \<open>
  The SOCKS5 server of \<open>core/src/hev-socks5-server.c\<close> and the users of
  \<open>core/src/hev-socks5-user.c\<close>. The union \<open>obj\<close>/\<open>user\<close>/\<open>auth\<close> of the
  server object is a datatype; the authenticator's type is a parameter and its lookup function
  an argument, which the authenticator's own theory provides.
\<close>

section \<open>Users\<close>

record HevSocks5User =
  user_name :: "byte list"
  user_pass :: "byte list"

text \<open>The two strings are copied by length, so they need no terminator.\<close>

definition hev_socks5_user_construct ::
  "byte list \<Rightarrow> nat \<Rightarrow> byte list \<Rightarrow> nat \<Rightarrow> HevSocks5User option" where
  "hev_socks5_user_construct name name_len pass pass_len = do {
     n \<leftarrow> mem_read name 0 name_len;
     p \<leftarrow> mem_read pass 0 pass_len;
     Some \<lparr>user_name = n, user_pass = p\<rparr>
   }"

definition hev_socks5_user_new ::
  "byte list \<Rightarrow> nat \<Rightarrow> byte list \<Rightarrow> nat \<Rightarrow> world \<Rightarrow> (HevSocks5User option \<times> world) option" where
  "hev_socks5_user_new name name_len pass pass_len w = do {
     let (got, w) = sys_malloc w;
     if \<not> got then Some (None, w)
     else do {
       self \<leftarrow> hev_socks5_user_construct name name_len pass pass_len;
       Some (Some self, w)
     }
   }"

definition hev_socks5_user_checker :: "HevSocks5User \<Rightarrow> byte list \<Rightarrow> nat \<Rightarrow> int option" where
  "hev_socks5_user_checker self pass pass_len =
     (if length (user_pass self) \<noteq> pass_len then Some (-1)
      else do {
        p \<leftarrow> mem_read pass 0 pass_len;
        Some (if user_pass self \<noteq> p then -1 else 0)
      })"

definition hev_socks5_user_check :: "HevSocks5User \<Rightarrow> byte list \<Rightarrow> nat \<Rightarrow> int option" where
  "hev_socks5_user_check self pass pass_len = hev_socks5_user_checker self pass pass_len"

section \<open>The server object\<close>

datatype 'au server_obj = NoObj | AuthObj 'au | UserObj HevSocks5User

record 'au HevSocks5Server = HevSocks5 +
  srv_fd0 :: int
  srv_fd1 :: int
  srv_obj :: "'au server_obj"

definition hev_socks5_server_construct ::
  "('au, 'a) HevSocks5Server_scheme \<Rightarrow> int \<Rightarrow> ('au, 'a) HevSocks5Server_scheme" where
  "hev_socks5_server_construct self fd =
     (hev_socks5_construct self HEV_SOCKS5_TYPE_NONE)\<lparr>sk_fd := fd, srv_fd0 := -1, srv_fd1 := -1\<rparr>"

definition HevSocks5Server_zero :: "'au HevSocks5Server" where
  "HevSocks5Server_zero =
     \<lparr>sk_fd = 0, sk_timeout = 0, sk_udp_associated = False, sk_type = HEV_SOCKS5_TYPE_NONE,
      sk_addr_family = 0, srv_fd0 = 0, srv_fd1 = 0, srv_obj = NoObj\<rparr>"

definition hev_socks5_server_new :: "int \<Rightarrow> world \<Rightarrow> 'au HevSocks5Server option \<times> world" where
  "hev_socks5_server_new fd w =
     (let (got, w) = sys_malloc w
      in if \<not> got then (None, w)
         else (Some (hev_socks5_server_construct HevSocks5Server_zero fd), w))"

definition hev_socks5_server_set_auth ::
  "('au, 'a) HevSocks5Server_scheme \<Rightarrow> 'au \<Rightarrow> ('au, 'a) HevSocks5Server_scheme" where
  "hev_socks5_server_set_auth self auth = self\<lparr>srv_obj := AuthObj auth\<rparr>"

definition hev_socks5_server_destruct :: "('au, 'a) HevSocks5Server_scheme \<Rightarrow> world \<Rightarrow> world" where
  "hev_socks5_server_destruct self w =
     (let w = (if srv_fd0 self \<ge> 0 then sys_close (srv_fd0 self) w else w);
          w = (if srv_fd1 self \<ge> 0 then sys_close (srv_fd1 self) w else w)
      in hev_socks5_destruct self w)"

definition hev_socks5_server_get_fd :: "('au, 'a) HevSocks5Server_scheme \<Rightarrow> int" where
  "hev_socks5_server_get_fd self =
     (case sk_type self of
        HEV_SOCKS5_TYPE_UDP_IN_TCP \<Rightarrow> sk_fd self
      | HEV_SOCKS5_TYPE_UDP_IN_UDP \<Rightarrow> srv_fd1 self
      | _ \<Rightarrow> -1)"

section \<open>Authentication\<close>

definition hev_socks5_server_read_auth_method ::
  "('au, 'a) HevSocks5Server_scheme \<Rightarrow> world \<Rightarrow> int \<times> world" where
  "hev_socks5_server_read_auth_method self w =
     (let (res, hd, w) = hev_task_io_socket_recv 2 True False w
      in if res \<noteq> 2 then (-1, w)
         else if hd ! 0 \<noteq> HEV_SOCKS5_VERSION_5 then (-1, w)
         else
           let method_len = unat (hd ! 1);
               (res, methods, w) = hev_task_io_socket_recv method_len True False w
           in if res \<noteq> int method_len then (-1, w)
              else
                let meth = (if srv_obj self \<noteq> NoObj then HEV_SOCKS5_AUTH_METHOD_USER
                            else HEV_SOCKS5_AUTH_METHOD_NONE)
                in (if meth \<in> set methods then uint meth else -1, w))"

definition hev_socks5_server_write_auth_method ::
  "('au, 'a) HevSocks5Server_scheme \<Rightarrow> int \<Rightarrow> world \<Rightarrow> int \<times> world" where
  "hev_socks5_server_write_auth_method self auth_method w =
     (let (res, w) = hev_task_io_socket_send [HEV_SOCKS5_VERSION_5, word_of_int auth_method] True False w
      in (if res \<le> 0 then -1 else 0, w))"

text \<open>The lookup takes the authenticator and the name; the check follows.\<close>

definition hev_socks5_server_read_auth_user ::
  "('au \<Rightarrow> byte list \<Rightarrow> HevSocks5User option) \<Rightarrow> ('au, 'a) HevSocks5Server_scheme \<Rightarrow> world \<Rightarrow>
   (int \<times> ('au, 'a) HevSocks5Server_scheme \<times> world) option" where
  "hev_socks5_server_read_auth_user authenticator_get self w = do {
     let (res, head, w) = hev_task_io_socket_recv 2 True False w;
     if res \<noteq> 2 then Some (-1, self, w)
     else if head ! 0 \<noteq> 1 then Some (-1, self, w)
     else do {
       let nlen = unat (head ! 1);
       if nlen = 0 then Some (-1, self, w)
       else do {
         let (res, name, w) = hev_task_io_socket_recv (nlen + 1) True False w;
         if res \<noteq> int (nlen + 1) then Some (-1, self, w)
         else do {
           let plen = unat (name ! nlen);
           if plen = 0 then Some (-1, self, w)
           else do {
             let (res, pass, w) = hev_task_io_socket_recv plen True False w;
             if res \<noteq> int plen then Some (-1, self, w)
             else do {
               auth \<leftarrow> (case srv_obj self of AuthObj auth \<Rightarrow> Some auth | _ \<Rightarrow> None);
               nm \<leftarrow> mem_read name 0 nlen;
               case authenticator_get auth nm of
                 None \<Rightarrow> Some (-1, self, w)
               | Some user \<Rightarrow> do {
                   res \<leftarrow> hev_socks5_user_check user pass plen;
                   if res < 0 then Some (-1, self, w)
                   else Some (0, self\<lparr>srv_obj := UserObj user\<rparr>, w)
                 }
             }
           }
         }
       }
     }
   }"

definition hev_socks5_server_write_auth_user ::
  "('au, 'a) HevSocks5Server_scheme \<Rightarrow> int \<Rightarrow> world \<Rightarrow> int \<times> world" where
  "hev_socks5_server_write_auth_user self auth_res w =
     (let (res, w) = hev_task_io_socket_send [1, word_of_int auth_res] True False w
      in (if res \<le> 0 then -1 else 0, w))"

text \<open>The bitwise or of two results that are 0 or -1 is negative when one of them is.\<close>

definition hev_socks5_server_auth ::
  "('au \<Rightarrow> byte list \<Rightarrow> HevSocks5User option) \<Rightarrow> ('au, 'a) HevSocks5Server_scheme \<Rightarrow> world \<Rightarrow>
   (int \<times> ('au, 'a) HevSocks5Server_scheme \<times> world) option" where
  "hev_socks5_server_auth authenticator_get self w = do {
     let (meth, w) = hev_socks5_server_read_auth_method self w;
     let (res, w) = hev_socks5_server_write_auth_method self meth w;
     if res < 0 then Some (-1, self, w)
     else if meth = uint HEV_SOCKS5_AUTH_METHOD_NONE then Some (0, self, w)
     else if meth = uint HEV_SOCKS5_AUTH_METHOD_USER then do {
       (res, self, w) \<leftarrow> hev_socks5_server_read_auth_user authenticator_get self w;
       let (res2, w) = hev_socks5_server_write_auth_user self res w;
       Some (if res < 0 \<or> res2 < 0 then -1 else 0, self, w)
     }
     else Some (-1, self, w)
   }"

section \<open>Requests and responses\<close>

text \<open>
  \<open>cmd\<close> stays unassigned unless the request is read to the end, and \<open>rep\<close> is the reply
  code so far.
\<close>

definition hev_socks5_server_read_request ::
  "resolver \<Rightarrow> ('au, 'a) HevSocks5Server_scheme \<Rightarrow> byte option \<Rightarrow> byte \<Rightarrow> sockaddr_in6 \<Rightarrow> world \<Rightarrow>
   (int \<times> byte option \<times> byte \<times> sockaddr_in6 \<times> ('au, 'a) HevSocks5Server_scheme \<times> world) option" where
  "hev_socks5_server_read_request rs self cmd rep addr w = do {
     let (res, req, w) = hev_task_io_socket_recv 5 True False w;
     if res \<noteq> 5 then Some (-1, cmd, rep, addr, self, w)
     else if req ! 0 \<noteq> HEV_SOCKS5_VERSION_5
     then Some (0, cmd, HEV_SOCKS5_RES_REP_FAIL, addr, self, w)
     else do {
       let addrlen = (if req ! 3 = HEV_SOCKS5_ADDR_TYPE_IPV4 then Some 5
                      else if req ! 3 = HEV_SOCKS5_ADDR_TYPE_IPV6 then Some 17
                      else if req ! 3 = HEV_SOCKS5_ADDR_TYPE_NAME then Some (2 + unat (req ! 4))
                      else None);
       case addrlen of
         None \<Rightarrow> Some (0, cmd, HEV_SOCKS5_RES_REP_ADDR, addr, self, w)
       | Some addrlen \<Rightarrow> do {
           let (res, bs, w) = hev_task_io_socket_recv addrlen True False w;
           if res \<noteq> int addrlen then Some (0, cmd, HEV_SOCKS5_RES_REP_ADDR, addr, self, w)
           else do {
             b \<leftarrow> mem_write (w_junk w) 0 [req ! 4];
             b \<leftarrow> mem_write b 1 bs;
             (res, addr, addr_family) \<leftarrow> hev_socks5_addr_into_sockaddr6 rs
               \<lparr>atype = req ! 3, body = b\<rparr> addr (hev_socks5_get_addr_family self);
             if res < 0 then Some (0, cmd, HEV_SOCKS5_RES_REP_ADDR, addr, self, w)
             else do {
               let self = hev_socks5_set_addr_family self addr_family;
               Some (0, Some (req ! 1), rep, addr, self, w)
             }
           }
         }
     }
   }"

definition hev_socks5_server_write_response ::
  "('au, 'a) HevSocks5Server_scheme \<Rightarrow> byte \<Rightarrow> sockaddr_in6 \<Rightarrow> world \<Rightarrow> (int \<times> world) option" where
  "hev_socks5_server_write_response self rep addr w = do {
     (ret, a) \<leftarrow> hev_socks5_addr_from_sockaddr6 \<lparr>atype = 0, body = w_junk w\<rparr> addr;
     bs \<leftarrow> mem_read (addr_bytes a) 0 (nat ret);
     let (ret, w) = hev_task_io_socket_send ([HEV_SOCKS5_VERSION_5, rep, 0] @ bs) True False w;
     Some (if ret \<le> 0 then -1 else 0, w)
   }"

section \<open>Connecting and binding\<close>

definition hev_socks5_server_connect ::
  "socks5_settings \<Rightarrow>
   (('au, 'a) HevSocks5Server_scheme \<Rightarrow> int \<Rightarrow> sockaddr_in6 \<Rightarrow> world \<Rightarrow> int \<times> world) \<Rightarrow>
   ('au, 'a) HevSocks5Server_scheme \<Rightarrow> sockaddr_in6 \<Rightarrow> world \<Rightarrow>
   int \<times> ('au, 'a) HevSocks5Server_scheme \<times> world" where
  "hev_socks5_server_connect cfg binder self addr w =
     (let (fd, w) = hev_socks5_socket SOCK_STREAM w
      in if fd < 0 then (-1, self, w)
         else
           let (res, w) = binder self fd addr w
           in if res < 0 then (-1, self, sys_close fd w)
              else
                let self = hev_socks5_set_timeout self (hev_socks5_get_connect_timeout cfg);
                    (res, w) = sys_result w
                in if res < 0 then (-1, self, sys_close fd w)
                   else
                     let self = hev_socks5_set_timeout self (hev_socks5_get_tcp_timeout cfg)
                     in (0, self\<lparr>srv_fd0 := fd\<rparr>, w))"

text \<open>\<open>getsockname\<close>: the next scripted name.\<close>

definition sys_getsockname :: "sockaddr_in6 \<Rightarrow> world \<Rightarrow> int \<times> sockaddr_in6 \<times> world" where
  "sys_getsockname sa w =
     (case w_names w of
        [] \<Rightarrow> (-1, sa, w)
      | (r, ip, port) # ns \<Rightarrow>
          (r, if r < 0 then sa
              else \<lparr>sin6_family = HEV_SOCKS5_ADDR_FAMILY_IPV6, sin6_port = port, sin6_addr = ip\<rparr>,
           w\<lparr>w_names := ns\<rparr>))"

definition hev_socks5_server_udp_bind ::
  "('au, 'a) HevSocks5Server_scheme \<Rightarrow> int \<Rightarrow> sockaddr_in6 \<Rightarrow> world \<Rightarrow> int \<times> sockaddr_in6 \<times> world" where
  "hev_socks5_server_udp_bind self sock src w =
     (let (res, src, w) = sys_getsockname src w
      in if res < 0 then (-1, src, w)
         else
           let src = src\<lparr>sin6_port := 0\<rparr>;
               (res, w) = sys_result w
           in if res < 0 then (-1, src, w)
              else
                let (res, src, w) = sys_getsockname src w
                in if res < 0 then (-1, src, w) else (0, src, w))"

text \<open>\<open>addr = None\<close> is the NULL that a UDP in TCP request passes.\<close>

definition hev_socks5_server_bind ::
  "('au, 'a) HevSocks5Server_scheme \<Rightarrow> sockaddr_in6 option \<Rightarrow> world \<Rightarrow>
   int \<times> sockaddr_in6 option \<times> ('au, 'a) HevSocks5Server_scheme \<times> world" where
  "hev_socks5_server_bind self addr w =
     (let (fd, w) = hev_socks5_socket SOCK_DGRAM w
      in if fd < 0 then (-1, addr, self, w)
         else
           let self = self\<lparr>srv_fd0 := fd\<rparr>
           in case addr of
                None \<Rightarrow> (0, addr, self, w)
              | Some sa \<Rightarrow>
                  let (fd, w) = hev_socks5_socket SOCK_DGRAM w
                  in if fd < 0 then (-1, addr, self, w)
                     else
                       let (res, w) = sys_result w
                       in if res < 0 then (-1, addr, self, sys_close fd w)
                          else
                            let (res, sa, w) = hev_socks5_server_udp_bind self fd sa w
                            in if res < 0 then (-1, Some sa, self, sys_close fd w)
                               else (0, Some sa, self\<lparr>srv_fd1 := fd\<rparr>, w))"

section \<open>The session of one client\<close>

definition hev_socks5_server_handshake ::
  "socks5_settings \<Rightarrow> resolver \<Rightarrow> ('au \<Rightarrow> byte list \<Rightarrow> HevSocks5User option) \<Rightarrow>
   (('au, 'a) HevSocks5Server_scheme \<Rightarrow> int \<Rightarrow> sockaddr_in6 \<Rightarrow> world \<Rightarrow> int \<times> world) \<Rightarrow>
   ('au, 'a) HevSocks5Server_scheme \<Rightarrow> world \<Rightarrow> (int \<times> ('au, 'a) HevSocks5Server_scheme \<times> world) option" where
  "hev_socks5_server_handshake cfg rs authenticator_get binder self w = do {
     let self = hev_socks5_set_timeout self (hev_socks5_get_tcp_timeout cfg);
     (res, self, w) \<leftarrow> hev_socks5_server_auth authenticator_get self w;
     if res < 0 then Some (-1, self, w)
     else do {
       let addr = \<lparr>sin6_family = 0, sin6_port = 0, sin6_addr = take 16 (w_junk w)\<rparr>;
       (res, cmd, rep, addr, self, w) \<leftarrow>
         hev_socks5_server_read_request rs self None HEV_SOCKS5_RES_REP_SUCC addr w;
       if res < 0 then Some (-1, self, w)
       else do {
         (rep, addr, self, w) \<leftarrow>
           (if rep = HEV_SOCKS5_RES_REP_SUCC then do {
              cmd \<leftarrow> cmd;
              if cmd = HEV_SOCKS5_REQ_CMD_CONNECT then do {
                let (res, self, w) = hev_socks5_server_connect cfg binder self addr w;
                Some (if res < 0 then HEV_SOCKS5_RES_REP_HOST else rep, addr,
                      self\<lparr>sk_type := HEV_SOCKS5_TYPE_TCP\<rparr>, w)
              }
              else if cmd = HEV_SOCKS5_REQ_CMD_UDP_ASC then do {
                let (res, addr', self, w) = hev_socks5_server_bind self (Some addr) w;
                addr \<leftarrow> addr';
                Some (if res < 0 then HEV_SOCKS5_RES_REP_FAIL else rep, addr,
                      self\<lparr>sk_type := HEV_SOCKS5_TYPE_UDP_IN_UDP\<rparr>, w)
              }
              else if cmd = HEV_SOCKS5_REQ_CMD_FWD_UDP then do {
                let (res, _, self, w) = hev_socks5_server_bind self None w;
                Some (if res < 0 then HEV_SOCKS5_RES_REP_FAIL else rep, addr,
                      self\<lparr>sk_type := HEV_SOCKS5_TYPE_UDP_IN_TCP\<rparr>, w)
              }
              else Some (HEV_SOCKS5_RES_REP_IMPL, addr, self, w)
            }
            else Some (rep, addr, self, w));
         (res, w) \<leftarrow> hev_socks5_server_write_response self rep addr w;
         Some (if res < 0 \<or> rep \<noteq> HEV_SOCKS5_RES_REP_SUCC then -1 else 0, self, w)
       }
     }
   }"

text \<open>The two splicers, \<open>fuel\<close> bounding the rounds of the UDP one; \<open>Some None\<close> is a relay
  that is still running then.\<close>

definition hev_socks5_server_service ::
  "socks5_settings \<Rightarrow> resolver \<Rightarrow> (int \<Rightarrow> int \<Rightarrow> world \<Rightarrow> world) \<Rightarrow>
   (('au, 'a) HevSocks5Server_scheme \<Rightarrow> int \<Rightarrow> sockaddr_in6 \<Rightarrow> world \<Rightarrow> int \<times> world) \<Rightarrow>
   byte list list \<Rightarrow> byte list list \<Rightarrow> nat \<Rightarrow> ('au, 'a) HevSocks5Server_scheme \<Rightarrow>
   dgram_sock \<Rightarrow> dgram_sock \<Rightarrow> world \<Rightarrow>
   (int \<times> ('au, 'a) HevSocks5Server_scheme \<times> dgram_sock \<times> dgram_sock \<times> world) option option" where
  "hev_socks5_server_service cfg rs io_splice binder bufs_f bufs_b fuel self da db w =
     (case sk_type self of
        HEV_SOCKS5_TYPE_TCP \<Rightarrow>
          let (_, w) = hev_socks5_tcp_splicer io_splice self (srv_fd0 self) w
          in Some (Some (0, self, da, db, w))
      | HEV_SOCKS5_TYPE_NONE \<Rightarrow> Some (Some (-1, self, da, db, w))
      | _ \<Rightarrow> do {
          let self = hev_socks5_set_timeout self (hev_socks5_get_udp_timeout cfg);
          r \<leftarrow> hev_socks5_udp_splicer rs binder bufs_f bufs_b fuel self (srv_fd0 self) da db w;
          Some (map_option (\<lambda>(_, self, da, db, w). (0, self, da, db, w)) r)
        })"

definition hev_socks5_server_run ::
  "socks5_settings \<Rightarrow> resolver \<Rightarrow> ('au \<Rightarrow> byte list \<Rightarrow> HevSocks5User option) \<Rightarrow>
   (int \<Rightarrow> int \<Rightarrow> world \<Rightarrow> world) \<Rightarrow>
   (('au, 'a) HevSocks5Server_scheme \<Rightarrow> int \<Rightarrow> sockaddr_in6 \<Rightarrow> world \<Rightarrow> int \<times> world) \<Rightarrow>
   byte list list \<Rightarrow> byte list list \<Rightarrow> nat \<Rightarrow> ('au, 'a) HevSocks5Server_scheme \<Rightarrow>
   dgram_sock \<Rightarrow> dgram_sock \<Rightarrow> world \<Rightarrow>
   (int \<times> ('au, 'a) HevSocks5Server_scheme \<times> dgram_sock \<times> dgram_sock \<times> world) option option" where
  "hev_socks5_server_run cfg rs authenticator_get io_splice binder bufs_f bufs_b fuel self da db w = do {
     (res, self, w) \<leftarrow> hev_socks5_server_handshake cfg rs authenticator_get binder self w;
     if res < 0 then Some (Some (-1, self, da, db, w))
     else hev_socks5_server_service cfg rs io_splice binder bufs_f bufs_b fuel self da db w
   }"

end
