(* ===== verification/Config.thy ===== *)
theory Config
  imports Prelude
begin

text \<open>
  The configuration of \<open>hev-config.c\<close>: its file scope variables are a record, the parsed
  YAML document (libyaml's) is the input, and every \<open>hev_config_parse_...\<close> function
  updates the record pair by pair, as its loop does, stopping at the first pair it cannot use.
  Character arrays keep their size; what \<open>strncpy\<close> leaves of them is zero.
\<close>

section \<open>Numbers and strings of the C library\<close>

definition cs :: "string \<Rightarrow> byte list" where
  "cs s = map of_char s"

fun c_tolower :: "byte \<Rightarrow> byte" where
  "c_tolower b = (if 65 \<le> b \<and> b \<le> 90 then b + 32 else b)"

text \<open>Whether \<open>strcasecmp\<close> returns 0.\<close>

definition c_strcaseeq :: "byte list \<Rightarrow> byte list \<Rightarrow> bool" where
  "c_strcaseeq a b \<longleftrightarrow> map c_tolower a = map c_tolower b"

definition c_isspace :: "byte \<Rightarrow> bool" where
  "c_isspace b \<longleftrightarrow> b = 32 \<or> 9 \<le> b \<and> b \<le> 13"

definition digit_value :: "nat \<Rightarrow> byte \<Rightarrow> nat option" where
  "digit_value base b =
     (let v = (if 48 \<le> b \<and> b \<le> 57 then unat b - 48
               else if 97 \<le> b \<and> b \<le> 122 then unat b - 87
               else if 65 \<le> b \<and> b \<le> 90 then unat b - 55 else 36)
      in if v < base then Some v else None)"

fun digits_value :: "nat \<Rightarrow> nat \<Rightarrow> byte list \<Rightarrow> nat" where
  "digits_value base acc [] = acc"
| "digits_value base acc (b # bs) =
     (case digit_value base b of None \<Rightarrow> acc | Some v \<Rightarrow> digits_value base (acc * base + v) bs)"

text \<open>The sign, and the digits with their base; base 0 takes it from the prefix.\<close>

definition strtoul_parts :: "nat \<Rightarrow> byte list \<Rightarrow> bool \<times> nat" where
  "strtoul_parts base s =
     (let s = dropWhile c_isspace s;
          (neg, s) = (case s of
              b # bs \<Rightarrow> if b = 45 then (True, bs) else if b = 43 then (False, bs) else (False, s)
            | [] \<Rightarrow> (False, s));
          hex = (\<lambda>s. case s of z # x # d # _ \<Rightarrow> z = 48 \<and> c_tolower x = 120 \<and> digit_value 16 d \<noteq> None
                   | _ \<Rightarrow> False);
          (base, s) =
            (if base = 0 then (if hex s then (16, drop 2 s) else if take 1 s = [48] then (8, s) else (10, s))
             else if base = 16 \<and> hex s then (16, drop 2 s) else (base, s))
      in (neg, digits_value base 0 s))"

definition c_strtoul :: "nat \<Rightarrow> byte list \<Rightarrow> size_t" where
  "c_strtoul base s =
     (let (neg, v) = strtoul_parts base s
      in if 2 ^ 64 \<le> v then - 1 else if neg then - word_of_nat v else word_of_nat v)"

definition c_strtol :: "nat \<Rightarrow> byte list \<Rightarrow> int" where
  "c_strtol base s =
     (let (neg, v) = strtoul_parts base s
      in if neg then max (- (2 ^ 63)) (- int v) else min (2 ^ 63 - 1) (int v))"

text \<open>Conversion of an \<open>unsigned long\<close> to \<open>int\<close> and of a \<open>long\<close> to \<open>int\<close>.\<close>

definition ul_int :: "size_t \<Rightarrow> int" where
  "ul_int v = sint (ucast v :: u32)"

definition long_int :: "int \<Rightarrow> int" where
  "long_int v = sint (word_of_int v :: u32)"

text \<open>\<open>strncpy (buf, s, sizeof (buf) - 1)\<close> into an array, and the string it holds.\<close>

definition copy_string :: "byte list \<Rightarrow> byte list \<Rightarrow> nat \<Rightarrow> byte list" where
  "copy_string buf s n = write_at buf 0 (c_strncpy s n)"

definition buf_string :: "byte list \<Rightarrow> byte list option" where
  "buf_string buf = (if hd buf = 0 then None else c_string buf)"

section \<open>Documents\<close>

text \<open>The nodes of a document are numbered from 1; pairs name their key and value nodes.\<close>

datatype yaml_node =
  YAML_SCALAR_NODE "byte list"
| YAML_SEQUENCE_NODE "nat list"
| YAML_MAPPING_NODE "(nat \<times> nat) list"

type_synonym yaml_document = "yaml_node list"

definition yaml_document_get_node :: "yaml_document \<Rightarrow> nat \<Rightarrow> yaml_node option" where
  "yaml_document_get_node doc i = (if 0 < i \<and> i \<le> length doc then Some (doc ! (i - 1)) else None)"

definition yaml_document_get_root_node :: "yaml_document \<Rightarrow> yaml_node option" where
  "yaml_document_get_root_node doc = (case doc of [] \<Rightarrow> None | n # _ \<Rightarrow> Some n)"

definition yaml_scalar :: "yaml_document \<Rightarrow> nat \<Rightarrow> byte list option" where
  "yaml_scalar doc i =
     (case yaml_document_get_node doc i of Some (YAML_SCALAR_NODE s) \<Rightarrow> Some s | _ \<Rightarrow> None)"

text \<open>The pairs a loop visits before it breaks: both numbers are set, the key is a scalar,
  and the value node is one the section can use.\<close>

fun yaml_visited ::
  "(nat \<Rightarrow> 'v option) \<Rightarrow> yaml_document \<Rightarrow> (nat \<times> nat) list \<Rightarrow> (byte list \<times> 'v) list" where
  "yaml_visited val doc [] = []"
| "yaml_visited val doc ((k, v) # ps) =
     (if k = 0 \<or> v = 0 then []
      else case yaml_scalar doc k of
        None \<Rightarrow> []
      | Some key \<Rightarrow>
          (case val v of None \<Rightarrow> [] | Some value \<Rightarrow> (key, value) # yaml_visited val doc ps))"

definition scalar_pairs :: "yaml_document \<Rightarrow> (nat \<times> nat) list \<Rightarrow> (byte list \<times> byte list) list" where
  "scalar_pairs doc ps = yaml_visited (yaml_scalar doc) doc ps"

section \<open>The variables\<close>

record HevConfigServer =
  srv_user :: "byte list option"
  srv_pass :: "byte list option"
  srv_mark :: u32
  srv_udp_in_udp :: bool
  srv_port :: u16
  srv_pipeline :: bool
  srv_udp_addr :: "byte list"
  srv_addr :: "byte list"

datatype HevLoggerLevel =
  HEV_LOGGER_DEBUG | HEV_LOGGER_INFO | HEV_LOGGER_WARN | HEV_LOGGER_ERROR | HEV_LOGGER_UNSET

record hev_config =
  cf_tun_name :: "byte list"
  cf_tun_mtu :: u32
  cf_multi_queue :: bool
  cf_tun_ipv4 :: "byte list"
  cf_tun_ipv6 :: "byte list"
  cf_post_up :: "byte list"
  cf_pre_down :: "byte list"
  cf_srv :: HevConfigServer
  cf_mapdns_address :: u32
  cf_mapdns_port :: int
  cf_mapdns_network :: u32
  cf_mapdns_netmask :: u32
  cf_mapdns_cache_size :: int
  cf_log_file :: "byte list"
  cf_pid_file :: "byte list"
  cf_max_session_count :: int
  cf_task_stack_size :: int
  cf_tcp_buffer_size :: int
  cf_udp_recv_buffer_size :: int
  cf_udp_copy_buffer_nums :: int
  cf_connect_timeout :: int
  cf_tcp_rw_timeout :: int
  cf_udp_rw_timeout :: int
  cf_limit_nofile :: int
  cf_log_level :: HevLoggerLevel

definition hev_config_default :: hev_config where
  "hev_config_default =
     \<lparr>cf_tun_name = replicate 64 0, cf_tun_mtu = 8500, cf_multi_queue = False,
      cf_tun_ipv4 = replicate 16 0, cf_tun_ipv6 = replicate 64 0,
      cf_post_up = replicate 1024 0, cf_pre_down = replicate 1024 0,
      cf_srv = \<lparr>srv_user = None, srv_pass = None, srv_mark = 0, srv_udp_in_udp = False,
        srv_port = 0, srv_pipeline = False, srv_udp_addr = replicate 256 0,
        srv_addr = replicate 256 0\<rparr>,
      cf_mapdns_address = 0, cf_mapdns_port = 0, cf_mapdns_network = 0, cf_mapdns_netmask = 0,
      cf_mapdns_cache_size = 0, cf_log_file = replicate 1024 0, cf_pid_file = replicate 1024 0,
      cf_max_session_count = 0, cf_task_stack_size = 86016, cf_tcp_buffer_size = 65536,
      cf_udp_recv_buffer_size = 524288, cf_udp_copy_buffer_nums = 10,
      cf_connect_timeout = 10000, cf_tcp_rw_timeout = 300000, cf_udp_rw_timeout = 60000,
      cf_limit_nofile = 65535, cf_log_level = HEV_LOGGER_WARN\<rparr>"

section \<open>The tunnel section\<close>

definition hev_config_parse_tunnel_ipv4 ::
  "yaml_document \<Rightarrow> yaml_node option \<Rightarrow> hev_config \<Rightarrow> int \<times> hev_config" where
  "hev_config_parse_tunnel_ipv4 doc base cf =
     (case base of
        Some (YAML_MAPPING_NODE ps) \<Rightarrow>
          (0, fold (\<lambda>(key, value) cf.
                if key = cs ''address''
                then cf\<lparr>cf_tun_ipv4 := copy_string (cf_tun_ipv4 cf) value 15\<rparr> else cf)
              (scalar_pairs doc ps) cf)
      | _ \<Rightarrow> (-1, cf))"

definition hev_config_parse_tunnel_ipv6 ::
  "yaml_document \<Rightarrow> yaml_node option \<Rightarrow> hev_config \<Rightarrow> int \<times> hev_config" where
  "hev_config_parse_tunnel_ipv6 doc base cf =
     (case base of
        Some (YAML_MAPPING_NODE ps) \<Rightarrow>
          (0, fold (\<lambda>(key, value) cf.
                if key = cs ''address''
                then cf\<lparr>cf_tun_ipv6 := copy_string (cf_tun_ipv6 cf) value 63\<rparr> else cf)
              (scalar_pairs doc ps) cf)
      | _ \<Rightarrow> (-1, cf))"

definition tunnel_scalar :: "byte list \<Rightarrow> byte list \<Rightarrow> hev_config \<Rightarrow> hev_config" where
  "tunnel_scalar key value cf =
     (if key = cs ''name'' then cf\<lparr>cf_tun_name := copy_string (cf_tun_name cf) value 63\<rparr>
      else if key = cs ''mtu'' then cf\<lparr>cf_tun_mtu := ucast (c_strtoul 10 value)\<rparr>
      else if key = cs ''multi-queue''
      then cf\<lparr>cf_multi_queue := \<not> c_strcaseeq value (cs ''false'')\<rparr>
      else if key = cs ''ipv4'' then cf\<lparr>cf_tun_ipv4 := copy_string (cf_tun_ipv4 cf) value 15\<rparr>
      else if key = cs ''ipv6'' then cf\<lparr>cf_tun_ipv6 := copy_string (cf_tun_ipv6 cf) value 63\<rparr>
      else if key = cs ''post-up-script''
      then cf\<lparr>cf_post_up := copy_string (cf_post_up cf) value 63\<rparr>
      else if key = cs ''pre-down-script''
      then cf\<lparr>cf_pre_down := copy_string (cf_pre_down cf) value 63\<rparr>
      else cf)"

definition hev_config_parse_tunnel ::
  "yaml_document \<Rightarrow> yaml_node option \<Rightarrow> hev_config \<Rightarrow> int \<times> hev_config" where
  "hev_config_parse_tunnel doc base cf =
     (case base of
        Some (YAML_MAPPING_NODE ps) \<Rightarrow>
          (0, fold (\<lambda>(key, node) cf.
                case node of
                  YAML_SCALAR_NODE value \<Rightarrow> tunnel_scalar key value cf
                | _ \<Rightarrow>
                    if key = cs ''ipv4'' then snd (hev_config_parse_tunnel_ipv4 doc (Some node) cf)
                    else if key = cs ''ipv6''
                    then snd (hev_config_parse_tunnel_ipv6 doc (Some node) cf)
                    else cf)
              (yaml_visited (yaml_document_get_node doc) doc ps) cf)
      | _ \<Rightarrow> (-1, cf))"

section \<open>The socks5 section\<close>

record socks5_section =
  ss_addr :: "byte list option"
  ss_port :: "byte list option"
  ss_udpm :: "byte list option"
  ss_udpa :: "byte list option"
  ss_user :: "byte list option"
  ss_pass :: "byte list option"
  ss_mark :: "byte list option"
  ss_pipe :: "byte list option"

definition socks5_scalar :: "byte list \<times> byte list \<Rightarrow> socks5_section \<Rightarrow> socks5_section" where
  "socks5_scalar kv ss =
     (let (key, value) = kv in
      if key = cs ''port'' then ss\<lparr>ss_port := Some value\<rparr>
      else if key = cs ''address'' then ss\<lparr>ss_addr := Some value\<rparr>
      else if key = cs ''udp'' then ss\<lparr>ss_udpm := Some value\<rparr>
      else if key = cs ''udp-address'' then ss\<lparr>ss_udpa := Some value\<rparr>
      else if key = cs ''pipeline'' then ss\<lparr>ss_pipe := Some value\<rparr>
      else if key = cs ''username'' then ss\<lparr>ss_user := Some value\<rparr>
      else if key = cs ''password'' then ss\<lparr>ss_pass := Some value\<rparr>
      else if key = cs ''mark'' then ss\<lparr>ss_mark := Some value\<rparr>
      else ss)"

text \<open>\<open>_user\<close> and \<open>_pass\<close> are static arrays of 256 bytes.\<close>

definition hev_config_parse_socks5 ::
  "yaml_document \<Rightarrow> yaml_node option \<Rightarrow> hev_config \<Rightarrow> int \<times> hev_config" where
  "hev_config_parse_socks5 doc base cf =
     (case base of
        Some (YAML_MAPPING_NODE ps) \<Rightarrow>
          let ss = fold socks5_scalar (scalar_pairs doc ps)
                \<lparr>ss_addr = None, ss_port = None, ss_udpm = None, ss_udpa = None, ss_user = None,
                 ss_pass = None, ss_mark = None, ss_pipe = None\<rparr>
          in case (ss_port ss, ss_addr ss) of
               (Some port, Some addr) \<Rightarrow>
                 if (ss_user ss = None) \<noteq> (ss_pass ss = None) then (-1, cf)
                 else
                   let srv = cf_srv cf;
                       srv = srv\<lparr>srv_addr := copy_string (srv_addr srv) addr 255,
                                 srv_port := ucast (c_strtoul 10 port)\<rparr>;
                       srv = (case ss_pipe ss of
                           Some s \<Rightarrow> if c_strcaseeq s (cs ''true'') then srv\<lparr>srv_pipeline := True\<rparr> else srv
                         | None \<Rightarrow> srv);
                       srv = (case ss_udpm ss of
                           Some s \<Rightarrow> if c_strcaseeq s (cs ''udp'') then srv\<lparr>srv_udp_in_udp := True\<rparr> else srv
                         | None \<Rightarrow> srv);
                       srv = (case ss_udpa ss of
                           Some s \<Rightarrow> srv\<lparr>srv_udp_addr := copy_string (srv_udp_addr srv) s 255\<rparr>
                         | None \<Rightarrow> srv);
                       srv = (case (ss_user ss, ss_pass ss) of
                           (Some user, Some pass) \<Rightarrow>
                             srv\<lparr>srv_user := Some (take 255 user), srv_pass := Some (take 255 pass)\<rparr>
                         | _ \<Rightarrow> srv);
                       srv = (case ss_mark ss of
                           Some s \<Rightarrow> srv\<lparr>srv_mark := ucast (c_strtoul 0 s)\<rparr>
                         | None \<Rightarrow> srv)
                   in (0, cf\<lparr>cf_srv := srv\<rparr>)
             | _ \<Rightarrow> (-1, cf)
      | _ \<Rightarrow> (-1, cf))"

section \<open>The mapdns section\<close>

text \<open>\<open>inet_pton\<close> stores the four address bytes where it accepts the text, which a host
  word reads with the first byte lowest.\<close>

definition inet_word :: "(byte list \<Rightarrow> byte list option) \<Rightarrow> byte list \<Rightarrow> u32 \<Rightarrow> u32" where
  "inet_word pton4 s old =
     (case pton4 s of Some [a, b, c, d] \<Rightarrow> bytes_u32 a b c d | _ \<Rightarrow> old)"

definition mapdns_scalar ::
  "(byte list \<Rightarrow> byte list option) \<Rightarrow> byte list \<times> byte list \<Rightarrow> hev_config \<Rightarrow> hev_config" where
  "mapdns_scalar pton4 kv cf =
     (let (key, value) = kv in
      if key = cs ''address''
      then cf\<lparr>cf_mapdns_address := inet_word pton4 value (cf_mapdns_address cf)\<rparr>
      else if key = cs ''port'' then cf\<lparr>cf_mapdns_port := ul_int (c_strtoul 10 value)\<rparr>
      else if key = cs ''network''
      then cf\<lparr>cf_mapdns_network := inet_word pton4 value (cf_mapdns_network cf)\<rparr>
      else if key = cs ''netmask''
      then cf\<lparr>cf_mapdns_netmask := inet_word pton4 value (cf_mapdns_netmask cf)\<rparr>
      else if key = cs ''cache-size'' then cf\<lparr>cf_mapdns_cache_size := ul_int (c_strtoul 10 value)\<rparr>
      else cf)"

definition hev_config_parse_mapdns ::
  "(byte list \<Rightarrow> byte list option) \<Rightarrow> yaml_document \<Rightarrow> yaml_node option \<Rightarrow> hev_config \<Rightarrow>
   int \<times> hev_config" where
  "hev_config_parse_mapdns pton4 doc base cf =
     (case base of
        Some (YAML_MAPPING_NODE ps) \<Rightarrow>
          let cf = fold (mapdns_scalar pton4) (scalar_pairs doc ps) cf
          in (0, cf\<lparr>cf_mapdns_network := ntohl (cf_mapdns_network cf),
                    cf_mapdns_netmask := ntohl (cf_mapdns_netmask cf)\<rparr>)
      | _ \<Rightarrow> (-1, cf))"

section \<open>The misc section\<close>

definition hev_config_parse_log_level :: "byte list \<Rightarrow> HevLoggerLevel" where
  "hev_config_parse_log_level value =
     (if value = cs ''debug'' then HEV_LOGGER_DEBUG
      else if value = cs ''info'' then HEV_LOGGER_INFO
      else if value = cs ''error'' then HEV_LOGGER_ERROR
      else HEV_LOGGER_WARN)"

text \<open>The three local timeouts come before the record: general, TCP and UDP.\<close>

definition misc_scalar ::
  "byte list \<times> byte list \<Rightarrow> (int \<times> int \<times> int) \<times> hev_config \<Rightarrow> (int \<times> int \<times> int) \<times> hev_config" where
  "misc_scalar kv st =
     (let (key, value) = kv; ((rw, tcp, udp), cf) = st; n = ul_int (c_strtoul 10 value) in
      if key = cs ''task-stack-size'' then ((rw, tcp, udp), cf\<lparr>cf_task_stack_size := n\<rparr>)
      else if key = cs ''tcp-buffer-size'' then ((rw, tcp, udp), cf\<lparr>cf_tcp_buffer_size := n\<rparr>)
      else if key = cs ''udp-recv-buffer-size''
      then ((rw, tcp, udp), cf\<lparr>cf_udp_recv_buffer_size := n\<rparr>)
      else if key = cs ''udp-copy-buffer-nums''
      then ((rw, tcp, udp), cf\<lparr>cf_udp_copy_buffer_nums := n\<rparr>)
      else if key = cs ''max-session-count'' then ((rw, tcp, udp), cf\<lparr>cf_max_session_count := n\<rparr>)
      else if key = cs ''connect-timeout'' then ((rw, tcp, udp), cf\<lparr>cf_connect_timeout := n\<rparr>)
      else if key = cs ''read-write-timeout'' then ((n, tcp, udp), cf)
      else if key = cs ''tcp-read-write-timeout'' then ((rw, n, udp), cf)
      else if key = cs ''udp-read-write-timeout'' then ((rw, tcp, n), cf)
      else if key = cs ''pid-file''
      then ((rw, tcp, udp), cf\<lparr>cf_pid_file := copy_string (cf_pid_file cf) value 1023\<rparr>)
      else if key = cs ''log-file''
      then ((rw, tcp, udp), cf\<lparr>cf_log_file := copy_string (cf_log_file cf) value 1023\<rparr>)
      else if key = cs ''log-level''
      then ((rw, tcp, udp), cf\<lparr>cf_log_level := hev_config_parse_log_level value\<rparr>)
      else if key = cs ''limit-nofile''
      then ((rw, tcp, udp), cf\<lparr>cf_limit_nofile := long_int (c_strtol 10 value)\<rparr>)
      else ((rw, tcp, udp), cf))"

definition hev_config_parse_misc ::
  "yaml_document \<Rightarrow> yaml_node option \<Rightarrow> hev_config \<Rightarrow> int \<times> hev_config" where
  "hev_config_parse_misc doc base cf =
     (case base of
        Some (YAML_MAPPING_NODE ps) \<Rightarrow>
          let ((rw, tcp, udp), cf) = fold misc_scalar (scalar_pairs doc ps) ((-1, -1, -1), cf);
              tcp = (if tcp \<le> 0 then rw else tcp);
              udp = (if udp \<le> 0 then rw else udp);
              cf = (if 0 < tcp then cf\<lparr>cf_tcp_rw_timeout := tcp\<rparr> else cf);
              cf = (if 0 < udp then cf\<lparr>cf_udp_rw_timeout := udp\<rparr> else cf)
          in (0, cf)
      | _ \<Rightarrow> (-1, cf))"

section \<open>The document\<close>

definition CFG_UDP_BUF_SIZE :: int where "CFG_UDP_BUF_SIZE = 1500"
definition TASK_STACK_SIZE :: int where "TASK_STACK_SIZE = 20480"

text \<open>A signed 32-bit result; the C arithmetic is undefined where it overflows.\<close>

definition int32 :: "int \<Rightarrow> int option" where
  "int32 v = (if - (2 ^ 31) \<le> v \<and> v < 2 ^ 31 then Some v else None)"

fun parse_sections ::
  "(byte list \<Rightarrow> byte list option) \<Rightarrow> yaml_document \<Rightarrow> (nat \<times> nat) list \<Rightarrow> hev_config \<Rightarrow>
   int \<times> hev_config" where
  "parse_sections pton4 doc [] cf = (0, cf)"
| "parse_sections pton4 doc ((k, v) # ps) cf =
     (if k = 0 \<or> v = 0 then (0, cf)
      else case yaml_scalar doc k of
        None \<Rightarrow> (0, cf)
      | Some key \<Rightarrow>
          let node = yaml_document_get_node doc v;
              (res, cf) =
                (if key = cs ''tunnel'' then hev_config_parse_tunnel doc node cf
                 else if key = cs ''socks5'' then hev_config_parse_socks5 doc node cf
                 else if key = cs ''mapdns'' then hev_config_parse_mapdns pton4 doc node cf
                 else if key = cs ''misc'' then hev_config_parse_misc doc node cf
                 else (0, cf))
          in if res < 0 then (-1, cf) else parse_sections pton4 doc ps cf)"

text \<open>\<open>snd_buf\<close> is lwIP's \<open>TCP_SND_BUF\<close>.\<close>

definition hev_config_parse_doc ::
  "(byte list \<Rightarrow> byte list option) \<Rightarrow> int \<Rightarrow> yaml_document \<Rightarrow> hev_config \<Rightarrow> (int \<times> hev_config) option"
where
  "hev_config_parse_doc pton4 snd_buf doc cf =
     (case yaml_document_get_root_node doc of
        Some (YAML_MAPPING_NODE ps) \<Rightarrow> do {
          let (res, cf) = parse_sections pton4 doc ps cf;
          if res < 0 then Some (-1, cf)
          else do {
            let cf = (if cf_tcp_buffer_size cf > snd_buf then cf\<lparr>cf_tcp_buffer_size := snd_buf\<rparr> else cf);
            udp_buffer_size \<leftarrow> int32 (CFG_UDP_BUF_SIZE * cf_udp_copy_buffer_nums cf);
            min_task_stack_size \<leftarrow>
              (if cf_tcp_buffer_size cf > udp_buffer_size
               then int32 (TASK_STACK_SIZE + cf_tcp_buffer_size cf)
               else int32 (TASK_STACK_SIZE + udp_buffer_size));
            Some (0, if cf_task_stack_size cf < min_task_stack_size
                     then cf\<lparr>cf_task_stack_size := min_task_stack_size\<rparr> else cf)
          }
        }
      | _ \<Rightarrow> Some (-1, cf))"

text \<open>
  The two ways in. What the parser of libyaml does with the text is an argument: whether it
  initialises, and the document it loads, if any. The file is one that may fail to open.
\<close>

definition hev_config_init_from_file ::
  "(byte list \<Rightarrow> byte list option) \<Rightarrow> int \<Rightarrow> bool \<Rightarrow> (byte list \<Rightarrow> byte list option) \<Rightarrow>
   (byte list \<Rightarrow> yaml_document option) \<Rightarrow> byte list \<Rightarrow> hev_config \<Rightarrow> (int \<times> hev_config) option" where
  "hev_config_init_from_file pton4 snd_buf parser_ok fopen load config_path cf =
     (if \<not> parser_ok then Some (-1, cf)
      else case fopen config_path of
        None \<Rightarrow> Some (-1, cf)
      | Some text \<Rightarrow>
          (case load text of
             None \<Rightarrow> Some (-1, cf)
           | Some doc \<Rightarrow> hev_config_parse_doc pton4 snd_buf doc cf))"

definition hev_config_init_from_str ::
  "(byte list \<Rightarrow> byte list option) \<Rightarrow> int \<Rightarrow> bool \<Rightarrow> (byte list \<Rightarrow> yaml_document option) \<Rightarrow>
   byte list \<Rightarrow> hev_config \<Rightarrow> (int \<times> hev_config) option" where
  "hev_config_init_from_str pton4 snd_buf parser_ok load config_str cf =
     (if \<not> parser_ok then Some (-1, cf)
      else case load config_str of
        None \<Rightarrow> Some (-1, cf)
      | Some doc \<Rightarrow> hev_config_parse_doc pton4 snd_buf doc cf)"

section \<open>Reading the configuration\<close>

definition hev_config_get_tunnel_name where "hev_config_get_tunnel_name cf = buf_string (cf_tun_name cf)"
definition hev_config_get_tunnel_mtu where "hev_config_get_tunnel_mtu cf = cf_tun_mtu cf"
definition hev_config_get_tunnel_multi_queue where "hev_config_get_tunnel_multi_queue cf = cf_multi_queue cf"
definition hev_config_get_tunnel_ipv4_address where "hev_config_get_tunnel_ipv4_address cf = buf_string (cf_tun_ipv4 cf)"
definition hev_config_get_tunnel_ipv6_address where "hev_config_get_tunnel_ipv6_address cf = buf_string (cf_tun_ipv6 cf)"
definition hev_config_get_tunnel_post_up_script where "hev_config_get_tunnel_post_up_script cf = buf_string (cf_post_up cf)"
definition hev_config_get_tunnel_pre_down_script where "hev_config_get_tunnel_pre_down_script cf = buf_string (cf_pre_down cf)"
definition hev_config_get_socks5_server where "hev_config_get_socks5_server cf = cf_srv cf"
definition hev_config_get_mapdns_address where "hev_config_get_mapdns_address cf = cf_mapdns_address cf"
definition hev_config_get_mapdns_port where "hev_config_get_mapdns_port cf = cf_mapdns_port cf"
definition hev_config_get_mapdns_network where "hev_config_get_mapdns_network cf = cf_mapdns_network cf"
definition hev_config_get_mapdns_netmask where "hev_config_get_mapdns_netmask cf = cf_mapdns_netmask cf"
definition hev_config_get_mapdns_cache_size where "hev_config_get_mapdns_cache_size cf = cf_mapdns_cache_size cf"
definition hev_config_get_misc_task_stack_size where "hev_config_get_misc_task_stack_size cf = cf_task_stack_size cf"
definition hev_config_get_misc_tcp_buffer_size where "hev_config_get_misc_tcp_buffer_size cf = cf_tcp_buffer_size cf"
definition hev_config_get_misc_udp_recv_buffer_size where "hev_config_get_misc_udp_recv_buffer_size cf = cf_udp_recv_buffer_size cf"
definition hev_config_get_misc_udp_copy_buffer_nums where "hev_config_get_misc_udp_copy_buffer_nums cf = cf_udp_copy_buffer_nums cf"
definition hev_config_get_misc_max_session_count where "hev_config_get_misc_max_session_count cf = cf_max_session_count cf"
definition hev_config_get_misc_connect_timeout where "hev_config_get_misc_connect_timeout cf = cf_connect_timeout cf"
definition hev_config_get_misc_tcp_read_write_timeout where "hev_config_get_misc_tcp_read_write_timeout cf = cf_tcp_rw_timeout cf"
definition hev_config_get_misc_udp_read_write_timeout where "hev_config_get_misc_udp_read_write_timeout cf = cf_udp_rw_timeout cf"
definition hev_config_get_misc_limit_nofile where "hev_config_get_misc_limit_nofile cf = cf_limit_nofile cf"
definition hev_config_get_misc_pid_file where "hev_config_get_misc_pid_file cf = buf_string (cf_pid_file cf)"
definition hev_config_get_misc_log_file where "hev_config_get_misc_log_file cf =
  (case buf_string (cf_log_file cf) of None \<Rightarrow> cs ''stderr'' | Some s \<Rightarrow> s)"
definition hev_config_get_misc_log_level where "hev_config_get_misc_log_level cf = cf_log_level cf"

end
