(* ===== verification/ConfigFacts.thy ===== *)
theory ConfigFacts
  imports Config
begin

text \<open>
  What the configuration code keeps: every character array stays NUL-terminated within its size,
  for every document, and the task stack is large enough for the buffers that the sessions
  place on it. The socks5 section is characterised by the last value of each of its keys.
\<close>

section \<open>The arrays\<close>

definition buf_ok :: "nat \<Rightarrow> byte list \<Rightarrow> bool" where
  "buf_ok n b \<longleftrightarrow> length b = n \<and> b ! (n - 1) = 0"

lemma buf_ok_copy [simp]: "buf_ok n b \<Longrightarrow> k < n \<Longrightarrow> buf_ok n (copy_string b s k)"
  by (auto simp: buf_ok_def copy_string_def nth_write_at)

lemma buf_ok_string:
  assumes "buf_ok n b" "0 < n"
  shows "buf_string b = None \<longleftrightarrow> hd b = 0"
    and "buf_string b = Some s \<Longrightarrow> length s < n \<and> is_cstr s"
proof -
  have "0 \<in> set b" using assms unfolding buf_ok_def
    by (metis diff_less nth_mem zero_less_one)
  then obtain k where k: "c_strlen b = Some k" using c_strlen_Some_iff by blast
  then show "buf_string b = None \<longleftrightarrow> hd b = 0" by (simp add: buf_string_def c_string_def)
  show "buf_string b = Some s \<Longrightarrow> length s < n \<and> is_cstr s"
    using k c_strlen_bound [OF k] assms by (auto simp: buf_string_def c_string_def buf_ok_def split: if_splits)
qed

definition cred_ok :: "byte list option \<Rightarrow> bool" where
  "cred_ok c \<longleftrightarrow> (\<forall>s. c = Some s \<longrightarrow> length s \<le> 255)"

definition srv_ok :: "HevConfigServer \<Rightarrow> bool" where
  "srv_ok srv \<longleftrightarrow> buf_ok 256 (srv_addr srv) \<and> buf_ok 256 (srv_udp_addr srv) \<and>
     cred_ok (srv_user srv) \<and> cred_ok (srv_pass srv) \<and>
     (srv_user srv = None \<longleftrightarrow> srv_pass srv = None)"

definition cf_ok :: "hev_config \<Rightarrow> bool" where
  "cf_ok cf \<longleftrightarrow> buf_ok 64 (cf_tun_name cf) \<and> buf_ok 16 (cf_tun_ipv4 cf) \<and> buf_ok 64 (cf_tun_ipv6 cf) \<and>
     buf_ok 1024 (cf_post_up cf) \<and> buf_ok 1024 (cf_pre_down cf) \<and> buf_ok 1024 (cf_log_file cf) \<and>
     buf_ok 1024 (cf_pid_file cf) \<and> srv_ok (cf_srv cf)"

lemma cf_ok_default: "cf_ok hev_config_default"
  by (simp add: cf_ok_def hev_config_default_def srv_ok_def buf_ok_def cred_ok_def)

text \<open>The numbers do not matter to it.\<close>

lemma cf_ok_numbers [simp]:
  "cf_ok (cf\<lparr>cf_tun_mtu := v0\<rparr>) = cf_ok cf"
  "cf_ok (cf\<lparr>cf_multi_queue := v1\<rparr>) = cf_ok cf"
  "cf_ok (cf\<lparr>cf_mapdns_address := v2\<rparr>) = cf_ok cf"
  "cf_ok (cf\<lparr>cf_mapdns_port := v3\<rparr>) = cf_ok cf"
  "cf_ok (cf\<lparr>cf_mapdns_network := v4\<rparr>) = cf_ok cf"
  "cf_ok (cf\<lparr>cf_mapdns_netmask := v5\<rparr>) = cf_ok cf"
  "cf_ok (cf\<lparr>cf_mapdns_cache_size := v6\<rparr>) = cf_ok cf"
  "cf_ok (cf\<lparr>cf_max_session_count := v7\<rparr>) = cf_ok cf"
  "cf_ok (cf\<lparr>cf_task_stack_size := v8\<rparr>) = cf_ok cf"
  "cf_ok (cf\<lparr>cf_tcp_buffer_size := v9\<rparr>) = cf_ok cf"
  "cf_ok (cf\<lparr>cf_udp_recv_buffer_size := v10\<rparr>) = cf_ok cf"
  "cf_ok (cf\<lparr>cf_udp_copy_buffer_nums := v11\<rparr>) = cf_ok cf"
  "cf_ok (cf\<lparr>cf_connect_timeout := v12\<rparr>) = cf_ok cf"
  "cf_ok (cf\<lparr>cf_tcp_rw_timeout := v13\<rparr>) = cf_ok cf"
  "cf_ok (cf\<lparr>cf_udp_rw_timeout := v14\<rparr>) = cf_ok cf"
  "cf_ok (cf\<lparr>cf_limit_nofile := v15\<rparr>) = cf_ok cf"
  "cf_ok (cf\<lparr>cf_log_level := v16\<rparr>) = cf_ok cf"
  by (simp_all add: cf_ok_def)

lemma fold_keeps: "P s \<Longrightarrow> (\<And>x s. P s \<Longrightarrow> P (f x s)) \<Longrightarrow> P (fold f xs s)"
  by (induction xs arbitrary: s) auto

lemma tunnel_scalar_ok: "cf_ok cf \<Longrightarrow> cf_ok (tunnel_scalar key value cf)"
  by (simp add: cf_ok_def tunnel_scalar_def)

lemma set_ipv4_ok: "cf_ok cf \<Longrightarrow> cf_ok (cf\<lparr>cf_tun_ipv4 := copy_string (cf_tun_ipv4 cf) value 15\<rparr>)"
  by (simp add: cf_ok_def)

lemma set_ipv6_ok: "cf_ok cf \<Longrightarrow> cf_ok (cf\<lparr>cf_tun_ipv6 := copy_string (cf_tun_ipv6 cf) value 63\<rparr>)"
  by (simp add: cf_ok_def)

lemma parse_tunnel_ipv4_ok: "cf_ok cf \<Longrightarrow> cf_ok (snd (hev_config_parse_tunnel_ipv4 doc base cf))"
  unfolding hev_config_parse_tunnel_ipv4_def
  by (auto intro!: fold_keeps [where P = cf_ok] set_ipv4_ok split: option.split yaml_node.split)

lemma parse_tunnel_ipv6_ok: "cf_ok cf \<Longrightarrow> cf_ok (snd (hev_config_parse_tunnel_ipv6 doc base cf))"
  unfolding hev_config_parse_tunnel_ipv6_def
  by (auto intro!: fold_keeps [where P = cf_ok] set_ipv6_ok split: option.split yaml_node.split)

lemma parse_tunnel_ok: "cf_ok cf \<Longrightarrow> cf_ok (snd (hev_config_parse_tunnel doc base cf))"
  unfolding hev_config_parse_tunnel_def
  by (auto intro!: fold_keeps [where P = cf_ok] tunnel_scalar_ok parse_tunnel_ipv4_ok
      parse_tunnel_ipv6_ok split: option.split yaml_node.split)

lemma parse_socks5_ok: "cf_ok cf \<Longrightarrow> cf_ok (snd (hev_config_parse_socks5 doc base cf))"
  by (auto simp: hev_config_parse_socks5_def Let_def cf_ok_def srv_ok_def cred_ok_def
      split: option.split yaml_node.split)

lemma parse_mapdns_ok: "cf_ok cf \<Longrightarrow> cf_ok (snd (hev_config_parse_mapdns pton4 doc base cf))"
proof -
  assume ok: "cf_ok cf"
  have "cf_ok (fold (mapdns_scalar pton4) xs cf)" for xs
    by (rule fold_keeps [where P = cf_ok], rule ok) (auto simp: mapdns_scalar_def cf_ok_def)
  with ok show ?thesis
    by (auto simp: hev_config_parse_mapdns_def Let_def cf_ok_def split: option.split yaml_node.split)
qed

lemma misc_scalar_ok: "cf_ok (snd st) \<Longrightarrow> cf_ok (snd (misc_scalar kv st))"
proof -
  assume "cf_ok (snd st)"
  moreover have "cf_ok cf \<Longrightarrow> cf_ok (cf\<lparr>cf_pid_file := copy_string (cf_pid_file cf) v 1023\<rparr>)" for cf v
    by (simp add: cf_ok_def)
  moreover have "cf_ok cf \<Longrightarrow> cf_ok (cf\<lparr>cf_log_file := copy_string (cf_log_file cf) v 1023\<rparr>)" for cf v
    by (simp add: cf_ok_def)
  ultimately show ?thesis
    by (cases kv; cases st) (simp add: misc_scalar_def Let_def split_beta)
qed

lemma parse_misc_ok: "cf_ok cf \<Longrightarrow> cf_ok (snd (hev_config_parse_misc doc base cf))"
proof -
  assume ok: "cf_ok cf"
  have *: "cf_ok (snd (fold misc_scalar xs ((-1, -1, -1), cf)))" for xs
    by (rule fold_keeps [where P = "\<lambda>s. cf_ok (snd s)"]) (simp_all add: ok misc_scalar_ok)
  show ?thesis
  proof (cases "\<exists>ps. base = Some (YAML_MAPPING_NODE ps)")
    case True
    then obtain ps where b: "base = Some (YAML_MAPPING_NODE ps)" by blast
    obtain rw tcp udp cf' where f: "fold misc_scalar (scalar_pairs doc ps) ((-1, -1, -1), cf) = ((rw, tcp, udp), cf')"
      by (metis prod_cases3 surj_pair)
    with * [of "scalar_pairs doc ps"] have "cf_ok cf'" by simp
    then show ?thesis by (simp add: hev_config_parse_misc_def b f Let_def)
  next
    case False
    then show ?thesis using ok by (auto simp: hev_config_parse_misc_def split: option.split yaml_node.split)
  qed
qed

lemma parse_sections_ok: "cf_ok cf \<Longrightarrow> cf_ok (snd (parse_sections pton4 doc ps cf))"
proof (induction ps arbitrary: cf)
  case (Cons p ps)
  obtain k v where p: "p = (k, v)" by force
  show ?case
  proof (cases "k = 0 \<or> v = 0 \<or> yaml_scalar doc k = None")
    case True
    then show ?thesis using Cons.prems by (auto simp: p)
  next
    case False
    then obtain key where key: "yaml_scalar doc k = Some key" "k \<noteq> 0" "v \<noteq> 0" by auto
    define r where "r = (if key = cs ''tunnel'' then hev_config_parse_tunnel doc (yaml_document_get_node doc v) cf
        else if key = cs ''socks5'' then hev_config_parse_socks5 doc (yaml_document_get_node doc v) cf
        else if key = cs ''mapdns'' then hev_config_parse_mapdns pton4 doc (yaml_document_get_node doc v) cf
        else if key = cs ''misc'' then hev_config_parse_misc doc (yaml_document_get_node doc v) cf
        else (0, cf))"
    have r: "cf_ok (snd r)"
      using Cons.prems by (simp add: r_def parse_tunnel_ok parse_socks5_ok parse_mapdns_ok parse_misc_ok)
    have "parse_sections pton4 doc (p # ps) cf =
        (let (res, cf) = r in if res < 0 then (-1, cf) else parse_sections pton4 doc ps cf)"
      using key by (simp add: p r_def Let_def)
    then show ?thesis using r Cons.IH by (cases r) auto
  qed
qed simp

lemma parse_sections_result: "parse_sections pton4 doc ps cf = (res, cf') \<Longrightarrow> res = 0 \<or> res = -1"
  by (induction pton4 doc ps cf rule: parse_sections.induct)
    (auto simp: Let_def split: if_splits option.splits prod.splits)

lemma cf_ok_strings:
  "cf_ok cf \<Longrightarrow> hev_config_get_tunnel_name cf = Some s \<Longrightarrow> length s < 64 \<and> is_cstr s"
  "cf_ok cf \<Longrightarrow> hev_config_get_tunnel_ipv4_address cf = Some s \<Longrightarrow> length s < 16 \<and> is_cstr s"
  "cf_ok cf \<Longrightarrow> hev_config_get_tunnel_ipv6_address cf = Some s \<Longrightarrow> length s < 64 \<and> is_cstr s"
  "cf_ok cf \<Longrightarrow> hev_config_get_tunnel_post_up_script cf = Some s \<Longrightarrow> length s < 1024 \<and> is_cstr s"
  "cf_ok cf \<Longrightarrow> hev_config_get_misc_pid_file cf = Some s \<Longrightarrow> length s < 1024 \<and> is_cstr s"
  "cf_ok cf \<Longrightarrow> hev_config_get_tunnel_name cf = None \<longleftrightarrow> hd (cf_tun_name cf) = 0"
  unfolding cf_ok_def hev_config_get_tunnel_name_def hev_config_get_tunnel_ipv4_address_def
    hev_config_get_tunnel_ipv6_address_def hev_config_get_tunnel_post_up_script_def
    hev_config_get_misc_pid_file_def
  using buf_ok_string by (metis zero_less_numeral)+

text \<open>
  C14: Safety of the configuration's character arrays: whatever document is parsed, and however
  the parse ends, every array keeps its size and stays terminated, so each string the
  configuration hands out lies inside its array, and a user name is stored exactly when a
  password is, each with at most 255 bytes. The property is an invariant of the parser, which
  holds of the initial values.
\<close>

theorem config_strings_terminated:
  "cf_ok hev_config_default \<and>
   (cf_ok cf \<and> hev_config_parse_doc pton4 snd_buf doc cf = Some (r, cf') \<longrightarrow>
     cf_ok cf' \<and>
     (\<forall>s. hev_config_get_tunnel_name cf' = Some s \<longrightarrow> length s < 64 \<and> is_cstr s) \<and>
     (\<forall>s. hev_config_get_tunnel_ipv4_address cf' = Some s \<longrightarrow> length s < 16 \<and> is_cstr s) \<and>
     (\<forall>s. hev_config_get_tunnel_ipv6_address cf' = Some s \<longrightarrow> length s < 64 \<and> is_cstr s) \<and>
     (\<forall>s. hev_config_get_tunnel_post_up_script cf' = Some s \<longrightarrow> length s < 1024 \<and> is_cstr s) \<and>
     (\<forall>s. hev_config_get_misc_pid_file cf' = Some s \<longrightarrow> length s < 1024 \<and> is_cstr s) \<and>
     (hev_config_get_tunnel_name cf' = None \<longleftrightarrow> hd (cf_tun_name cf') = 0))"
proof -
  have "cf_ok cf'" if ok: "cf_ok cf" and p: "hev_config_parse_doc pton4 snd_buf doc cf = Some (r, cf')"
  proof (cases "\<exists>ps. yaml_document_get_root_node doc = Some (YAML_MAPPING_NODE ps)")
    case True
    then obtain ps where root: "yaml_document_get_root_node doc = Some (YAML_MAPPING_NODE ps)" by blast
    obtain res cf1 where s: "parse_sections pton4 doc ps cf = (res, cf1)" by force
    have "cf_ok cf1" using parse_sections_ok [OF ok, of pton4 doc ps] s by simp
    then show ?thesis
      using p by (auto simp: hev_config_parse_doc_def root s Let_def cf_ok_def split: if_splits bind_splits)
  next
    case False
    then show ?thesis using p ok
      by (auto simp: hev_config_parse_doc_def split: option.splits yaml_node.splits)
  qed
  then show ?thesis
    using cf_ok_default cf_ok_strings [of cf'] by blast
qed

lemma of_char_byte_eq: "(of_char c :: byte) = of_char d \<longleftrightarrow> c = d"
proof
  assume "(of_char c :: byte) = of_char d"
  then have "unat (of_nat (of_char c :: nat) :: byte) = unat (of_nat (of_char d :: nat) :: byte)"
    by (simp add: of_nat_of_char)
  then have "take_bit 8 (of_char c :: nat) = take_bit 8 (of_char d)"
    by (simp add: unat_of_nat take_bit_eq_mod)
  then show "c = d" by (simp add: take_bit_eq_mod)
qed simp

lemma cs_eq [simp]: "cs a = cs b \<longleftrightarrow> a = b"
  unfolding cs_def by (rule inj_map_eq_map) (simp add: inj_def of_char_byte_eq)

section \<open>The task stack\<close>

text \<open>
  C29: Bounds: after a document is accepted, the TCP buffer is at most what lwIP can send, the
  stack of a task has room for the copy buffers of a TCP session and of a UDP session besides
  the 20 KiB the code itself needs, and it is never smaller than what the document asks for.
\<close>

theorem config_stack_fits:
  assumes "hev_config_parse_doc pton4 snd_buf doc cf = Some (0, cf')"
  shows "hev_config_get_misc_tcp_buffer_size cf' \<le> snd_buf \<and>
     20480 + hev_config_get_misc_tcp_buffer_size cf' \<le> hev_config_get_misc_task_stack_size cf' \<and>
     20480 + 1500 * hev_config_get_misc_udp_copy_buffer_nums cf' \<le> hev_config_get_misc_task_stack_size cf' \<and>
     (\<exists>ps cf1. yaml_document_get_root_node doc = Some (YAML_MAPPING_NODE ps) \<and>
        parse_sections pton4 doc ps cf = (0, cf1) \<and>
        cf_task_stack_size cf1 \<le> hev_config_get_misc_task_stack_size cf')"
proof -
  obtain ps where root: "yaml_document_get_root_node doc = Some (YAML_MAPPING_NODE ps)"
    using assms by (auto simp: hev_config_parse_doc_def split: option.splits yaml_node.splits)
  obtain res cf1 where s: "parse_sections pton4 doc ps cf = (res, cf1)" by force
  have "res = 0 \<or> res = -1" using s by (rule parse_sections_result)
  with assms root s show ?thesis
    by (auto simp: hev_config_parse_doc_def Let_def int32_def TASK_STACK_SIZE_def
        CFG_UDP_BUF_SIZE_def hev_config_get_misc_tcp_buffer_size_def
        hev_config_get_misc_task_stack_size_def hev_config_get_misc_udp_copy_buffer_nums_def
        split: if_splits bind_splits)
qed

text \<open>A document that names a tunnel and a number of copy buffers.\<close>

definition example_document :: "string \<Rightarrow> yaml_document" where
  "example_document n =
     [YAML_MAPPING_NODE [(2, 3), (4, 5)], YAML_SCALAR_NODE (cs ''tunnel''),
      YAML_MAPPING_NODE [(6, 7)], YAML_SCALAR_NODE (cs ''misc''), YAML_MAPPING_NODE [(8, 9)],
      YAML_SCALAR_NODE (cs ''name''), YAML_SCALAR_NODE (cs ''tun0''),
      YAML_SCALAR_NODE (cs ''udp-copy-buffer-nums''), YAML_SCALAR_NODE (cs n)]"

lemmas example_parse = example_document_def yaml_document_get_root_node_def yaml_document_get_node_def
  yaml_scalar_def scalar_pairs_def hev_config_parse_tunnel_def tunnel_scalar_def
  hev_config_parse_misc_def misc_scalar_def

lemma example_sections:
  "\<exists>cf. parse_sections pton4 (example_document n) [(2, 3), (4, 5)] hev_config_default = (0, cf) \<and>
     cf_task_stack_size cf = 86016 \<and> cf_tcp_buffer_size cf = 65536 \<and>
     cf_udp_copy_buffer_nums cf = ul_int (c_strtoul 10 (cs n))"
  by (simp add: example_parse Let_def) (simp add: hev_config_default_def)

lemma example_root:
  "yaml_document_get_root_node (example_document n) = Some (YAML_MAPPING_NODE [(2, 3), (4, 5)])"
  by (simp add: example_parse)

lemma example_number:
  "ul_int (c_strtoul 10 (cs ''1500000'')) = 1500000" "ul_int (c_strtoul 10 (cs ''100'')) = 100"
  by (simp_all add: cs_def c_strtoul_def strtoul_parts_def c_isspace_def digit_value_def ul_int_def)

lemma example_result:
  "\<exists>cf'. hev_config_parse_doc (\<lambda>_. None) 11680 (example_document ''100'') hev_config_default = Some (0, cf') \<and>
     cf_udp_copy_buffer_nums cf' = 100"
  using example_sections [of "\<lambda>_. None" "''100''"]
  by (auto simp: hev_config_parse_doc_def example_root example_number int32_def Let_def
      CFG_UDP_BUF_SIZE_def TASK_STACK_SIZE_def)

lemma config_strings_terminated_witness:
  "\<exists>cf'. hev_config_parse_doc (\<lambda>_. None) 11680 (example_document ''100'') hev_config_default = Some (0, cf') \<and>
     cf_ok cf'"
  using example_result
    config_strings_terminated [of hev_config_default "\<lambda>_. None" 11680 "example_document ''100''" 0]
  by (auto simp: cf_ok_default)

lemma config_stack_fits_witness:
  "\<exists>cf'. hev_config_parse_doc (\<lambda>_. None) 11680 (example_document ''100'') hev_config_default = Some (0, cf') \<and>
     20480 + 1500 * hev_config_get_misc_udp_copy_buffer_nums cf' \<le> hev_config_get_misc_task_stack_size cf' \<and>
     hev_config_get_misc_udp_copy_buffer_nums cf' = 100"
proof -
  obtain cf' where p: "hev_config_parse_doc (\<lambda>_. None) 11680 (example_document ''100'') hev_config_default = Some (0, cf')"
    and n: "cf_udp_copy_buffer_nums cf' = 100"
    using example_result by blast
  from config_stack_fits [OF p] n p show ?thesis
    by (auto simp: hev_config_get_misc_udp_copy_buffer_nums_def)
qed


section \<open>The socks5 section\<close>

text \<open>The value of a key is the last one given for it.\<close>

definition section_value :: "yaml_document \<Rightarrow> (nat \<times> nat) list \<Rightarrow> string \<Rightarrow> byte list option" where
  "section_value doc ps key = map_of (rev (scalar_pairs doc ps)) (cs key)"

definition last_value :: "(byte list \<times> byte list) list \<Rightarrow> string \<Rightarrow> byte list option \<Rightarrow> byte list option" where
  "last_value kvs key old = (case map_of (rev kvs) (cs key) of None \<Rightarrow> old | Some s \<Rightarrow> Some s)"

lemma last_value_Nil [simp]: "last_value [] key old = old"
  by (simp add: last_value_def)

lemma last_value_Cons [simp]:
  "last_value ((k, s) # kvs) key old = last_value kvs key (if k = cs key then Some s else old)"
  by (simp add: last_value_def map_add_def split: option.split)

lemma fold_socks5_scalar:
  "fold socks5_scalar kvs ss =
     \<lparr>ss_addr = last_value kvs ''address'' (ss_addr ss), ss_port = last_value kvs ''port'' (ss_port ss),
      ss_udpm = last_value kvs ''udp'' (ss_udpm ss),
      ss_udpa = last_value kvs ''udp-address'' (ss_udpa ss),
      ss_user = last_value kvs ''username'' (ss_user ss),
      ss_pass = last_value kvs ''password'' (ss_pass ss),
      ss_mark = last_value kvs ''mark'' (ss_mark ss), ss_pipe = last_value kvs ''pipeline'' (ss_pipe ss)\<rparr>"
proof (induction kvs arbitrary: ss)
  case (Cons kv kvs)
  obtain key s where kv: "kv = (key, s)" by force
  show ?case by (simp add: kv Cons.IH) (simp add: socks5_scalar_def)
qed simp

lemma last_value_section: "last_value (scalar_pairs doc ps) key None = section_value doc ps key"
  by (simp add: last_value_def section_value_def split: option.split)


end
