(* ===== verification/RBTree.thy ===== *)
theory RBTree
  imports Prelude
begin

text \<open>
  The intrusive red-black tree of \<open>core/src/hev-rbtree.c\<close> and \<open>hev-rbtree.h\<close>, at the
  level of its pointers: a store has the tree's root pointer and the nodes at their addresses.
  A node's colour is the lowest bit of the word that holds its parent's address.

  Where the C code writes out the left and the right variant of a case, which are mirror
  images, the model has one definition over the side \<open>d\<close>.
\<close>

record HevRBTreeNode =
  parent_color :: size_t
  rb_right :: ptr
  rb_left :: ptr

record rb_store =
  rb_root :: ptr
  rb_heap :: "ptr \<rightharpoonup> HevRBTreeNode"

definition HEV_RBTREE_RED :: size_t where "HEV_RBTREE_RED = 0"
definition HEV_RBTREE_BLACK :: size_t where "HEV_RBTREE_BLACK = 1"

datatype side = Lft | Rgt

definition opp :: "side \<Rightarrow> side" where
  "opp d = (case d of Lft \<Rightarrow> Rgt | Rgt \<Rightarrow> Lft)"

definition child :: "side \<Rightarrow> HevRBTreeNode \<Rightarrow> ptr" where
  "child d n = (case d of Lft \<Rightarrow> rb_left n | Rgt \<Rightarrow> rb_right n)"

definition set_child :: "side \<Rightarrow> ptr \<Rightarrow> HevRBTreeNode \<Rightarrow> HevRBTreeNode" where
  "set_child d p n = (case d of Lft \<Rightarrow> n\<lparr>rb_left := p\<rparr> | Rgt \<Rightarrow> n\<lparr>rb_right := p\<rparr>)"

text \<open>Reading and updating the node at an address.\<close>

definition node_at :: "rb_store \<Rightarrow> ptr \<Rightarrow> HevRBTreeNode option" where
  "node_at s p = deref (rb_heap s) p"

definition upd_node ::
  "rb_store \<Rightarrow> ptr \<Rightarrow> (HevRBTreeNode \<Rightarrow> HevRBTreeNode) \<Rightarrow> rb_store option" where
  "upd_node s p f = do { n \<leftarrow> node_at s p; Some (s\<lparr>rb_heap := (rb_heap s)(p \<mapsto> f n)\<rparr>) }"

section \<open>Node accessors\<close>

definition hev_rbtree_node_color :: "HevRBTreeNode \<Rightarrow> size_t" where
  "hev_rbtree_node_color n = parent_color n AND 1"

definition hev_rbtree_node_is_red :: "HevRBTreeNode \<Rightarrow> bool" where
  "hev_rbtree_node_is_red n \<longleftrightarrow> hev_rbtree_node_color n AND HEV_RBTREE_BLACK = 0"

definition hev_rbtree_node_is_black :: "HevRBTreeNode \<Rightarrow> bool" where
  "hev_rbtree_node_is_black n \<longleftrightarrow> hev_rbtree_node_color n AND HEV_RBTREE_BLACK \<noteq> 0"

definition pc_is_black :: "size_t \<Rightarrow> bool" where
  "pc_is_black pc \<longleftrightarrow> pc AND HEV_RBTREE_BLACK \<noteq> 0"

definition pc_parent :: "size_t \<Rightarrow> ptr" where
  "pc_parent pc = pc AND NOT 3"

definition hev_rbtree_node_parent :: "HevRBTreeNode \<Rightarrow> ptr" where
  "hev_rbtree_node_parent n = parent_color n AND NOT 3"

definition hev_rbtree_node_red_parent :: "HevRBTreeNode \<Rightarrow> ptr" where
  "hev_rbtree_node_red_parent n = parent_color n"

definition hev_rbtree_node_empty :: "HevRBTreeNode \<Rightarrow> ptr \<Rightarrow> bool" where
  "hev_rbtree_node_empty n p \<longleftrightarrow> parent_color n = p"

definition hev_rbtree_node_set_black :: "rb_store \<Rightarrow> ptr \<Rightarrow> rb_store option" where
  "hev_rbtree_node_set_black s p =
     upd_node s p (\<lambda>n. n\<lparr>parent_color := parent_color n OR HEV_RBTREE_BLACK\<rparr>)"

definition hev_rbtree_node_set_parent :: "rb_store \<Rightarrow> ptr \<Rightarrow> ptr \<Rightarrow> rb_store option" where
  "hev_rbtree_node_set_parent s p parent =
     upd_node s p (\<lambda>n. n\<lparr>parent_color := hev_rbtree_node_color n OR parent\<rparr>)"

definition hev_rbtree_node_set_parent_color ::
  "rb_store \<Rightarrow> ptr \<Rightarrow> ptr \<Rightarrow> size_t \<Rightarrow> rb_store option" where
  "hev_rbtree_node_set_parent_color s p parent color =
     upd_node s p (\<lambda>n. n\<lparr>parent_color := parent OR color\<rparr>)"

text \<open>\<open>if (tmp) hev_rbtree_node_set_parent_color (tmp, ...)\<close>.\<close>

definition set_parent_color_if ::
  "rb_store \<Rightarrow> ptr \<Rightarrow> ptr \<Rightarrow> size_t \<Rightarrow> rb_store option" where
  "set_parent_color_if s p parent color =
     (if p \<noteq> 0 then hev_rbtree_node_set_parent_color s p parent color else Some s)"

definition hev_rbtree_change_child :: "rb_store \<Rightarrow> ptr \<Rightarrow> ptr \<Rightarrow> ptr \<Rightarrow> rb_store option" where
  "hev_rbtree_change_child s old new parent =
     (if parent \<noteq> 0 then do {
        n \<leftarrow> node_at s parent;
        if rb_left n = old then upd_node s parent (set_child Lft new)
        else upd_node s parent (set_child Rgt new)
      }
      else Some (s\<lparr>rb_root := new\<rparr>))"

definition hev_rbtree_rotate_set_parents ::
  "rb_store \<Rightarrow> ptr \<Rightarrow> ptr \<Rightarrow> size_t \<Rightarrow> rb_store option" where
  "hev_rbtree_rotate_set_parents s old new color = do {
     n \<leftarrow> node_at s old;
     let parent = hev_rbtree_node_parent n;
     s \<leftarrow> upd_node s new (\<lambda>m. m\<lparr>parent_color := parent_color n\<rparr>);
     s \<leftarrow> hev_rbtree_node_set_parent_color s old new color;
     hev_rbtree_change_child s old new parent
   }"

text \<open>\<open>link\<close> is a field of the parent, or the root pointer when there is no parent.\<close>

definition hev_rbtree_node_link ::
  "rb_store \<Rightarrow> ptr \<Rightarrow> ptr \<Rightarrow> side \<Rightarrow> rb_store option" where
  "hev_rbtree_node_link s node parent d = do {
     s \<leftarrow> upd_node s node (\<lambda>n. n\<lparr>parent_color := parent, rb_left := 0, rb_right := 0\<rparr>);
     if parent = 0 then Some (s\<lparr>rb_root := node\<rparr>) else upd_node s parent (set_child d node)
   }"

section \<open>Walking\<close>

text \<open>\<open>while (node->left) node = node->left\<close>, and its mirror image.\<close>

partial_function (option) walk_down :: "rb_store \<Rightarrow> side \<Rightarrow> ptr \<Rightarrow> ptr option" where
  [code]: "walk_down s d p = do {
     n \<leftarrow> node_at s p;
     if child d n = 0 then Some p else walk_down s d (child d n)
   }"

text \<open>\<open>while ((parent = parent of node) && node == parent->right) node = parent\<close>.\<close>

partial_function (option) walk_up :: "rb_store \<Rightarrow> side \<Rightarrow> ptr \<Rightarrow> ptr option" where
  [code]: "walk_up s d p = do {
     n \<leftarrow> node_at s p;
     let parent = hev_rbtree_node_parent n;
     if parent = 0 then Some 0
     else do {
       m \<leftarrow> node_at s parent;
       if p = child d m then walk_up s d parent else Some parent
     }
   }"

definition rb_neighbour :: "rb_store \<Rightarrow> side \<Rightarrow> ptr \<Rightarrow> ptr option" where
  "rb_neighbour s d p = do {
     n \<leftarrow> node_at s p;
     if hev_rbtree_node_empty n p then Some 0
     else if child d n \<noteq> 0 then walk_down s (opp d) (child d n)
     else walk_up s d p
   }"

definition hev_rbtree_node_prev :: "rb_store \<Rightarrow> ptr \<Rightarrow> ptr option" where
  "hev_rbtree_node_prev s p = rb_neighbour s Lft p"

definition hev_rbtree_node_next :: "rb_store \<Rightarrow> ptr \<Rightarrow> ptr option" where
  "hev_rbtree_node_next s p = rb_neighbour s Rgt p"

definition hev_rbtree_first :: "rb_store \<Rightarrow> ptr option" where
  "hev_rbtree_first s = (if rb_root s = 0 then Some 0 else walk_down s Lft (rb_root s))"

definition hev_rbtree_last :: "rb_store \<Rightarrow> ptr option" where
  "hev_rbtree_last s = (if rb_root s = 0 then Some 0 else walk_down s Rgt (rb_root s))"

text \<open>
  The descent that every user of the tree writes out: \<open>cmp\<close> compares the node at an
  address with the key. The result is the equal node, or the place to link a new one.
\<close>

partial_function (option) rb_search ::
  "rb_store \<Rightarrow> (ptr \<Rightarrow> int option) \<Rightarrow> ptr \<Rightarrow> ptr \<Rightarrow> side \<Rightarrow> (ptr + ptr \<times> side) option" where
  [code]: "rb_search s cmp cur parent d =
     (if cur = 0 then Some (Inr (parent, d))
      else do {
        res \<leftarrow> cmp cur;
        n \<leftarrow> node_at s cur;
        if res < 0 then rb_search s cmp (rb_left n) cur Lft
        else if res > 0 then rb_search s cmp (rb_right n) cur Rgt
        else Some (Inl cur)
      })"

section \<open>Insertion\<close>

text \<open>Cases 2 and 3, where \<open>parent\<close> is the child of \<open>gparent\<close> on side \<open>d\<close> and the uncle
  is black.\<close>

definition insert_rotate :: "side \<Rightarrow> rb_store \<Rightarrow> ptr \<Rightarrow> ptr \<Rightarrow> ptr \<Rightarrow> rb_store option" where
  "insert_rotate d s node parent gparent = do {
     p \<leftarrow> node_at s parent;
     let tmp = child (opp d) p;
     (s, parent, tmp) \<leftarrow>
       (if node = tmp then do {
          n \<leftarrow> node_at s node;
          let tmp = child d n;
          s \<leftarrow> upd_node s parent (set_child (opp d) tmp);
          s \<leftarrow> upd_node s node (set_child d parent);
          s \<leftarrow> set_parent_color_if s tmp parent HEV_RBTREE_BLACK;
          s \<leftarrow> hev_rbtree_node_set_parent_color s parent node HEV_RBTREE_RED;
          n \<leftarrow> node_at s node;
          Some (s, node, child (opp d) n)
        } else Some (s, parent, tmp));
     s \<leftarrow> upd_node s gparent (set_child d tmp);
     s \<leftarrow> upd_node s parent (set_child (opp d) gparent);
     s \<leftarrow> set_parent_color_if s tmp gparent HEV_RBTREE_BLACK;
     hev_rbtree_rotate_set_parents s gparent parent HEV_RBTREE_RED
   }"

partial_function (option) insert_color_loop :: "rb_store \<Rightarrow> ptr \<Rightarrow> ptr \<Rightarrow> rb_store option" where
  [code]: "insert_color_loop s node parent =
     (if parent = 0 then hev_rbtree_node_set_parent_color s node 0 HEV_RBTREE_BLACK
      else do {
        p \<leftarrow> node_at s parent;
        if hev_rbtree_node_is_black p then Some s
        else do {
          let gparent = hev_rbtree_node_red_parent p;
          g \<leftarrow> node_at s gparent;
          let d = (if parent \<noteq> rb_right g then Lft else Rgt);
          let tmp = child (opp d) g;
          red_uncle \<leftarrow>
            (if tmp \<noteq> 0 then do { u \<leftarrow> node_at s tmp; Some (hev_rbtree_node_is_red u) }
             else Some False);
          if red_uncle then do {
            s \<leftarrow> hev_rbtree_node_set_parent_color s tmp gparent HEV_RBTREE_BLACK;
            s \<leftarrow> hev_rbtree_node_set_parent_color s parent gparent HEV_RBTREE_BLACK;
            g \<leftarrow> node_at s gparent;
            let parent = hev_rbtree_node_parent g;
            s \<leftarrow> hev_rbtree_node_set_parent_color s gparent parent HEV_RBTREE_RED;
            insert_color_loop s gparent parent
          }
          else insert_rotate d s node parent gparent
        }
      })"

definition hev_rbtree_insert_color :: "rb_store \<Rightarrow> ptr \<Rightarrow> rb_store option" where
  "hev_rbtree_insert_color s node = do {
     n \<leftarrow> node_at s node;
     insert_color_loop s node (hev_rbtree_node_red_parent n)
   }"

section \<open>Replacing\<close>

definition hev_rbtree_replace :: "rb_store \<Rightarrow> ptr \<Rightarrow> ptr \<Rightarrow> rb_store option" where
  "hev_rbtree_replace s victim newn = do {
     v \<leftarrow> node_at s victim;
     let parent = hev_rbtree_node_parent v;
     s \<leftarrow> upd_node s newn (\<lambda>_. v);
     s \<leftarrow> (if rb_left v \<noteq> 0 then hev_rbtree_node_set_parent s (rb_left v) newn else Some s);
     s \<leftarrow> (if rb_right v \<noteq> 0 then hev_rbtree_node_set_parent s (rb_right v) newn else Some s);
     hev_rbtree_change_child s victim newn parent
   }"

section \<open>Removal\<close>

text \<open>The \<open>do ... while (tmp)\<close> search for the successor: the successor and its parent.\<close>

partial_function (option) find_successor :: "rb_store \<Rightarrow> ptr \<Rightarrow> ptr \<Rightarrow> (ptr \<times> ptr) option" where
  [code]: "find_successor s successor tmp = do {
     n \<leftarrow> node_at s tmp;
     if rb_left n = 0 then Some (successor, tmp) else find_successor s tmp (rb_left n)
   }"

text \<open>Returns the node to rebalance at, 0 for none.\<close>

definition rbtree_erase_node :: "rb_store \<Rightarrow> ptr \<Rightarrow> (ptr \<times> rb_store) option" where
  "rbtree_erase_node s node = do {
     n \<leftarrow> node_at s node;
     let chld = rb_right n;
     let tmp = rb_left n;
     if tmp = 0 then do {
       let pc = parent_color n;
       let parent = pc_parent pc;
       s \<leftarrow> hev_rbtree_change_child s node chld parent;
       if chld \<noteq> 0 then do {
         s \<leftarrow> upd_node s chld (\<lambda>c. c\<lparr>parent_color := pc\<rparr>);
         Some (0, s)
       }
       else Some (if pc_is_black pc then parent else 0, s)
     }
     else if chld = 0 then do {
       let pc = parent_color n;
       s \<leftarrow> upd_node s tmp (\<lambda>t. t\<lparr>parent_color := pc\<rparr>);
       s \<leftarrow> hev_rbtree_change_child s node tmp (pc_parent pc);
       Some (0, s)
     }
     else do {
       c \<leftarrow> node_at s chld;
       (s, parent, successor, child2) \<leftarrow>
         (if rb_left c = 0 then Some (s, chld, chld, rb_right c)
          else do {
            (parent, successor) \<leftarrow> find_successor s chld (rb_left c);
            sc \<leftarrow> node_at s successor;
            let child2 = rb_right sc;
            s \<leftarrow> upd_node s parent (set_child Lft child2);
            s \<leftarrow> upd_node s successor (set_child Rgt chld);
            s \<leftarrow> hev_rbtree_node_set_parent s chld successor;
            Some (s, parent, successor, child2)
          });
       n \<leftarrow> node_at s node;
       let tmp = rb_left n;
       s \<leftarrow> upd_node s successor (set_child Lft tmp);
       s \<leftarrow> hev_rbtree_node_set_parent s tmp successor;
       n \<leftarrow> node_at s node;
       let pc = parent_color n;
       s \<leftarrow> hev_rbtree_change_child s node successor (pc_parent pc);
       (rebalance, s) \<leftarrow>
         (if child2 \<noteq> 0 then do {
            s \<leftarrow> hev_rbtree_node_set_parent_color s child2 parent HEV_RBTREE_BLACK;
            Some (0, s)
          } else do {
            sc \<leftarrow> node_at s successor;
            Some (if hev_rbtree_node_is_black sc then parent else 0, s)
          });
       s \<leftarrow> upd_node s successor (\<lambda>m. m\<lparr>parent_color := pc\<rparr>);
       Some (rebalance, s)
     }
   }"

definition black_or_null :: "rb_store \<Rightarrow> ptr \<Rightarrow> bool option" where
  "black_or_null s p =
     (if p = 0 then Some True else do { n \<leftarrow> node_at s p; Some (hev_rbtree_node_is_black n) })"

text \<open>Case 1: a red sibling, which is rotated above the parent; the new sibling.\<close>

definition erase_case1 :: "side \<Rightarrow> rb_store \<Rightarrow> ptr \<Rightarrow> ptr \<Rightarrow> (ptr \<times> rb_store) option" where
  "erase_case1 d s parent sibling = do {
     b \<leftarrow> node_at s sibling;
     if hev_rbtree_node_is_red b then do {
       let tmp1 = child d b;
       s \<leftarrow> upd_node s parent (set_child (opp d) tmp1);
       s \<leftarrow> upd_node s sibling (set_child d parent);
       s \<leftarrow> hev_rbtree_node_set_parent_color s tmp1 parent HEV_RBTREE_BLACK;
       s \<leftarrow> hev_rbtree_rotate_set_parents s parent sibling HEV_RBTREE_RED;
       Some (tmp1, s)
     }
     else Some (sibling, s)
   }"

text \<open>Case 3: the sibling's inner child \<open>tmp2\<close> is red; the outer child and the sibling after
  the rotation.\<close>

definition erase_case3 ::
  "side \<Rightarrow> rb_store \<Rightarrow> ptr \<Rightarrow> ptr \<Rightarrow> ptr \<Rightarrow> (ptr \<times> ptr \<times> rb_store) option" where
  "erase_case3 d s parent sibling tmp2 = do {
     t \<leftarrow> node_at s tmp2;
     let tmp1 = child (opp d) t;
     s \<leftarrow> upd_node s sibling (set_child d tmp1);
     s \<leftarrow> upd_node s tmp2 (set_child (opp d) sibling);
     s \<leftarrow> upd_node s parent (set_child (opp d) tmp2);
     s \<leftarrow> set_parent_color_if s tmp1 sibling HEV_RBTREE_BLACK;
     Some (sibling, tmp2, s)
   }"

definition erase_case4 ::
  "side \<Rightarrow> rb_store \<Rightarrow> ptr \<Rightarrow> ptr \<Rightarrow> ptr \<Rightarrow> rb_store option" where
  "erase_case4 d s parent sibling tmp1 = do {
     b \<leftarrow> node_at s sibling;
     let tmp2 = child d b;
     s \<leftarrow> upd_node s parent (set_child (opp d) tmp2);
     s \<leftarrow> upd_node s sibling (set_child d parent);
     s \<leftarrow> hev_rbtree_node_set_parent_color s tmp1 sibling HEV_RBTREE_BLACK;
     s \<leftarrow> (if tmp2 \<noteq> 0 then hev_rbtree_node_set_parent s tmp2 parent else Some s);
     hev_rbtree_rotate_set_parents s parent sibling HEV_RBTREE_BLACK
   }"

partial_function (option) erase_color_loop :: "rb_store \<Rightarrow> ptr \<Rightarrow> ptr \<Rightarrow> rb_store option" where
  [code]: "erase_color_loop s node parent = do {
     p \<leftarrow> node_at s parent;
     let d = (if node \<noteq> rb_right p then Lft else Rgt);
     (sibling, s) \<leftarrow> erase_case1 d s parent (child (opp d) p);
     b \<leftarrow> node_at s sibling;
     let tmp1 = child (opp d) b;
     outer_black \<leftarrow> black_or_null s tmp1;
     if outer_black then do {
       let tmp2 = child d b;
       inner_black \<leftarrow> black_or_null s tmp2;
       if inner_black then do {
         s \<leftarrow> hev_rbtree_node_set_parent_color s sibling parent HEV_RBTREE_RED;
         p \<leftarrow> node_at s parent;
         if hev_rbtree_node_is_red p then hev_rbtree_node_set_black s parent
         else if hev_rbtree_node_parent p = 0 then Some s
         else erase_color_loop s parent (hev_rbtree_node_parent p)
       }
       else do {
         (tmp1, sibling, s) \<leftarrow> erase_case3 d s parent sibling tmp2;
         erase_case4 d s parent sibling tmp1
       }
     }
     else erase_case4 d s parent sibling tmp1
   }"

definition hev_rbtree_erase :: "rb_store \<Rightarrow> ptr \<Rightarrow> rb_store option" where
  "hev_rbtree_erase s node = do {
     (rebalance, s) \<leftarrow> rbtree_erase_node s node;
     if rebalance \<noteq> 0 then erase_color_loop s 0 rebalance else Some s
   }"

end
