(* ===== verification/MappedDNS.thy ===== *)
theory MappedDNS
  imports RBTree HevList
begin

text \<open>
  The mapped DNS of \<open>hev-mapped-dns.c\<close>: it answers A queries with addresses of a private
  network, one per name, and gives the name back when such an address is used. Names are found
  through the red-black tree, the least recently used name is evicted through the list, and
  the table \<open>records\<close> leads from an index to its node.

  A node's tree links, list links and data are kept in three heaps under the node's address,
  so \<open>container_of\<close> is the identity.
\<close>

record HevMappedDNSNode =
  dn_name :: "byte list option"
  dn_idx :: int

text \<open>\<open>md_alloc\<close> is what the allocator does next: the address it returns (0 when it fails)
  and whether \<open>strdup\<close> succeeds.\<close>

record HevMappedDNS =
  md_use :: int
  md_max :: int
  md_net :: u32
  md_mask :: u32
  md_list :: HevList
  md_tree :: rb_store
  md_records :: "ptr list"
  md_links :: list_heap
  md_data :: "ptr \<rightharpoonup> HevMappedDNSNode"
  md_alloc :: "(ptr \<times> bool) list"

section \<open>Construction and removal\<close>

text \<open>The comparison \<open>max > ~mask\<close> is one of signed integers.\<close>

definition hev_mapped_dns_construct ::
  "HevMappedDNS \<Rightarrow> u32 \<Rightarrow> u32 \<Rightarrow> int \<Rightarrow> int \<times> HevMappedDNS" where
  "hev_mapped_dns_construct self net msk mx =
     (if mx > sint (NOT msk) then (-1, self)
      else (0, self\<lparr>md_max := mx, md_net := net, md_mask := msk\<rparr>))"

text \<open>The object is zeroed memory with room for \<open>max\<close> records; a negative size is not
  available.\<close>

definition hev_mapped_dns_new ::
  "u32 \<Rightarrow> u32 \<Rightarrow> int \<Rightarrow> bool \<Rightarrow> (ptr \<times> bool) list \<Rightarrow> HevMappedDNS option" where
  "hev_mapped_dns_new net msk mx got alloc =
     (if \<not> got \<or> mx < 0 then None
      else
        let self = \<lparr>md_use = 0, md_max = 0, md_net = 0, md_mask = 0, md_list = \<lparr>head = 0, tail = 0\<rparr>,
               md_tree = \<lparr>rb_root = 0, rb_heap = Map.empty\<rparr>, md_records = replicate (nat mx) 0,
               md_links = Map.empty, md_data = Map.empty, md_alloc = alloc\<rparr>;
            (res, self) = hev_mapped_dns_construct self net msk mx
        in if res < 0 then None else Some self)"

text \<open>A fresh zeroed node.\<close>

definition hev_mapped_dns_node_alloc :: "HevMappedDNS \<Rightarrow> byte list \<Rightarrow> ptr \<times> HevMappedDNS" where
  "hev_mapped_dns_node_alloc self name =
     (case md_alloc self of
        [] \<Rightarrow> (0, self)
      | (a, dup) # rest \<Rightarrow>
          if a = 0 then (0, self\<lparr>md_alloc := rest\<rparr>)
          else (a, self\<lparr>md_alloc := rest,
            md_tree := (md_tree self)\<lparr>rb_heap := (rb_heap (md_tree self))(a \<mapsto>
              \<lparr>parent_color = 0, rb_right = 0, rb_left = 0\<rparr>)\<rparr>,
            md_links := (md_links self)(a \<mapsto> \<lparr>ln_next = 0, ln_prev = 0\<rparr>),
            md_data := (md_data self)(a \<mapsto>
              \<lparr>dn_name = (if dup then Some name else None), dn_idx = 0\<rparr>)\<rparr>))"

definition hev_mapped_dns_node_free :: "HevMappedDNS \<Rightarrow> ptr \<Rightarrow> HevMappedDNS option" where
  "hev_mapped_dns_node_free self a = do {
     _ \<leftarrow> deref (md_data self) a;
     Some (self\<lparr>md_tree := (md_tree self)\<lparr>rb_heap := (rb_heap (md_tree self))(a := None)\<rparr>,
                md_links := (md_links self)(a := None), md_data := (md_data self)(a := None)\<rparr>)
   }"

text \<open>Freeing the nodes of the list one after the other; \<open>fuel\<close> bounds its length.\<close>

fun dns_free_nodes :: "nat \<Rightarrow> HevMappedDNS \<Rightarrow> ptr \<Rightarrow> HevMappedDNS option" where
  "dns_free_nodes fuel self n =
     (if n = 0 then Some self
      else case fuel of
        0 \<Rightarrow> None
      | Suc fuel \<Rightarrow> do {
          nxt \<leftarrow> hev_list_node_next (md_links self) n;
          self \<leftarrow> hev_mapped_dns_node_free self n;
          dns_free_nodes fuel self nxt
        })"

definition hev_mapped_dns_destruct :: "nat \<Rightarrow> HevMappedDNS \<Rightarrow> HevMappedDNS option" where
  "hev_mapped_dns_destruct fuel self = dns_free_nodes fuel self (hev_list_first (md_list self))"

section \<open>Finding and assigning\<close>

text \<open>The sign of \<open>strcmp\<close>.\<close>

fun c_strcmp :: "byte list \<Rightarrow> byte list \<Rightarrow> int" where
  "c_strcmp [] [] = 0"
| "c_strcmp [] (y # ys) = -1"
| "c_strcmp (x # xs) [] = 1"
| "c_strcmp (x # xs) (y # ys) = (if x = y then c_strcmp xs ys else if x < y then -1 else 1)"

definition dns_cmp :: "HevMappedDNS \<Rightarrow> byte list \<Rightarrow> ptr \<Rightarrow> int option" where
  "dns_cmp self name a = do {
     node \<leftarrow> deref (md_data self) a;
     nm \<leftarrow> dn_name node;
     Some (c_strcmp nm name)
   }"

text \<open>Moving a node to the end of the list.\<close>

definition dns_touch :: "HevMappedDNS \<Rightarrow> ptr \<Rightarrow> HevMappedDNS option" where
  "dns_touch self a = do {
     (l, h) \<leftarrow> hev_list_del (md_list self) (md_links self) a;
     (l, h) \<leftarrow> hev_list_add_tail l h a;
     Some (self\<lparr>md_list := l, md_links := h\<rparr>)
   }"

definition hev_mapped_dns_find ::
  "HevMappedDNS \<Rightarrow> byte list \<Rightarrow> (int \<times> HevMappedDNS) option" where
  "hev_mapped_dns_find self name = do {
     let idx = md_use self;
     r \<leftarrow> rb_search (md_tree self) (dns_cmp self name) (rb_root (md_tree self)) 0 Lft;
     case r of
       Inl a \<Rightarrow> do {
         self \<leftarrow> dns_touch self a;
         node \<leftarrow> deref (md_data self) a;
         Some (dn_idx node, self)
       }
     | Inr (parent, d) \<Rightarrow> do {
         let (a, self) = hev_mapped_dns_node_alloc self name;
         if a = 0 then Some (-1, self)
         else do {
           t \<leftarrow> hev_rbtree_node_link (md_tree self) a parent d;
           t \<leftarrow> hev_rbtree_insert_color t a;
           (l, h) \<leftarrow> hev_list_add_tail (md_list self) (md_links self) a;
           let self = self\<lparr>md_tree := t, md_list := l, md_links := h\<rparr>;
           (idx, self) \<leftarrow>
             (if md_use self < md_max self then Some (idx, self\<lparr>md_use := md_use self + 1\<rparr>)
              else do {
                let nf = hev_list_first (md_list self);
                node \<leftarrow> deref (md_data self) nf;
                let idx = dn_idx node;
                t \<leftarrow> hev_rbtree_erase (md_tree self) nf;
                (l, h) \<leftarrow> hev_list_del (md_list self) (md_links self) nf;
                self \<leftarrow> hev_mapped_dns_node_free (self\<lparr>md_tree := t, md_list := l, md_links := h\<rparr>) nf;
                Some (idx, self)
              });
           if idx < 0 \<or> length (md_records self) \<le> nat idx then None
           else do {
             let self = self\<lparr>md_records := (md_records self)[nat idx := a]\<rparr>;
             node \<leftarrow> deref (md_data self) a;
             Some (idx, self\<lparr>md_data := (md_data self)(a \<mapsto> node\<lparr>dn_idx := idx\<rparr>)\<rparr>)
           }
         }
       }
   }"

text \<open>The name of an address; \<open>Some (None, _)\<close> is NULL.\<close>

definition hev_mapped_dns_lookup ::
  "HevMappedDNS \<Rightarrow> u32 \<Rightarrow> (byte list option \<times> HevMappedDNS) option" where
  "hev_mapped_dns_lookup self ip = do {
     let idx = sint (ip AND NOT (md_mask self));
     if idx \<ge> md_max self then Some (None, self)
     else if idx < 0 \<or> length (md_records self) \<le> nat idx then None
     else do {
       let a = md_records self ! nat idx;
       if a = 0 then Some (None, self)
       else do {
         self \<leftarrow> dns_touch self a;
         node \<leftarrow> deref (md_data self) a;
         Some (dn_name node, self)
       }
     }
   }"

section \<open>Answering a query\<close>

definition read_u16 :: "byte list \<Rightarrow> nat \<Rightarrow> u16 option" where
  "read_u16 d i = do {
     hi \<leftarrow> mem_get d i;
     lo \<leftarrow> mem_get d (i + 1);
     Some (push_bit 8 (ucast hi) OR ucast lo)
   }"

definition write_u16 :: "u16 \<Rightarrow> byte list" where
  "write_u16 v = [ucast (drop_bit 8 v), ucast v]"

definition write_u32 :: "u32 \<Rightarrow> byte list" where
  "write_u32 v = [ucast (drop_bit 24 v), ucast (drop_bit 16 v), ucast (drop_bit 8 v), ucast v]"

text \<open>
  The inner loop: it walks the labels of a name and turns the length bytes into dots. The
  result is the buffer and the offset of the final zero, None for the return of -1 when a
  label reaches the end of the query.
\<close>

function dns_labels :: "byte list \<Rightarrow> nat \<Rightarrow> nat \<Rightarrow> (byte list \<times> nat option) option" where
  "dns_labels rb off qlen = do {
     b \<leftarrow> mem_get rb off;
     if b = 0 then Some (rb, Some off)
     else
       let off' = off + 1 + unat b
       in if qlen \<le> off' then Some (rb, None)
          else do {
            rb \<leftarrow> mem_write rb off [46];
            dns_labels rb off' qlen
          }
   }"
  by auto

termination
  by (relation "measure (\<lambda>(rb, off, qlen). qlen - off)") auto

declare dns_labels.simps [simp del]

text \<open>
  The loop over the questions. \<open>ans\<close> are the answers so far, as pairs of an address and the
  offset of the name in the query.
\<close>

fun dns_questions ::
  "HevMappedDNS \<Rightarrow> nat \<Rightarrow> byte list \<Rightarrow> nat \<Rightarrow> nat \<Rightarrow> (u32 \<times> nat) list \<Rightarrow>
   (((u32 \<times> nat) list \<times> nat) option \<times> byte list \<times> HevMappedDNS) option" where
  "dns_questions self 0 rb off qlen ans = Some (Some (ans, off), rb, self)"
| "dns_questions self (Suc n) rb off qlen ans = do {
     let ipo = off;
     (rb, r) \<leftarrow> dns_labels rb off qlen;
     case r of
       None \<Rightarrow> Some (None, rb, self)
     | Some off \<Rightarrow> do {
         let off = off + 1;
         if qlen \<le> off + 3 then Some (None, rb, self)
         else do {
           qtype \<leftarrow> read_u16 rb off;
           qclass \<leftarrow> (if qtype = 1 then read_u16 rb (off + 2) else Some 0);
           (ans, self) \<leftarrow>
             (if qtype = 1 \<and> qclass = 1 then do {
                name \<leftarrow> c_string (drop (ipo + 1) rb);
                (idx, self) \<leftarrow> hev_mapped_dns_find self name;
                Some (if idx \<ge> 0 then ans @ [(md_net self OR word_of_int idx, ipo)] else ans, self)
              } else Some (ans, self));
           dns_questions self n rb (off + 4) qlen ans
         }
       }
   }"

text \<open>One answer record: a compression pointer to the name, type A, class IN, a time to live
  of one second and the address. The offset is cut to one byte.\<close>

definition dns_answer :: "u32 \<Rightarrow> nat \<Rightarrow> byte list" where
  "dns_answer ip ipo =
     [0xc0, word_of_nat ipo] @ write_u16 1 @ write_u16 1 @ write_u32 1 @ write_u16 4 @ write_u32 ip"

fun dns_answers ::
  "(u32 \<times> nat) list \<Rightarrow> byte list \<Rightarrow> nat \<Rightarrow> nat \<Rightarrow> (byte list \<times> nat option) option" where
  "dns_answers [] sb off slen = Some (sb, Some off)"
| "dns_answers ((ip, ipo) # ans) sb off slen =
     (if slen \<le> off + 15 then Some (sb, None)
      else do {
        sb \<leftarrow> mem_write sb off (dns_answer ip ipo);
        dns_answers ans sb (off + 16) slen
      })"

text \<open>The result is the C result, the query buffer, the reply buffer and the object.\<close>

definition hev_mapped_dns_handle ::
  "HevMappedDNS \<Rightarrow> byte list \<Rightarrow> nat \<Rightarrow> byte list \<Rightarrow> nat \<Rightarrow>
   (int \<times> byte list \<times> byte list \<times> HevMappedDNS) option" where
  "hev_mapped_dns_handle self req qlen res slen =
     (if slen < qlen then Some (-1, req, res, self)
      else do {
        q \<leftarrow> mem_read req 0 qlen;
        res \<leftarrow> mem_write res 0 q;
        qdb \<leftarrow> mem_read req 4 2;
        let qd = ntohs (bytes_u16 (qdb ! 0) (qdb ! 1));
        req \<leftarrow> mem_write req 4 (u16_bytes qd);
        flb \<leftarrow> mem_read res 2 2;
        let fl = ntohs (bytes_u16 (flb ! 0) (flb ! 1));
        res \<leftarrow> mem_write res 2 (u16_bytes fl);
        res \<leftarrow> mem_write res 8 (u16_bytes 0);
        res \<leftarrow> mem_write res 6 (u16_bytes 0);
        if qd > 32 then Some (-1, req, res, self)
        else do {
          (r, req, self) \<leftarrow> dns_questions self (unat qd) req 12 qlen [];
          case r of
            None \<Rightarrow> Some (-1, req, res, self)
          | Some (ans, off) \<Rightarrow> do {
              (res, r) \<leftarrow> dns_answers ans res off slen;
              case r of
                None \<Rightarrow> Some (-1, req, res, self)
              | Some off \<Rightarrow> do {
                  res \<leftarrow> mem_write res 2
                    (u16_bytes (htons (fl OR 0x8000 OR drop_bit 1 (fl AND 0x100))));
                  res \<leftarrow> mem_write res 6 (u16_bytes (htons (word_of_nat (length ans))));
                  Some (int off, req, res, self)
                }
            }
        }
      })"

end
