(* ===== verification/Utils.thy ===== *)
theory Utils
  imports Socks5Base MappedDNS
begin

text \<open>
  The address conversions and socket options of \<open>misc/hev-utils.c\<close>. An IP address of lwIP is
  its type with the bytes in network order. The mapped DNS is the object that
  \<open>hev_mapped_dns_get\<close> returns, None for NULL; looking a name up moves it in the list.
\<close>

datatype ip_addr = IPADDR_TYPE_V4 "byte list" | IPADDR_TYPE_V6 "byte list" | IPADDR_TYPE_ANY

text \<open>\<open>ip_2_ip4 (ip)->addr\<close>: the word the four bytes are on a little-endian host.\<close>

definition ip4_word :: "byte list \<Rightarrow> u32 option" where
  "ip4_word ip = (case ip of a # b # c # d # _ \<Rightarrow> Some (bytes_u32 a b c d) | _ \<Rightarrow> None)"

definition set_limit_nofile :: "int \<Rightarrow> world \<Rightarrow> int \<times> world" where
  "set_limit_nofile limit_nofile w = sys_result w"

definition set_sock_mark :: "int \<Rightarrow> u32 \<Rightarrow> world \<Rightarrow> int \<times> world" where
  "set_sock_mark fd mark w = sys_result w"

definition hev_socks5_addr_from_lwip ::
  "HevMappedDNS option \<Rightarrow> HevSocks5Addr \<Rightarrow> ip_addr \<Rightarrow> u16 \<Rightarrow>
   (int \<times> HevSocks5Addr \<times> HevMappedDNS option) option" where
  "hev_socks5_addr_from_lwip dns addr ip port =
     (case ip of
        IPADDR_TYPE_V4 bs \<Rightarrow> do {
          (name, dns) \<leftarrow>
            (case dns of
               None \<Rightarrow> Some (None, None)
             | Some d \<Rightarrow> do {
                 a \<leftarrow> ip4_word bs;
                 (name, d) \<leftarrow> hev_mapped_dns_lookup d (ntohl a);
                 Some (name, Some d)
               });
          (_, addr) \<leftarrow>
            (case name of
               Some name \<Rightarrow> hev_socks5_addr_from_name addr name (uint (htons port))
             | None \<Rightarrow> hev_socks5_addr_from_ipv4 addr bs (uint (htons port)));
          Some (0, addr, dns)
        }
      | IPADDR_TYPE_V6 bs \<Rightarrow> do {
          (_, addr) \<leftarrow> hev_socks5_addr_from_ipv6 addr bs (uint (htons port));
          Some (0, addr, dns)
        }
      | IPADDR_TYPE_ANY \<Rightarrow> Some (-1, addr, dns))"

definition hev_socks5_addr_into_lwip ::
  "HevSocks5Addr \<Rightarrow> ip_addr \<Rightarrow> u16 \<Rightarrow> (int \<times> ip_addr \<times> u16) option" where
  "hev_socks5_addr_into_lwip addr ip port =
     (if atype addr = HEV_SOCKS5_ADDR_TYPE_IPV4 then do {
        bs \<leftarrow> mem_read (body addr) 0 4;
        p \<leftarrow> mem_read (body addr) 4 2;
        Some (0, IPADDR_TYPE_V4 bs, ntohs (bytes_u16 (p ! 0) (p ! 1)))
      }
      else if atype addr = HEV_SOCKS5_ADDR_TYPE_IPV6 then do {
        bs \<leftarrow> mem_read (body addr) 0 16;
        p \<leftarrow> mem_read (body addr) 16 2;
        Some (0, IPADDR_TYPE_V6 bs, ntohs (bytes_u16 (p ! 0) (p ! 1)))
      }
      else Some (-1, ip, port))"



end
