(* ===== verification/SessionTCP.thy ===== *)
theory SessionTCP
  imports Utils Socks5Client Config RingBuffer
begin

text \<open>
  The TCP session of \<open>hev-socks5-session-tcp.c\<close> with the common part of
  \<open>hev-socks5-session.c\<close>. It relays between a connection of lwIP, whose handlers run while
  the session's task waits, and the socket to the SOCKS5 server.

  The connection of lwIP is what the session has done with it: the bytes handed over by
  \<open>tcp_write\<close>, the window returned by \<open>tcp_recved\<close>, and whether its sending side was
  shut down; \<open>pcb_errs\<close> are the results its next calls return (0, \<open>ERR_OK\<close>, when there
  is none). A chain of \<open>pbuf\<close>s is the list of their payloads, the empty list being NULL.
\<close>

type_synonym err_t = "8 word"

definition ERR_OK :: err_t where "ERR_OK = 0"
definition ERR_WOULDBLOCK :: err_t where "ERR_WOULDBLOCK = - 7"
definition TCP_WND_MAX :: nat where "TCP_WND_MAX = 65528"

record tcp_pcb =
  pcb_written :: "byte list"
  pcb_recved :: nat
  pcb_errs :: "err_t list"
  pcb_shut :: bool
  pcb_local_ip :: ip_addr
  pcb_local_port :: u16

record HevSocks5SessionTCP = HevSocks5ClientTCP +
  st_task :: ptr
  st_node :: ptr
  st_queue :: "byte list list"
  st_pcb :: "tcp_pcb option"
  st_buffer :: "HevRingBuffer option"
  st_pcb_eof :: bool
  st_fd_shut :: bool

section \<open>Calls of lwIP and of the kernel\<close>

text \<open>\<open>pbuf_free_header\<close> of lwIP takes a 16-bit size.\<close>

fun free_header_loop :: "byte list list \<Rightarrow> nat \<Rightarrow> byte list list" where
  "free_header_loop [] free_left = []"
| "free_header_loop (p # ps) free_left =
     (if free_left = 0 then p # ps
      else if length p \<le> free_left then free_header_loop ps (free_left - length p)
      else drop free_left p # ps)"

definition pbuf_free_header :: "byte list list \<Rightarrow> u16 \<Rightarrow> byte list list" where
  "pbuf_free_header q sz = free_header_loop q (unat sz)"

definition pcb_result :: "tcp_pcb \<Rightarrow> err_t \<times> tcp_pcb" where
  "pcb_result pcb = (case pcb_errs pcb of [] \<Rightarrow> (ERR_OK, pcb) | e # es \<Rightarrow> (e, pcb\<lparr>pcb_errs := es\<rparr>))"

definition tcp_write :: "tcp_pcb \<Rightarrow> byte list \<Rightarrow> u16 \<Rightarrow> err_t \<times> tcp_pcb" where
  "tcp_write pcb data len =
     (let (err, pcb) = pcb_result pcb
      in (err, if err = ERR_OK then pcb\<lparr>pcb_written := pcb_written pcb @ take (unat len) data\<rparr> else pcb))"

definition tcp_recved :: "u16 \<Rightarrow> tcp_pcb \<Rightarrow> tcp_pcb" where
  "tcp_recved len pcb = pcb\<lparr>pcb_recved := pcb_recved pcb + unat len\<rparr>"

text \<open>\<open>readv\<close> and \<open>writev\<close> on the non-blocking socket.\<close>

definition sys_writev :: "byte list list \<Rightarrow> world \<Rightarrow> int \<times> world" where
  "sys_writev iov w = hev_task_io_socket_send (concat iov) False True w"

definition sys_readv :: "iovec list \<Rightarrow> world \<Rightarrow> int \<times> byte list \<times> world" where
  "sys_readv iov w = hev_task_io_socket_recv (iov_size iov) False True w"

section \<open>Forwarding\<close>

text \<open>Each direction takes a mutex after its system call, and other tasks may run while it
  waits for it, so each is split there. The first half of the forward direction returns the
  result for the loop, or the number of bytes the socket took.\<close>

definition tcp_splice_f_send ::
  "'a HevSocks5SessionTCP_scheme \<Rightarrow> world \<Rightarrow> (int + nat) \<times> 'a HevSocks5SessionTCP_scheme \<times> world" where
  "tcp_splice_f_send self w =
     (if st_queue self \<noteq> [] then
        let (s, w) = sys_writev (take 64 (st_queue self)) w
        in if 0 \<ge> s
           then (Inl (if 0 > s \<and> w_errno w = EAGAIN then 0 else -1), self, w)
           else (Inr (nat s), self, w)
      else if st_pcb_eof self then (Inl (-1), self\<lparr>st_fd_shut := True\<rparr>, w)
      else (Inl 0, self, w))"

definition tcp_splice_f_done ::
  "nat \<Rightarrow> 'a HevSocks5SessionTCP_scheme \<Rightarrow> 'a HevSocks5SessionTCP_scheme" where
  "tcp_splice_f_done s self =
     self\<lparr>st_queue := pbuf_free_header (st_queue self) (word_of_nat s),
          st_pcb := map_option (tcp_recved (word_of_nat s)) (st_pcb self)\<rparr>"

definition tcp_splice_f ::
  "'a HevSocks5SessionTCP_scheme \<Rightarrow> world \<Rightarrow> int \<times> 'a HevSocks5SessionTCP_scheme \<times> world" where
  "tcp_splice_f self w =
     (let (r, self, w) = tcp_splice_f_send self w
      in case r of Inl res \<Rightarrow> (res, self, w) | Inr s \<Rightarrow> (1, tcp_splice_f_done s self, w))"

text \<open>The backward direction reads into the ring buffer, then hands it to the connection.\<close>

definition tcp_splice_b_read ::
  "'a HevSocks5SessionTCP_scheme \<Rightarrow> world \<Rightarrow> (int \<times> 'a HevSocks5SessionTCP_scheme \<times> world) option" where
  "tcp_splice_b_read self w = do {
     buffer \<leftarrow> st_buffer self;
     let iov = hev_ring_buffer_writing buffer;
     if iov \<noteq> [] then do {
       let (s, bs, w) = sys_readv iov w;
       if 0 \<ge> s then Some (if 0 > s \<and> w_errno w = EAGAIN then 0 else -1, self, w)
       else do {
         let buffer = buffer\<lparr>rb_data := iov_scatter iov bs (rb_data buffer)\<rparr>;
         Some (1, self\<lparr>st_buffer := Some (hev_ring_buffer_write_finish buffer (word_of_int s))\<rparr>, w)
       }
     }
     else Some (1, self, w)
   }"

text \<open>The loop over the iovecs: the accumulated error and length.\<close>

fun tcp_write_iov ::
  "iovec list \<Rightarrow> byte list \<Rightarrow> err_t \<Rightarrow> size_t \<Rightarrow> tcp_pcb \<Rightarrow> err_t \<times> size_t \<times> tcp_pcb" where
  "tcp_write_iov [] d err s pcb = (err, s, pcb)"
| "tcp_write_iov (v # vs) d err s pcb =
     (let (e, pcb) = tcp_write pcb (drop (unat (iov_base v)) d) (ucast (iov_len v))
      in tcp_write_iov vs d (err OR e) (s + iov_len v) pcb)"

definition tcp_splice_b_write ::
  "int \<Rightarrow> 'a HevSocks5SessionTCP_scheme \<Rightarrow> (int \<times> 'a HevSocks5SessionTCP_scheme) option" where
  "tcp_splice_b_write res self = do {
     buffer \<leftarrow> st_buffer self;
     case st_pcb self of
       None \<Rightarrow> Some (-1, self)
     | Some pcb \<Rightarrow> do {
         let iov = hev_ring_buffer_reading buffer;
         if iov \<noteq> [] then do {
           let (err, s, pcb) = tcp_write_iov iov (rb_data buffer) ERR_OK 0 pcb;
           let buffer = hev_ring_buffer_read_finish buffer s;
           let (e, pcb) = pcb_result pcb;
           let err = err OR e;
           Some (if err \<noteq> ERR_OK then -1 else 1, self\<lparr>st_pcb := Some pcb, st_buffer := Some buffer\<rparr>)
         }
         else if res < 0 then Some (res, self\<lparr>st_pcb := Some (pcb\<lparr>pcb_shut := True\<rparr>)\<rparr>)
         else Some (res, self)
       }
   }"

definition tcp_splice_b ::
  "'a HevSocks5SessionTCP_scheme \<Rightarrow> world \<Rightarrow> (int \<times> 'a HevSocks5SessionTCP_scheme \<times> world) option" where
  "tcp_splice_b self w = do {
     (res, self, w) \<leftarrow> tcp_splice_b_read self w;
     (res, self) \<leftarrow> tcp_splice_b_write res self;
     Some (res, self, w)
   }"

section \<open>Handlers\<close>

text \<open>Waking the session's task up has no effect on the data.\<close>

definition tcp_recv_handler ::
  "'a HevSocks5SessionTCP_scheme \<Rightarrow> byte list list \<Rightarrow> err_t \<times> 'a HevSocks5SessionTCP_scheme" where
  "tcp_recv_handler self p =
     (if p \<noteq> [] then
        if st_queue self = [] then (ERR_OK, self\<lparr>st_queue := p\<rparr>)
        else if unat (word_of_nat (length (concat (st_queue self))) :: u16) > TCP_WND_MAX
        then (ERR_WOULDBLOCK, self)
        else (ERR_OK, self\<lparr>st_queue := st_queue self @ p\<rparr>)
      else (ERR_OK, self\<lparr>st_pcb_eof := True\<rparr>))"

definition tcp_sent_handler ::
  "'a HevSocks5SessionTCP_scheme \<Rightarrow> u16 \<Rightarrow> (err_t \<times> 'a HevSocks5SessionTCP_scheme) option" where
  "tcp_sent_handler self len = do {
     buffer \<leftarrow> st_buffer self;
     Some (ERR_OK, self\<lparr>st_buffer := Some (hev_ring_buffer_read_release buffer (ucast len))\<rparr>)
   }"

text \<open>\<open>hev_socks5_session_terminate\<close>: the wait of the task ends at once.\<close>

definition hev_socks5_session_terminate :: "'a HevSocks5_scheme \<Rightarrow> 'a HevSocks5_scheme" where
  "hev_socks5_session_terminate self = hev_socks5_set_timeout self 0"

definition tcp_err_handler ::
  "'a HevSocks5SessionTCP_scheme \<Rightarrow> err_t \<Rightarrow> 'a HevSocks5SessionTCP_scheme" where
  "tcp_err_handler self err = hev_socks5_session_terminate (self\<lparr>st_pcb := None\<rparr>)"

section \<open>The splice loop\<close>

text \<open>
  What happens while the task waits: how its sleep ends, and the handlers that run meanwhile.
  The waits of one session are a script of these; after its end the session only times out.
  Every wait also moves the session to the end of the tunnel's list, which is the argument
  \<open>update\<close> on the tunnel's state \<open>t\<close>.
\<close>

datatype lwip_event = EvRecv "byte list list" | EvSent u16 | EvErr err_t

definition lwip_handle ::
  "lwip_event \<Rightarrow> 'a HevSocks5SessionTCP_scheme \<Rightarrow> 'a HevSocks5SessionTCP_scheme option" where
  "lwip_handle ev self =
     (case ev of
        EvRecv p \<Rightarrow> Some (snd (tcp_recv_handler self p))
      | EvSent n \<Rightarrow> map_option snd (tcp_sent_handler self n)
      | EvErr e \<Rightarrow> Some (tcp_err_handler self e))"

fun lwip_handle_all ::
  "lwip_event list \<Rightarrow> 'a HevSocks5SessionTCP_scheme \<Rightarrow> 'a HevSocks5SessionTCP_scheme option" where
  "lwip_handle_all [] self = Some self"
| "lwip_handle_all (ev # evs) self = do { self \<leftarrow> lwip_handle ev self; lwip_handle_all evs self }"

type_synonym waits = "(int \<times> lwip_event list) list"

definition tcp_task_io_yielder ::
  "(ptr \<Rightarrow> 't \<Rightarrow> 't option) \<Rightarrow> HevTaskYieldType \<Rightarrow> waits \<Rightarrow> 'a HevSocks5SessionTCP_scheme \<Rightarrow> 't \<Rightarrow>
   (int \<times> waits \<times> 'a HevSocks5SessionTCP_scheme \<times> 't) option" where
  "tcp_task_io_yielder update ty ws self t =
     (case ws of
        [] \<Rightarrow> Some (-1, [], self, t)
      | (left, evs) # ws \<Rightarrow> do {
          let res = hev_socks5_task_io_yielder (\<lambda>_. left) ty self;
          self \<leftarrow> lwip_handle_all evs self;
          t \<leftarrow> update (st_node self) t;
          Some (res, ws, self, t)
        })"

text \<open>The two loops; both end because every turn uses up a wait.\<close>

function tcp_splice_loop ::
  "(ptr \<Rightarrow> 't \<Rightarrow> 't option) \<Rightarrow> int \<Rightarrow> int \<Rightarrow> waits \<Rightarrow> 'a HevSocks5SessionTCP_scheme \<Rightarrow> world \<Rightarrow> 't \<Rightarrow>
   (waits \<times> 'a HevSocks5SessionTCP_scheme \<times> world \<times> 't) option" where
  "tcp_splice_loop update res_f res_b ws self w t = do {
     let (res_f, self, w) = (if 0 \<le> res_f then tcp_splice_f self w else (res_f, self, w));
     (res_b, self, w) \<leftarrow> (if 0 \<le> res_b then tcp_splice_b self w else Some (res_b, self, w));
     if 0 < res_f \<or> 0 < res_b \<or> res_f = 0 \<or> res_b = 0
     then do {
       let ty = (if 0 < res_f \<or> 0 < res_b then HEV_TASK_YIELD else HEV_TASK_WAITIO);
       (r, ws', self, t) \<leftarrow> tcp_task_io_yielder update ty ws self t;
       if r < 0 \<or> length ws \<le> length ws' then Some (ws', self, w, t)
       else tcp_splice_loop update res_f res_b ws' self w t
     }
     else Some (ws, self, w, t)
   }"
  by auto

termination
  by (relation "measure (\<lambda>(_, _, _, ws, _). length ws)") auto

declare tcp_splice_loop.simps [simp del]

text \<open>The second loop waits until lwIP has had everything acknowledged.\<close>

function tcp_drain_loop ::
  "(ptr \<Rightarrow> 't \<Rightarrow> 't option) \<Rightarrow> waits \<Rightarrow> 'a HevSocks5SessionTCP_scheme \<Rightarrow> 't \<Rightarrow>
   (waits \<times> 'a HevSocks5SessionTCP_scheme \<times> 't) option" where
  "tcp_drain_loop update ws self t =
     (if st_pcb self = None then Some (ws, self, t)
      else do {
        buffer \<leftarrow> st_buffer self;
        if hev_ring_buffer_get_use_size buffer = 0 then Some (ws, self, t)
        else do {
          (r, ws', self, t) \<leftarrow> tcp_task_io_yielder update HEV_TASK_WAITIO ws self t;
          if r < 0 \<or> length ws \<le> length ws' then Some (ws', self, t)
          else tcp_drain_loop update ws' self t
        }
      })"
  by auto

termination
  by (relation "measure (\<lambda>(_, ws, _). length ws)") auto

declare tcp_drain_loop.simps [simp del]

text \<open>\<open>junk\<close> is the indeterminate content of the buffer on the stack.\<close>

definition hev_socks5_session_tcp_splice ::
  "hev_config \<Rightarrow> (ptr \<Rightarrow> 't \<Rightarrow> 't option) \<Rightarrow> byte list \<Rightarrow> waits \<Rightarrow> 'a HevSocks5SessionTCP_scheme \<Rightarrow>
   world \<Rightarrow> 't \<Rightarrow> (waits \<times> 'a HevSocks5SessionTCP_scheme \<times> world \<times> 't) option" where
  "hev_socks5_session_tcp_splice cf update junk ws self w t =
     (if st_pcb self = None then Some (ws, self, w, t)
      else do {
        let tcp_buffer_size = hev_config_get_misc_tcp_buffer_size cf;
        let self = self\<lparr>st_buffer := Some (hev_ring_buffer_alloca (word_of_int tcp_buffer_size) junk)\<rparr>;
        (ws, self, w, t) \<leftarrow> tcp_splice_loop update 1 1 ws self w t;
        (ws, self, t) \<leftarrow> tcp_drain_loop update ws self t;
        Some (ws, self, w, t)
      })"

section \<open>The object\<close>

definition hev_socks5_session_tcp_bind ::
  "hev_config \<Rightarrow> 'a HevSocks5_scheme \<Rightarrow> int \<Rightarrow> sockaddr_in6 \<Rightarrow> world \<Rightarrow> int \<times> world" where
  "hev_socks5_session_tcp_bind cf self fd dest w =
     (let mark = srv_mark (hev_config_get_socks5_server cf)
      in if mark \<noteq> 0 then let (res, w) = set_sock_mark fd mark w in (if res < 0 then -1 else 0, w)
         else (0, w))"

definition hev_socks5_session_tcp_get_task :: "'a HevSocks5SessionTCP_scheme \<Rightarrow> ptr" where
  "hev_socks5_session_tcp_get_task self = st_task self"

definition hev_socks5_session_tcp_set_task ::
  "'a HevSocks5SessionTCP_scheme \<Rightarrow> ptr \<Rightarrow> 'a HevSocks5SessionTCP_scheme" where
  "hev_socks5_session_tcp_set_task self task = self\<lparr>st_task := task\<rparr>"

definition hev_socks5_session_tcp_get_node :: "'a HevSocks5SessionTCP_scheme \<Rightarrow> ptr" where
  "hev_socks5_session_tcp_get_node self = st_node self"

text \<open>The address lies on the stack. Its conversion may move the name it stands for in the
  mapped DNS.\<close>

definition hev_socks5_session_tcp_construct ::
  "HevMappedDNS option \<Rightarrow> 'a HevSocks5SessionTCP_scheme \<Rightarrow> tcp_pcb \<Rightarrow> world \<Rightarrow>
   (int \<times> 'a HevSocks5SessionTCP_scheme \<times> HevMappedDNS option \<times> world) option" where
  "hev_socks5_session_tcp_construct dns self pcb w = do {
     (res, addr, dns) \<leftarrow> hev_socks5_addr_from_lwip dns \<lparr>atype = 0, body = w_junk w\<rparr>
       (pcb_local_ip pcb) (pcb_local_port pcb);
     if res < 0 then Some (-1, self, dns, w)
     else do {
       (res, self, w) \<leftarrow> hev_socks5_client_tcp_construct self addr w;
       if res < 0 then Some (-1, self, dns, w)
       else Some (0, self\<lparr>st_pcb := Some pcb\<rparr>, dns, w)
     }
   }"

text \<open>The zeroed object; \<open>node\<close> is the address of the list node inside it.\<close>

definition HevSocks5SessionTCP_zero :: "ptr \<Rightarrow> HevSocks5SessionTCP" where
  "HevSocks5SessionTCP_zero node =
     \<lparr>sk_fd = 0, sk_timeout = 0, sk_udp_associated = False, sk_type = HEV_SOCKS5_TYPE_NONE,
      sk_addr_family = 0, auth_user = None, auth_pass = None, ctcp_addr = None, st_task = 0,
      st_node = node, st_queue = [], st_pcb = None, st_buffer = None, st_pcb_eof = False,
      st_fd_shut = False\<rparr>"

definition hev_socks5_session_tcp_new ::
  "HevMappedDNS option \<Rightarrow> tcp_pcb \<Rightarrow> ptr \<Rightarrow> world \<Rightarrow>
   (HevSocks5SessionTCP option \<times> HevMappedDNS option \<times> world) option" where
  "hev_socks5_session_tcp_new dns pcb node w = do {
     let (got, w) = sys_malloc w;
     if \<not> got then Some (None, dns, w)
     else do {
       (res, self, dns, w) \<leftarrow> hev_socks5_session_tcp_construct dns (HevSocks5SessionTCP_zero node) pcb w;
       if res < 0 then Some (None, dns, sys_free w) else Some (Some self, dns, w)
     }
   }"

text \<open>Whether the connection is aborted, and the world after the base class's destructor. The
  queue's \<open>pbuf\<close>s go back to lwIP.\<close>

definition hev_socks5_session_tcp_destruct ::
  "'a HevSocks5SessionTCP_scheme \<Rightarrow> world \<Rightarrow> bool \<times> world" where
  "hev_socks5_session_tcp_destruct self w =
     (st_pcb self \<noteq> None, hev_socks5_client_tcp_destruct self w)"

section \<open>Running a session\<close>

text \<open>\<open>hev_socks5_session_run\<close>, for either kind of session: \<open>splicer\<close> is the one of the
  session's class. The reads and writes of the handshake do not wait in the script.\<close>

definition hev_socks5_session_run ::
  "hev_config \<Rightarrow> socks5_settings \<Rightarrow> resolver \<Rightarrow>
   ('a HevSocks5Client_scheme \<Rightarrow> int \<Rightarrow> sockaddr_in6 \<Rightarrow> world \<Rightarrow> int \<times> world) \<Rightarrow>
   ('a HevSocks5Client_scheme \<Rightarrow> world \<Rightarrow> HevSocks5Addr option \<times> 'a HevSocks5Client_scheme \<times> world) \<Rightarrow>
   ('a HevSocks5Client_scheme \<Rightarrow> HevSocks5Addr \<Rightarrow> world \<Rightarrow>
      (int \<times> 'a HevSocks5Client_scheme \<times> world) option) \<Rightarrow>
   ('a HevSocks5Client_scheme \<Rightarrow> world \<Rightarrow> 't \<Rightarrow> ('a HevSocks5Client_scheme \<times> world \<times> 't) option) \<Rightarrow>
   'a HevSocks5Client_scheme \<Rightarrow> world \<Rightarrow> 't \<Rightarrow> ('a HevSocks5Client_scheme \<times> world \<times> 't) option" where
  "hev_socks5_session_run cf cfg rs binder get_upstream_addr set_upstream_addr splicer self w t = do {
     let srv = hev_config_get_socks5_server cf;
     addr \<leftarrow> c_string (srv_addr srv);
     (res, self, w) \<leftarrow> hev_socks5_client_connect cfg rs binder self addr (uint (srv_port srv)) w;
     if res < 0 then Some (self, w, t)
     else do {
       let self = (if srv_user srv \<noteq> None \<and> srv_pass srv \<noteq> None
                   then hev_socks5_client_set_auth self (srv_user srv) (srv_pass srv) else self);
       (res, self, w) \<leftarrow>
         hev_socks5_client_handshake cfg get_upstream_addr set_upstream_addr self (srv_pipeline srv) w;
       if res < 0 then Some (self, w, t) else splicer self w t
     }
   }"

end
