(* ===== verification/SessionFlow.thy ===== *)
theory SessionFlow
  imports SessionTCP
begin

text \<open>
  The data of a TCP session. The two directions of the splice loop, halted where they wait for
  the mutex, and the handlers of lwIP are the steps of a transition system, in any order. Its
  invariant says that both byte streams are kept: nothing is lost, doubled or reordered on the
  way from lwIP to the socket and from the socket to lwIP.
\<close>

section \<open>System calls\<close>

definition tx_nonpos :: "world \<Rightarrow> bool" where
  "tx_nonpos w \<longleftrightarrow> (\<forall>r. TxErr r \<in> set (w_txs w) \<longrightarrow> r \<le> 0)"

lemma writev_result:
  assumes "sys_writev iov w = (s, w')" "tx_nonpos w"
  shows "w_tx w' = w_tx w @ take (nat s) (concat iov)" "nat s \<le> length (concat iov)"
    "tx_nonpos w'" "w_rx w' = w_rx w"
proof -
  have "w_tx w' = w_tx w @ take (nat s) (concat iov) \<and> nat s \<le> length (concat iov) \<and> tx_nonpos w'"
    using assms
    by (cases "w_txs w"; cases "hd (w_txs w)")
      (auto simp: sys_writev_def hev_task_io_socket_send_def tx_nonpos_def Let_def min_def
        split: if_splits)
  then show "w_tx w' = w_tx w @ take (nat s) (concat iov)" "nat s \<le> length (concat iov)" "tx_nonpos w'"
    by simp_all
  show "w_rx w' = w_rx w" using assms(1) send_frame(1) by (simp add: sys_writev_def)
qed

lemma readv_result:
  assumes "sys_readv iov w = (s, bs, w')" "rx_ok (w_rx w)"
  shows "0 < s \<Longrightarrow> length bs = nat s" "length bs \<le> iov_size iov" "rx_ok (w_rx w')"
    "w_tx w' = w_tx w" "w_txs w' = w_txs w"
proof -
  obtain rx e where rl: "recv_loop False True (w_rx w) (iov_size iov) [] (w_errno w) = (s, bs, rx, e)"
    and w': "w' = w\<lparr>w_rx := rx, w_errno := e\<rparr>"
    using assms(1) by (auto simp: sys_readv_def hev_task_io_socket_recv_def split: prod.splits)
  show "0 < s \<Longrightarrow> length bs = nat s"
    using rl assms(2) by (cases "w_rx w"; cases "hd (w_rx w)") (auto simp: Let_def split: if_splits)
  show "length bs \<le> iov_size iov" using recv_loop_length [OF rl] by simp
  show "rx_ok (w_rx w')" using recv_loop_ok [OF rl assms(2)] by (simp add: w')
  show "w_tx w' = w_tx w" "w_txs w' = w_txs w" by (simp_all add: w')
qed

lemma concat_free_header: "concat (free_header_loop q n) = drop n (concat q)"
  by (induction q n rule: free_header_loop.induct) auto

lemma take_chunks_prefix: "n \<le> length (concat (take k q)) \<Longrightarrow> take n (concat (take k q)) = take n (concat q)"
  by (metis append_take_drop_id concat_append take_append diff_is_0_eq take_0 append_Nil2)

lemma tcp_write_iov_ok:
  "tcp_write_iov vs d err s pcb = (err', s', pcb') \<Longrightarrow> set (pcb_errs pcb) \<subseteq> {ERR_OK} \<Longrightarrow>
   \<forall>v \<in> set vs. unat (iov_len v) < 65536 \<Longrightarrow>
   err' = err \<and> s' = s + sum_list (map iov_len vs) \<and> set (pcb_errs pcb') \<subseteq> {ERR_OK} \<and>
   pcb_written pcb' = pcb_written pcb @ iov_gather vs d"
proof (induction vs arbitrary: err s pcb)
  case (Cons v vs)
  obtain e p where w: "tcp_write pcb (drop (unat (iov_base v)) d) (ucast (iov_len v)) = (e, p)" by force
  have len: "unat (ucast (iov_len v) :: u16) = unat (iov_len v)"
    using Cons.prems(3) by (simp add: unat_ucast_size_u16)
  have p: "e = ERR_OK \<and> set (pcb_errs p) \<subseteq> {ERR_OK} \<and>
      pcb_written p = pcb_written pcb @ take (unat (iov_len v)) (drop (unat (iov_base v)) d)"
    using w Cons.prems(2)
    by (cases "pcb_errs pcb") (auto simp: tcp_write_def pcb_result_def len)
  with Cons.prems Cons.IH [of "err OR e" "s + iov_len v" p] w show ?case
    by (simp add: iov_gather_def ERR_OK_def add.assoc)
qed (simp add: iov_gather_def)

lemma reading_lengths:
  assumes "rb_ok b" "unat (max_size b) < 65536"
  shows "\<forall>v \<in> set (hev_ring_buffer_reading b). unat (iov_len v) < 65536"
    and "sum_list (map iov_len (hev_ring_buffer_reading b)) = rda_size b"
proof -
  have up: "unat (max_size b - rp b) = unat (max_size b) - unat (rp b)"
    using assms by (intro unat_sub_size') (simp add: rb_ok_def)
  have "unat (rda_size b) \<le> unat (max_size b)" using assms by (simp add: rb_ok_def)
  moreover have "\<not> rda_size b \<le> max_size b - rp b \<Longrightarrow>
      unat (rda_size b - (max_size b - rp b)) = unat (rda_size b) - unat (max_size b - rp b)"
    by (intro unat_sub_size') (simp add: word_le_nat_alt)
  ultimately show "\<forall>v \<in> set (hev_ring_buffer_reading b). unat (iov_len v) < 65536"
    using assms(2) by (auto simp: hev_ring_buffer_reading_def Let_def up)
  show "sum_list (map iov_len (hev_ring_buffer_reading b)) = rda_size b"
    by (auto simp: hev_ring_buffer_reading_def Let_def)
qed

lemma reading_empty_pending: "rb_ok b \<Longrightarrow> hev_ring_buffer_reading b = [] \<Longrightarrow> rb_pending b = []"
  using gather_reading [of b] by (simp add: iov_gather_def)

section \<open>The steps\<close>

datatype phase = Idle | Sent nat | Filled int

text \<open>A state is the session, the world, where its task is, and two ghosts: all that lwIP has
  delivered and all that was read from the socket. lwIP delivers within the window it has
  announced and acknowledges what it was given.\<close>

type_synonym flow_state = "HevSocks5SessionTCP \<times> world \<times> phase \<times> byte list \<times> byte list"

inductive session_step :: "flow_state \<Rightarrow> flow_state \<Rightarrow> bool" where
  send: "tcp_splice_f_send self w = (r, self', w') \<Longrightarrow>
     session_step (self, w, Idle, xs, ys) (self', w', (case r of Inl _ \<Rightarrow> Idle | Inr s \<Rightarrow> Sent s), xs, ys)"
| sent: "session_step (self, w, Sent s, xs, ys) (tcp_splice_f_done s self, w, Idle, xs, ys)"
| fill: "tcp_splice_b_read self w = Some (res, self', w') \<Longrightarrow>
     st_buffer self = Some b \<Longrightarrow> st_buffer self' = Some b' \<Longrightarrow>
     ys' = drop (length (rb_queue b)) (rb_queue b') \<Longrightarrow>
     session_step (self, w, Idle, xs, ys) (self', w', Filled res, xs, ys @ ys')"
| hand: "tcp_splice_b_write res self = Some (res', self') \<Longrightarrow>
     session_step (self, w, Filled res, xs, ys) (self', w, Idle, xs, ys)"
| recv: "length (concat (st_queue self)) + length (concat p) \<le> TCP_WND_MAX \<Longrightarrow> p \<noteq> [] \<Longrightarrow>
     session_step (self, w, ph, xs, ys) (snd (tcp_recv_handler self p), w, ph, xs @ concat p, ys)"
| eof: "session_step (self, w, ph, xs, ys) (snd (tcp_recv_handler self []), w, ph, xs, ys)"
| ack: "st_buffer self = Some b \<Longrightarrow> unat n \<le> rb_unacked_len b \<Longrightarrow>
     tcp_sent_handler self n = Some (e, self') \<Longrightarrow>
     session_step (self, w, ph, xs, ys) (self', w, ph, xs, ys)"
| err: "session_step (self, w, ph, xs, ys) (tcp_err_handler self e, w, ph, xs, ys)"

definition forward_inv :: "byte list \<Rightarrow> flow_state \<Rightarrow> bool" where
  "forward_inv tx0 st = (case st of (self, w, ph, xs, ys) \<Rightarrow>
     let s = (case ph of Sent s \<Rightarrow> s | _ \<Rightarrow> 0) in
     w_tx w @ drop s (concat (st_queue self)) = tx0 @ xs \<and> s \<le> length (concat (st_queue self)) \<and>
     length (concat (st_queue self)) \<le> TCP_WND_MAX \<and> tx_nonpos w \<and> rx_ok (w_rx w))"

definition backward_inv :: "flow_state \<Rightarrow> bool" where
  "backward_inv st = (case st of (self, w, ph, xs, ys) \<Rightarrow>
     \<exists>b. st_buffer self = Some b \<and> rb_ok b \<and> unat (max_size b) < 65536 \<and>
       (\<exists>acked. ys = acked @ rb_queue b \<and>
          (\<forall>pcb. st_pcb self = Some pcb \<longrightarrow>
             set (pcb_errs pcb) \<subseteq> {ERR_OK} \<and> pcb_written pcb = acked @ rb_unacked b)))"

lemma forward_step:
  assumes "session_step st st'" "forward_inv tx0 st"
  shows "forward_inv tx0 st'"
  using assms
proof (induction rule: session_step.induct)
  case (send self w r self' w' xs ys)
  show ?case
  proof (cases "st_queue self = []")
    case True
    with send show ?thesis
      by (auto simp: tcp_splice_f_send_def forward_inv_def split: if_splits)
  next
    case False
    obtain s w1 where sv: "sys_writev (take 64 (st_queue self)) w = (s, w1)" by force
    have inv: "w_tx w @ concat (st_queue self) = tx0 @ xs" "length (concat (st_queue self)) \<le> TCP_WND_MAX"
      "tx_nonpos w" "rx_ok (w_rx w)"
      using send.prems by (auto simp: forward_inv_def)
    note r = writev_result [OF sv inv(3)]
    have le: "length (concat (take 64 (st_queue self))) \<le> length (concat (st_queue self))"
      by (metis append_take_drop_id concat_append length_append le_add1)
    have tk: "take (nat s) (concat (take 64 (st_queue self))) = take (nat s) (concat (st_queue self))"
      using r(2) by (rule take_chunks_prefix)
    have tx: "w_tx w1 @ drop (nat s) (concat (st_queue self)) = tx0 @ xs"
      using inv(1) by (simp add: r(1) tk)
    show ?thesis
      using send.hyps False sv inv r(2-4) le tx
      by (auto simp: tcp_splice_f_send_def forward_inv_def Let_def split: if_splits)
  qed
next
  case (sent self w s xs ys)
  then have "s \<le> TCP_WND_MAX" by (auto simp: forward_inv_def Let_def)
  then have u: "unat (word_of_nat s :: u16) = s"
    by (simp add: TCP_WND_MAX_def unat_of_nat take_bit_eq_mod)
  with sent show ?case
    by (auto simp: forward_inv_def tcp_splice_f_done_def pbuf_free_header_def concat_free_header Let_def)
next
  case (fill self w res self' w' b b' ys' xs ys)
  obtain s bs w1 where rv: "sys_readv (hev_ring_buffer_writing b) w = (s, bs, w1)"
    by (cases "sys_readv (hev_ring_buffer_writing b) w")
  have "rx_ok (w_rx w)" using fill.prems by (simp add: forward_inv_def Let_def)
  note r = readv_result [OF rv this]
  have "st_queue self' = st_queue self \<and> w_tx w' = w_tx w \<and> w_txs w' = w_txs w \<and> rx_ok (w_rx w')"
    using fill.hyps(1,2) r rv \<open>rx_ok (w_rx w)\<close>
    by (auto simp: tcp_splice_b_read_def Let_def split: if_splits)
  with fill.prems show ?case by (auto simp: forward_inv_def tx_nonpos_def)
next
  case (hand res self res' self' w xs ys)
  have "st_queue self' = st_queue self"
    using hand.hyps by (auto simp: tcp_splice_b_write_def Let_def split: bind_splits option.splits if_splits prod.splits)
  with hand.prems show ?case by (auto simp: forward_inv_def)
next
  case (recv self p w ph xs ys)
  have "unat (word_of_nat (length (concat (st_queue self))) :: u16) \<le> TCP_WND_MAX"
    using recv.hyps(1) by (simp add: unat_of_nat TCP_WND_MAX_def take_bit_eq_mod del: length_concat)
  with recv show ?case
    by (auto simp: forward_inv_def tcp_recv_handler_def Let_def simp del: length_concat split: phase.splits)
next
  case (ack self b n e self' w ph xs ys)
  then show ?case by (auto simp: forward_inv_def tcp_sent_handler_def)
qed (auto simp: forward_inv_def tcp_recv_handler_def tcp_err_handler_def
    hev_socks5_session_terminate_def hev_socks5_set_timeout_def)

lemma backward_fill:
  assumes "tcp_splice_b_read self w = Some (res, self', w')" "st_buffer self = Some b"
    "rb_ok b" "rx_ok (w_rx w)"
  obtains bs where "self' = self\<lparr>st_buffer := Some (rb_fill bs b)\<rparr>" "length bs \<le> rb_space b"
  | "self' = self"
proof (cases "hev_ring_buffer_writing b = []")
  case True
  with assms that(2) show thesis by (simp add: tcp_splice_b_read_def Let_def)
next
  case False
  obtain s bs w1 where rv: "sys_readv (hev_ring_buffer_writing b) w = (s, bs, w1)"
    by (cases "sys_readv (hev_ring_buffer_writing b) w")
  note r = readv_result [OF rv assms(4)]
  show thesis
  proof (cases "0 < s")
    case True
    then have "(word_of_int s :: size_t) = of_nat (length bs)" using r(1) by simp
    with True False assms(1,2) rv have "self' = self\<lparr>st_buffer := Some (rb_fill bs b)\<rparr>"
      by (auto simp: tcp_splice_b_read_def rb_fill_def)
    moreover have "length bs \<le> rb_space b" using r(2) writing_size [OF assms(3)] by simp
    ultimately show thesis by (rule that(1))
  next
    case False
    with \<open>hev_ring_buffer_writing b \<noteq> []\<close> assms(1,2) rv have "self' = self"
      by (auto simp: tcp_splice_b_read_def split: if_splits)
    then show thesis by (rule that(2))
  qed
qed

lemma fill_unacked:
  "rb_ok b \<Longrightarrow> length bs \<le> rb_space b \<Longrightarrow> rb_unacked (rb_fill bs b) = rb_unacked b"
  by (simp add: rb_unacked_def fill_queue rb_unacked_len_def)

lemma handed_unacked:
  assumes "rb_ok b"
  shows "rb_ok (hev_ring_buffer_read_finish b (rda_size b))"
    and "rb_queue (hev_ring_buffer_read_finish b (rda_size b)) = rb_queue b"
    and "rb_unacked (hev_ring_buffer_read_finish b (rda_size b)) = rb_unacked b @ rb_pending b"
proof -
  note f = read_finish_ok [OF assms, of "rda_size b", OF order_refl]
  show "rb_ok (hev_ring_buffer_read_finish b (rda_size b))" by (rule f(1))
  show q: "rb_queue (hev_ring_buffer_read_finish b (rda_size b)) = rb_queue b" by (rule f(3))
  have "rb_unacked_len b + unat (rda_size b) = length (rb_queue b)"
    using assms by (simp add: rb_unacked_len_def rb_ok_def)
  then show "rb_unacked (hev_ring_buffer_read_finish b (rda_size b)) = rb_unacked b @ rb_pending b"
    by (simp add: rb_unacked_def q f(2) flip: rb_queue_split [unfolded rb_unacked_def])
qed

lemma backward_hand:
  assumes "tcp_splice_b_write res self = Some (res', self')" "st_buffer self = Some b" "rb_ok b"
    "unat (max_size b) < 65536" "st_pcb self = Some pcb" "set (pcb_errs pcb) \<subseteq> {ERR_OK}"
    "hev_ring_buffer_reading b \<noteq> []"
  obtains pcb' where
    "self' = self\<lparr>st_pcb := Some pcb', st_buffer := Some (hev_ring_buffer_read_finish b (rda_size b))\<rparr>"
    "pcb_written pcb' = pcb_written pcb @ rb_pending b" "set (pcb_errs pcb') \<subseteq> {ERR_OK}" "res' = 1"
proof -
  obtain err s p where wi: "tcp_write_iov (hev_ring_buffer_reading b) (rb_data b) ERR_OK 0 pcb = (err, s, p)"
    by (metis prod_cases3)
  have i: "err = ERR_OK \<and> s = rda_size b \<and> set (pcb_errs p) \<subseteq> {ERR_OK} \<and>
      pcb_written p = pcb_written pcb @ rb_pending b"
    using tcp_write_iov_ok [OF wi assms(6) reading_lengths(1) [OF assms(3,4)]]
      reading_lengths(2) [OF assms(3,4)] gather_reading [OF assms(3)] by simp
  obtain e p' where pr: "pcb_result p = (e, p')" by force
  have "e = ERR_OK \<and> set (pcb_errs p') \<subseteq> {ERR_OK} \<and> pcb_written p' = pcb_written p"
    using pr i by (cases "pcb_errs p") (auto simp: pcb_result_def)
  with assms(1,2,5,7) wi i pr show thesis
    by (intro that [of p']) (auto simp: tcp_splice_b_write_def ERR_OK_def)
qed

lemma backward_step:
  assumes "session_step st st'" "forward_inv tx0 st" "backward_inv st"
  shows "backward_inv st'"
  using assms
proof (induction rule: session_step.induct)
  case (send self w r self' w' xs ys)
  have "st_buffer self' = st_buffer self \<and> st_pcb self' = st_pcb self"
    using send.hyps by (auto simp: tcp_splice_f_send_def Let_def split: if_splits prod.splits)
  with send.prems show ?case by (auto simp: backward_inv_def)
next
  case (sent self w s xs ys)
  then show ?case by (auto simp: backward_inv_def tcp_splice_f_done_def tcp_recved_def) blast
next
  case (fill self w res self' w' b b' ys' xs ys)
  from fill.prems(2) fill.hyps(2) obtain acked where ok: "rb_ok b" "unat (max_size b) < 65536"
    and ys: "ys = acked @ rb_queue b"
    and pcb: "\<And>pcb. st_pcb self = Some pcb \<Longrightarrow> set (pcb_errs pcb) \<subseteq> {ERR_OK} \<and> pcb_written pcb = acked @ rb_unacked b"
    by (auto simp: backward_inv_def)
  have "rx_ok (w_rx w)" using fill.prems(1) by (simp add: forward_inv_def Let_def)
  with fill.hyps(1,2) ok(1) show ?case
  proof (cases rule: backward_fill)
    case (1 bs)
    then have b': "b' = rb_fill bs b" using fill.hyps(3) by simp
    then show ?thesis
      using 1 ok ys pcb fill.hyps(3,4)
      by (auto simp: backward_inv_def fill_ok fill_queue fill_unacked)
  next
    case 2
    then show ?thesis using fill ok ys pcb by (auto simp: backward_inv_def)
  qed
next
  case (hand res self res' self' w xs ys)
  from hand.prems(2) obtain b acked where b: "st_buffer self = Some b" "rb_ok b" "unat (max_size b) < 65536"
    and ys: "ys = acked @ rb_queue b"
    and pcb: "\<And>pcb. st_pcb self = Some pcb \<Longrightarrow> set (pcb_errs pcb) \<subseteq> {ERR_OK} \<and> pcb_written pcb = acked @ rb_unacked b"
    by (auto simp: backward_inv_def)
  show ?case
  proof (cases "st_pcb self")
    case None
    then show ?thesis
      using hand.hyps b ys by (auto simp: tcp_splice_b_write_def backward_inv_def)
  next
    case (Some p)
    show ?thesis
    proof (cases "hev_ring_buffer_reading b = []")
      case True
      then show ?thesis
        using hand.hyps b ys pcb [OF Some] Some
        by (auto simp: tcp_splice_b_write_def backward_inv_def split: if_splits)
    next
      case False
      from hand.hyps b Some pcb [OF Some, THEN conjunct1] False show ?thesis
      proof (rule backward_hand)
        fix p' assume "self' = self\<lparr>st_pcb := Some p', st_buffer := Some (hev_ring_buffer_read_finish b (rda_size b))\<rparr>"
          "pcb_written p' = pcb_written p @ rb_pending b" "set (pcb_errs p') \<subseteq> {ERR_OK}"
        then show ?thesis
          using b ys pcb [OF Some] handed_unacked [OF b(2)]
          by (auto simp: backward_inv_def hev_ring_buffer_read_finish_def)
      qed
    qed
  qed
next
  case (ack self b n e self' w ph xs ys)
  from ack.prems(2) ack.hyps(1) obtain acked where ok: "rb_ok b" "unat (max_size b) < 65536"
    and ys: "ys = acked @ rb_queue b"
    and pcb: "\<And>pcb. st_pcb self = Some pcb \<Longrightarrow> set (pcb_errs pcb) \<subseteq> {ERR_OK} \<and> pcb_written pcb = acked @ rb_unacked b"
    by (auto simp: backward_inv_def)
  let ?b = "hev_ring_buffer_read_release b (ucast n)"
  have le: "unat (ucast n :: size_t) \<le> rb_unacked_len b" using ack.hyps(2) by simp
  note rel = read_release_ok [OF ok(1) le]
  have self': "self' = self\<lparr>st_buffer := Some ?b\<rparr>" using ack.hyps by (simp add: tcp_sent_handler_def)
  have q: "rb_queue b = take (unat n) (rb_queue b) @ rb_queue ?b" by (simp add: rel(3))
  have u: "rb_unacked b = take (unat n) (rb_queue b) @ rb_unacked ?b"
    using append_take_drop_id [of "unat n" "take (rb_unacked_len b) (rb_queue b)"] ack.hyps(2)
    by (simp add: rb_unacked_def rel(2,3) drop_take min_def)
  have "max_size ?b = max_size b" by (simp add: hev_ring_buffer_read_release_def Let_def)
  then show ?case
    using self' ys pcb q u ok(2) rel(1)
    by (auto simp: backward_inv_def intro!: exI [of _ "acked @ take (unat n) (rb_queue b)"])
qed (auto simp: backward_inv_def tcp_recv_handler_def tcp_err_handler_def
    hev_socks5_session_terminate_def hev_socks5_set_timeout_def)

text \<open>The receive window: what was delivered is in the queue or given back.\<close>

definition window_inv :: "flow_state \<Rightarrow> bool" where
  "window_inv st = (case st of (self, w, ph, xs, ys) \<Rightarrow>
     \<forall>pcb. st_pcb self = Some pcb \<longrightarrow> pcb_recved pcb + length (concat (st_queue self)) = length xs)"

lemma tcp_write_iov_recved: "tcp_write_iov vs d err s pcb = (err', s', pcb') \<Longrightarrow> pcb_recved pcb' = pcb_recved pcb"
  by (induction vs arbitrary: err s pcb)
    (auto simp: tcp_write_def pcb_result_def Let_def split: prod.splits list.splits if_splits)

lemma window_hand:
  assumes "tcp_splice_b_write res self = Some (res', self')"
  shows "st_queue self' = st_queue self"
    "map_option pcb_recved (st_pcb self') = map_option pcb_recved (st_pcb self)"
  using assms tcp_write_iov_recved
  by (auto simp: tcp_splice_b_write_def Let_def pcb_result_def
      split: bind_splits option.splits if_splits prod.splits list.splits)

lemma window_step:
  assumes "session_step st st'" "forward_inv tx0 st" "window_inv st"
  shows "window_inv st'"
  using assms
proof (induction rule: session_step.induct)
  case (send self w r self' w' xs ys)
  have "st_queue self' = st_queue self \<and> st_pcb self' = st_pcb self"
    using send.hyps by (auto simp: tcp_splice_f_send_def Let_def split: if_splits prod.splits)
  with send.prems show ?case by (auto simp: window_inv_def)
next
  case (sent self w s xs ys)
  then have s: "s \<le> TCP_WND_MAX" "s \<le> length (concat (st_queue self))"
    by (auto simp: forward_inv_def Let_def)
  then have u: "unat (word_of_nat s :: u16) = s"
    by (simp add: TCP_WND_MAX_def unat_of_nat take_bit_eq_mod)
  show ?case
    using sent.prems(2) s
    by (auto simp: window_inv_def tcp_splice_f_done_def pbuf_free_header_def concat_free_header
        tcp_recved_def u simp del: length_concat)
next
  case (fill self w res self' w' b b' ys' xs ys)
  have "st_queue self' = st_queue self \<and> st_pcb self' = st_pcb self"
    using fill.hyps(1,2) by (auto simp: tcp_splice_b_read_def Let_def split: if_splits prod.splits)
  with fill.prems show ?case by (auto simp: window_inv_def)
next
  case (hand res self res' self' w xs ys)
  with window_hand [OF hand.hyps] show ?case
    by (cases "st_pcb self"; cases "st_pcb self'") (auto simp: window_inv_def)
next
  case (recv self p w ph xs ys)
  have "unat (word_of_nat (length (concat (st_queue self))) :: u16) \<le> TCP_WND_MAX"
    using recv.hyps(1) by (simp add: unat_of_nat TCP_WND_MAX_def take_bit_eq_mod del: length_concat)
  with recv show ?case
    by (auto simp: window_inv_def tcp_recv_handler_def Let_def simp del: length_concat)
next
  case (ack self b n e self' w ph xs ys)
  then show ?case by (auto simp: window_inv_def tcp_sent_handler_def)
qed (auto simp: window_inv_def tcp_recv_handler_def tcp_err_handler_def
    hev_socks5_session_terminate_def hev_socks5_set_timeout_def)

text \<open>Reachable states: any number of steps.\<close>

lemma steps_inv:
  assumes "session_step\<^sup>*\<^sup>* st st'" "forward_inv tx0 st" "backward_inv st" "window_inv st"
  shows "forward_inv tx0 st' \<and> backward_inv st' \<and> window_inv st'"
  using assms
  by (induction rule: rtranclp_induct) (auto intro: forward_step backward_step window_step)

section \<open>Both streams are kept\<close>


definition example_pcb :: tcp_pcb where
  "example_pcb = \<lparr>pcb_written = [], pcb_recved = 0, pcb_errs = [], pcb_shut = False,
     pcb_local_ip = IPADDR_TYPE_V4 [1, 1, 1, 1], pcb_local_port = 443\<rparr>"

definition example_session :: HevSocks5SessionTCP where
  "example_session = (HevSocks5SessionTCP_zero 16)
     \<lparr>st_pcb := Some example_pcb, st_buffer := Some (hev_ring_buffer_alloca 4 [0, 0, 0, 0])\<rparr>"

definition example_net :: world where
  "example_net = \<lparr>w_rx = [RxData [9]], w_txs = [TxAccept 1], w_tx = [], w_errno = EAGAIN, w_script = [],
     w_names = [], w_next_fd = 0, w_open = {}, w_live = 0, w_junk = []\<rparr>"



section \<open>The loop ends\<close>

lemma lwip_handle_all_Some:
  "st_buffer self \<noteq> None \<Longrightarrow> \<exists>self'. lwip_handle_all evs self = Some self' \<and> st_buffer self' \<noteq> None"
proof (induction evs arbitrary: self)
  case (Cons ev evs)
  have "\<exists>self'. lwip_handle ev self = Some self' \<and> st_buffer self' \<noteq> None"
    using Cons.prems
    by (cases ev) (auto simp: lwip_handle_def tcp_recv_handler_def tcp_sent_handler_def tcp_err_handler_def
        hev_socks5_session_terminate_def hev_socks5_set_timeout_def)
  with Cons.IH show ?case by auto
qed simp

lemma tcp_yielder_Some:
  assumes "st_buffer self \<noteq> None" "\<And>n t. update n t \<noteq> None"
  shows "\<exists>r ws' self' t'. tcp_task_io_yielder update ty ws self t = Some (r, ws', self', t') \<and>
     st_buffer self' \<noteq> None"
proof (cases ws)
  case (Cons x ws')
  obtain left evs where x: "x = (left, evs)" by force
  obtain self' where h: "lwip_handle_all evs self = Some self'" "st_buffer self' \<noteq> None"
    using lwip_handle_all_Some [OF assms(1)] by blast
  moreover obtain t' where "update (st_node self') t = Some t'" using assms(2) by blast
  ultimately show ?thesis by (simp add: tcp_task_io_yielder_def Cons x)
qed (use assms in \<open>simp add: tcp_task_io_yielder_def\<close>)

lemma tcp_splice_f_buffer: "tcp_splice_f self w = (r, self', w') \<Longrightarrow> st_buffer self' = st_buffer self"
  by (auto simp: tcp_splice_f_def tcp_splice_f_send_def tcp_splice_f_done_def Let_def
      split: prod.splits sum.splits if_splits)

lemma tcp_splice_b_read_Some:
  "st_buffer self \<noteq> None \<Longrightarrow>
   \<exists>r self' w'. tcp_splice_b_read self w = Some (r, self', w') \<and> st_buffer self' \<noteq> None"
  by (auto simp: tcp_splice_b_read_def Let_def split: prod.split)

lemma tcp_splice_b_write_Some:
  "st_buffer self \<noteq> None \<Longrightarrow>
   \<exists>r self'. tcp_splice_b_write res self = Some (r, self') \<and> st_buffer self' \<noteq> None"
  by (auto simp: tcp_splice_b_write_def Let_def split: prod.split option.split)

lemma tcp_splice_b_Some:
  assumes "st_buffer self \<noteq> None"
  shows "\<exists>r self' w'. tcp_splice_b self w = Some (r, self', w') \<and> st_buffer self' \<noteq> None"
proof -
  obtain r s w1 where 1: "tcp_splice_b_read self w = Some (r, s, w1)" "st_buffer s \<noteq> None"
    using tcp_splice_b_read_Some [OF assms] by blast
  then show ?thesis using tcp_splice_b_write_Some [OF 1(2), of r] by (auto simp: tcp_splice_b_def)
qed

lemma tcp_splice_loop_Some:
  assumes "\<And>n t. update n t \<noteq> None"
  shows "st_buffer self \<noteq> None \<Longrightarrow>
    \<exists>ws' self' w' t'. tcp_splice_loop update res_f res_b ws self w t = Some (ws', self', w', t') \<and>
      st_buffer self' \<noteq> None"
proof (induction "length ws" arbitrary: res_f res_b ws self w t rule: less_induct)
  case less
  obtain f s1 w1 where 1: "(if 0 \<le> res_f then tcp_splice_f self w else (res_f, self, w)) = (f, s1, w1)"
    by (metis prod_cases3)
  have b1: "st_buffer s1 \<noteq> None"
    using 1 less.prems tcp_splice_f_buffer by (cases "0 \<le> res_f") fastforce+
  obtain g s2 w2 where 2: "(if 0 \<le> res_b then tcp_splice_b s1 w1 else Some (res_b, s1, w1)) = Some (g, s2, w2)"
    and b2: "st_buffer s2 \<noteq> None"
    using tcp_splice_b_Some [OF b1, of w1] b1 by (cases "0 \<le> res_b") auto
  let ?ty = "if 0 < f \<or> 0 < g then HEV_TASK_YIELD else HEV_TASK_WAITIO"
  obtain r ws' s3 t' where 3: "tcp_task_io_yielder update ?ty ws s2 t = Some (r, ws', s3, t')"
    and b3: "st_buffer s3 \<noteq> None"
    using tcp_yielder_Some [where update = update, OF b2 assms] by blast
  have eq: "tcp_splice_loop update res_f res_b ws self w t =
      (if 0 < f \<or> 0 < g \<or> f = 0 \<or> g = 0
       then if r < 0 \<or> length ws \<le> length ws' then Some (ws', s3, w2, t')
            else tcp_splice_loop update f g ws' s3 w2 t'
       else Some (ws, s2, w2, t))"
    by (subst tcp_splice_loop.simps) (simp add: 1 2 3 Let_def)
  show ?case
  proof (cases "length ws \<le> length ws'")
    case True
    then show ?thesis using b2 b3 by (simp add: eq)
  next
    case False
    then show ?thesis using b2 b3 less.hyps [OF _ b3, of ws' f g w2 t'] by (auto simp: eq)
  qed
qed

lemma tcp_drain_loop_Some:
  assumes "\<And>n t. update n t \<noteq> None"
  shows "st_buffer self \<noteq> None \<Longrightarrow> tcp_drain_loop update ws self t \<noteq> None"
proof (induction "length ws" arbitrary: ws self t rule: less_induct)
  case less
  obtain r ws' s t' where 3: "tcp_task_io_yielder update HEV_TASK_WAITIO ws self t = Some (r, ws', s, t')"
    and b: "st_buffer s \<noteq> None"
    using tcp_yielder_Some [where update = update, OF less.prems assms] by blast
  show ?case
    using less.prems less.hyps [OF _ b, of ws' t']
    by (subst tcp_drain_loop.simps) (auto simp: 3 Let_def)
qed



end
