(* ===== verification/SessionUDP.thy ===== *)
theory SessionUDP
  imports SessionTCP Socks5Udp
begin

text \<open>
  The UDP session of \<open>hev-socks5-session-udp.c\<close>. The datagrams that lwIP delivers wait in
  an intrusive list of frames, at the level of its pointers: the links are in \<open>su_links\<close>, the
  rest of a frame in \<open>su_frame_data\<close>, both under the frame's address; \<open>su_alloc\<close> are the
  addresses the allocator returns, 0 when it fails.

  The connection of lwIP is the datagrams the session has sent through it and the results its
  next sends return.
\<close>

definition UDP_POOL_SIZE :: int where "UDP_POOL_SIZE = 512"

record HevSocks5UDPFrame =
  fr_addr :: HevSocks5Addr
  fr_data :: "byte list"

record udp_pcb =
  up_local_ip :: ip_addr
  up_local_port :: u16
  up_sent :: "(byte list \<times> ip_addr \<times> u16) list"
  up_errs :: "err_t list"

record HevSocks5SessionUDP = HevSocks5ClientUDP +
  su_task :: ptr
  su_node :: ptr
  su_frame_list :: HevList
  su_links :: list_heap
  su_frame_data :: "ptr \<rightharpoonup> HevSocks5UDPFrame"
  su_alloc :: "ptr list"
  su_pcb :: "udp_pcb option"
  su_frames :: int
  su_addr :: u32
  su_port :: int

section \<open>The frame list\<close>

text \<open>The first \<open>n\<close> frames from \<open>node\<close> on, as messages.\<close>

fun udp_frame_msgs ::
  "'a HevSocks5SessionUDP_scheme \<Rightarrow> nat \<Rightarrow> ptr \<Rightarrow> HevSocks5UDPMsg list option" where
  "udp_frame_msgs self 0 node = Some []"
| "udp_frame_msgs self (Suc n) node = do {
     frame \<leftarrow> deref (su_frame_data self) node;
     nxt \<leftarrow> hev_list_node_next (su_links self) node;
     ms \<leftarrow> udp_frame_msgs self n nxt;
     Some (\<lparr>m_addr = AddrPtr (fr_addr frame), m_buf = fr_data frame,
            m_len = word_of_nat (length (fr_data frame))\<rparr> # ms)
   }"

text \<open>Removing the first frame and freeing it.\<close>

definition udp_frame_drop ::
  "'a HevSocks5SessionUDP_scheme \<Rightarrow> 'a HevSocks5SessionUDP_scheme option" where
  "udp_frame_drop self = do {
     let node = hev_list_first (su_frame_list self);
     _ \<leftarrow> deref (su_frame_data self) node;
     (l, h) \<leftarrow> hev_list_del (su_frame_list self) (su_links self) node;
     Some (self\<lparr>su_frame_list := l, su_links := h(node := None),
                su_frame_data := (su_frame_data self)(node := None),
                su_frames := su_frames self - 1\<rparr>)
   }"

fun udp_frames_drop ::
  "nat \<Rightarrow> 'a HevSocks5SessionUDP_scheme \<Rightarrow> 'a HevSocks5SessionUDP_scheme option" where
  "udp_frames_drop 0 self = Some self"
| "udp_frames_drop (Suc n) self = do { self \<leftarrow> udp_frame_drop self; udp_frames_drop n self }"

section \<open>Forwarding\<close>

text \<open>\<open>num\<close> is the number of copy buffers, an unsigned int.\<close>

definition hev_socks5_session_udp_fwd_f ::
  "'a HevSocks5SessionUDP_scheme \<Rightarrow> nat \<Rightarrow> dgram_sock \<Rightarrow> world \<Rightarrow>
   (int \<times> 'a HevSocks5SessionUDP_scheme \<times> dgram_sock \<times> world) option" where
  "hev_socks5_session_udp_fwd_f self num d w =
     (let res = su_frames self
      in if res \<le> 0 then Some (0, self, d, w)
         else do {
           let res = (if res > int num then int num else res);
           msgv \<leftarrow> udp_frame_msgs self (nat res) (hev_list_first (su_frame_list self));
           (res, d, w) \<leftarrow> hev_socks5_udp_sendmmsg self msgv d w;
           if res \<le> 0 then Some (-1, self, d, w)
           else do { self \<leftarrow> udp_frames_drop (nat res) self; Some (1, self, d, w) }
         })"

definition udp_sendfrom ::
  "udp_pcb \<Rightarrow> byte list \<Rightarrow> ip_addr \<Rightarrow> u16 \<Rightarrow> err_t \<times> udp_pcb" where
  "udp_sendfrom pcb b ip port =
     (let (err, es) = (case up_errs pcb of [] \<Rightarrow> (ERR_OK, []) | e # es \<Rightarrow> (e, es))
      in (err, pcb\<lparr>up_errs := es,
                   up_sent := (if err = ERR_OK then up_sent pcb @ [(b, ip, port)] else up_sent pcb)\<rparr>))"

text \<open>The address of a received message. For a mapped name only the address bytes of \<open>saddr\<close>
  are set, and its type is the indeterminate \<open>junk\<close>.\<close>

definition raw_ip_addr :: "byte \<Rightarrow> byte list \<Rightarrow> ip_addr" where
  "raw_ip_addr ty bs =
     (if ty = 0 then IPADDR_TYPE_V4 bs else if ty = 6 then IPADDR_TYPE_V6 bs else IPADDR_TYPE_ANY)"

definition udp_reply_addr ::
  "'a HevSocks5SessionUDP_scheme \<Rightarrow> byte \<Rightarrow> HevSocks5UDPMsg \<Rightarrow> (int \<times> ip_addr \<times> u16) option" where
  "udp_reply_addr self junk m =
     (if su_addr self \<noteq> 0 \<and> su_port self \<noteq> 0
      then Some (0, raw_ip_addr junk (u32_bytes (su_addr self)), word_of_int (su_port self))
      else do {
        addr \<leftarrow> addr_deref (m_addr m);
        hev_socks5_addr_into_lwip addr IPADDR_TYPE_ANY 0
      })"

text \<open>The loop over the first \<open>n\<close> messages; allocating a \<open>pbuf\<close> may fail.\<close>

fun udp_replies_send ::
  "'a HevSocks5SessionUDP_scheme \<Rightarrow> nat \<Rightarrow> HevSocks5UDPMsg list \<Rightarrow> world \<Rightarrow>
   (int \<times> 'a HevSocks5SessionUDP_scheme \<times> world) option" where
  "udp_replies_send self 0 ms w = Some (1, self, w)"
| "udp_replies_send self (Suc n) [] w = None"
| "udp_replies_send self (Suc n) (m # ms) w = do {
     junk \<leftarrow> mem_get (w_junk w) 0;
     (ret, saddr, port) \<leftarrow> udp_reply_addr self junk m;
     if ret < 0 then Some (-1, self, w)
     else do {
       let (got, w) = sys_result w;
       if got < 0 then Some (-1, self, w)
       else do {
         bs \<leftarrow> mem_read (m_buf m) 0 (unat (ucast (m_len m) :: u16));
         pcb \<leftarrow> su_pcb self;
         let (err, pcb) = udp_sendfrom pcb bs saddr port;
         let self = self\<lparr>su_pcb := Some pcb\<rparr>;
         if err \<noteq> ERR_OK then Some (-1, self, w) else udp_replies_send self n ms w
       }
     }
   }"

text \<open>\<open>bufs\<close> are the slices of the receive buffer, of indeterminate content.\<close>

definition hev_socks5_session_udp_fwd_b ::
  "'a HevSocks5SessionUDP_scheme \<Rightarrow> byte list list \<Rightarrow> dgram_sock \<Rightarrow> world \<Rightarrow>
   (int \<times> 'a HevSocks5SessionUDP_scheme \<times> dgram_sock \<times> world) option" where
  "hev_socks5_session_udp_fwd_b self bufs d w = do {
     let msgv = map (\<lambda>b. \<lparr>m_addr = AddrUninit, m_buf = b, m_len = word_of_nat UDP_BUF_SIZE\<rparr>) bufs;
     (res, msgv, self, d, w) \<leftarrow> hev_socks5_udp_recvmmsg self msgv True d w;
     if res \<le> 0
     then Some (if res = -1 \<and> w_errno w = EAGAIN then 0 else -1, self, d, w)
     else do {
       (res, self, w) \<leftarrow> udp_replies_send self (nat res) msgv w;
       Some (res, self, d, w)
     }
   }"

section \<open>Receiving from lwIP\<close>

text \<open>\<open>p = None\<close> is NULL, which ends the session.\<close>

definition udp_recv_handler ::
  "HevMappedDNS option \<Rightarrow> 'a HevSocks5SessionUDP_scheme \<Rightarrow> byte list option \<Rightarrow> world \<Rightarrow>
   ('a HevSocks5SessionUDP_scheme \<times> HevMappedDNS option) option" where
  "udp_recv_handler dns self p w =
     (case p of
        None \<Rightarrow> Some (hev_socks5_session_terminate self, dns)
      | Some data \<Rightarrow>
          if su_frames self > UDP_POOL_SIZE then Some (self, dns)
          else
            let frame = (case su_alloc self of [] \<Rightarrow> 0 | a # _ \<Rightarrow> a);
                self = self\<lparr>su_alloc := tl (su_alloc self)\<rparr>
            in if frame = 0 then Some (self, dns)
               else do {
                 pcb \<leftarrow> su_pcb self;
                 (_, addr, dns) \<leftarrow> hev_socks5_addr_from_lwip dns \<lparr>atype = 0, body = w_junk w\<rparr>
                   (up_local_ip pcb) (up_local_port pcb);
                 self \<leftarrow>
                   (if atype addr = HEV_SOCKS5_ADDR_TYPE_NAME then do {
                      a \<leftarrow> (case up_local_ip pcb of
                            IPADDR_TYPE_V4 bs \<Rightarrow> ip4_word bs | IPADDR_TYPE_V6 bs \<Rightarrow> ip4_word bs
                          | IPADDR_TYPE_ANY \<Rightarrow> None);
                      Some (self\<lparr>su_addr := a, su_port := uint (up_local_port pcb)\<rparr>)
                    } else Some self);
                 let self = self\<lparr>su_frames := su_frames self + 1,
                   su_frame_data := (su_frame_data self)(frame \<mapsto> \<lparr>fr_addr = addr, fr_data = data\<rparr>)\<rparr>;
                 let links = (su_links self)(frame \<mapsto> \<lparr>ln_next = 0, ln_prev = 0\<rparr>);
                 (l, h) \<leftarrow> hev_list_add_tail (su_frame_list self) links frame;
                 Some (self\<lparr>su_frame_list := l, su_links := h\<rparr>, dns)
               })"

section \<open>The splice loop\<close>

text \<open>A wait of the session's task: how its sleep ends and what lwIP delivers meanwhile. The
  control connection of UDP in UDP is watched first.\<close>

type_synonym udp_waits = "(int \<times> byte list option list) list"

fun udp_recv_all ::
  "HevMappedDNS option \<Rightarrow> 'a HevSocks5SessionUDP_scheme \<Rightarrow> byte list option list \<Rightarrow> world \<Rightarrow>
   ('a HevSocks5SessionUDP_scheme \<times> HevMappedDNS option) option" where
  "udp_recv_all dns self [] w = Some (self, dns)"
| "udp_recv_all dns self (p # ps) w = do {
     (self, dns) \<leftarrow> udp_recv_handler dns self p w;
     udp_recv_all dns self ps w
   }"

definition session_udp_task_io_yielder ::
  "(ptr \<Rightarrow> 't \<Rightarrow> 't option) \<Rightarrow> HevTaskYieldType \<Rightarrow> udp_waits \<Rightarrow> HevMappedDNS option \<Rightarrow>
   'a HevSocks5SessionUDP_scheme \<Rightarrow> world \<Rightarrow> 't \<Rightarrow>
   (int \<times> udp_waits \<times> HevMappedDNS option \<times> 'a HevSocks5SessionUDP_scheme \<times> world \<times> 't) option" where
  "session_udp_task_io_yielder update ty ws dns self w t =
     (let (res, _, w) =
        (if sk_type self = HEV_SOCKS5_TYPE_UDP_IN_UDP
         then hev_task_io_socket_recv 1 False True w else (1, [], w))
      in if res = 0 \<or> res < 0 \<and> w_errno w \<noteq> EAGAIN
         then Some (-1, ws, dns, hev_socks5_set_timeout self 0, w, t)
         else case ws of
           [] \<Rightarrow> Some (-1, [], dns, self, w, t)
         | (left, ps) # ws \<Rightarrow> do {
             let res = hev_socks5_task_io_yielder (\<lambda>_. left) ty self;
             (self, dns) \<leftarrow> udp_recv_all dns self ps w;
             t \<leftarrow> update (su_node self) t;
             Some (res, ws, dns, self, w, t)
           })"

function session_udp_splice_loop ::
  "(ptr \<Rightarrow> 't \<Rightarrow> 't option) \<Rightarrow> nat \<Rightarrow> byte list list \<Rightarrow> int \<Rightarrow> int \<Rightarrow> udp_waits \<Rightarrow> HevMappedDNS option \<Rightarrow>
   'a HevSocks5SessionUDP_scheme \<Rightarrow> dgram_sock \<Rightarrow> world \<Rightarrow> 't \<Rightarrow>
   (udp_waits \<times> HevMappedDNS option \<times> 'a HevSocks5SessionUDP_scheme \<times> dgram_sock \<times> world \<times> 't) option"
where
  "session_udp_splice_loop update num bufs res_f res_b ws dns self d w t = do {
     (res_f, self, d, w) \<leftarrow>
       (if 0 \<le> res_f then hev_socks5_session_udp_fwd_f self num d w else Some (res_f, self, d, w));
     (res_b, self, d, w) \<leftarrow>
       (if 0 \<le> res_b then hev_socks5_session_udp_fwd_b self bufs d w else Some (res_b, self, d, w));
     if 0 < res_f \<or> 0 < res_b \<or> res_f = 0 \<or> res_b = 0
     then do {
       let ty = (if 0 < res_f \<or> 0 < res_b then HEV_TASK_YIELD else HEV_TASK_WAITIO);
       (r, ws', dns, self, w, t) \<leftarrow> session_udp_task_io_yielder update ty ws dns self w t;
       if r \<noteq> 0 \<or> length ws \<le> length ws' then Some (ws', dns, self, d, w, t)
       else session_udp_splice_loop update num bufs res_f res_b ws' dns self d w t
     }
     else Some (ws, dns, self, d, w, t)
   }"
  by auto

termination
  by (relation "measure (\<lambda>(_, _, _, _, _, ws, _). length ws)") auto

declare session_udp_splice_loop.simps [simp del]

definition hev_socks5_session_udp_splice ::
  "hev_config \<Rightarrow> (ptr \<Rightarrow> 't \<Rightarrow> 't option) \<Rightarrow> byte list list \<Rightarrow> udp_waits \<Rightarrow> HevMappedDNS option \<Rightarrow>
   'a HevSocks5SessionUDP_scheme \<Rightarrow> dgram_sock \<Rightarrow> world \<Rightarrow> 't \<Rightarrow>
   (udp_waits \<times> HevMappedDNS option \<times> 'a HevSocks5SessionUDP_scheme \<times> dgram_sock \<times> world \<times> 't) option"
where
  "hev_socks5_session_udp_splice cf update bufs ws dns self d w t =
     session_udp_splice_loop update
       (unat (word_of_int (hev_config_get_misc_udp_copy_buffer_nums cf) :: u32)) bufs 1 1 ws dns self d w t"

section \<open>The object\<close>

definition hev_socks5_session_udp_bind ::
  "hev_config \<Rightarrow> 'a HevSocks5_scheme \<Rightarrow> int \<Rightarrow> sockaddr_in6 \<Rightarrow> world \<Rightarrow> int \<times> world" where
  "hev_socks5_session_udp_bind cf self fd dest w =
     (let mark = srv_mark (hev_config_get_socks5_server cf)
      in if mark \<noteq> 0 then let (res, w) = set_sock_mark fd mark w in (if res < 0 then -1 else 0, w)
         else (0, w))"

definition hev_socks5_addr_get_port :: "HevSocks5Addr \<Rightarrow> u16 option" where
  "hev_socks5_addr_get_port addr =
     (if atype addr = HEV_SOCKS5_ADDR_TYPE_IPV4 then do {
        p \<leftarrow> mem_read (body addr) 4 2; Some (bytes_u16 (p ! 0) (p ! 1))
      }
      else if atype addr = HEV_SOCKS5_ADDR_TYPE_IPV6 then do {
        p \<leftarrow> mem_read (body addr) 16 2; Some (bytes_u16 (p ! 0) (p ! 1))
      }
      else if atype addr = HEV_SOCKS5_ADDR_TYPE_NAME then do {
        n \<leftarrow> mem_get (body addr) 0;
        p \<leftarrow> mem_read (body addr) (1 + unat n) 2;
        Some (bytes_u16 (p ! 0) (p ! 1))
      }
      else Some 0)"

definition hev_socks5_session_udp_set_upstream_addr ::
  "hev_config \<Rightarrow> resolver \<Rightarrow>
   ('a HevSocks5ClientUDP_scheme \<Rightarrow> int \<Rightarrow> sockaddr_in6 \<Rightarrow> world \<Rightarrow> int \<times> world) \<Rightarrow>
   'a HevSocks5ClientUDP_scheme \<Rightarrow> HevSocks5Addr \<Rightarrow> world \<Rightarrow>
   (int \<times> 'a HevSocks5ClientUDP_scheme \<times> world) option" where
  "hev_socks5_session_udp_set_upstream_addr cf rs binder self addr w = do {
     let srv = hev_config_get_socks5_server cf;
     addr \<leftarrow>
       (if srv_udp_in_udp srv \<and> srv_udp_addr srv ! 0 \<noteq> 0 then do {
          port \<leftarrow> hev_socks5_addr_get_port addr;
          name \<leftarrow> c_string (srv_udp_addr srv);
          (_, addr) \<leftarrow> hev_socks5_addr_from_name addr name (uint port);
          Some addr
        } else Some addr);
     hev_socks5_client_udp_set_upstream_addr rs binder self addr w
   }"

definition hev_socks5_session_udp_get_task :: "'a HevSocks5SessionUDP_scheme \<Rightarrow> ptr" where
  "hev_socks5_session_udp_get_task self = su_task self"

definition hev_socks5_session_udp_set_task ::
  "'a HevSocks5SessionUDP_scheme \<Rightarrow> ptr \<Rightarrow> 'a HevSocks5SessionUDP_scheme" where
  "hev_socks5_session_udp_set_task self task = self\<lparr>su_task := task\<rparr>"

definition hev_socks5_session_udp_get_node :: "'a HevSocks5SessionUDP_scheme \<Rightarrow> ptr" where
  "hev_socks5_session_udp_get_node self = su_node self"

definition hev_socks5_session_udp_construct ::
  "hev_config \<Rightarrow> 'a HevSocks5SessionUDP_scheme \<Rightarrow> udp_pcb \<Rightarrow> 'a HevSocks5SessionUDP_scheme" where
  "hev_socks5_session_udp_construct cf self pcb =
     (let ty = (if srv_udp_in_udp (hev_config_get_socks5_server cf)
                then HEV_SOCKS5_TYPE_UDP_IN_UDP else HEV_SOCKS5_TYPE_UDP_IN_TCP)
      in (hev_socks5_client_udp_construct self ty)\<lparr>su_pcb := Some pcb\<rparr>)"

definition HevSocks5SessionUDP_zero :: "ptr \<Rightarrow> ptr list \<Rightarrow> HevSocks5SessionUDP" where
  "HevSocks5SessionUDP_zero node alloc =
     \<lparr>sk_fd = 0, sk_timeout = 0, sk_udp_associated = False, sk_type = HEV_SOCKS5_TYPE_NONE,
      sk_addr_family = 0, auth_user = None, auth_pass = None, cudp_fd = 0, su_task = 0,
      su_node = node, su_frame_list = \<lparr>head = 0, tail = 0\<rparr>, su_links = Map.empty,
      su_frame_data = Map.empty, su_alloc = alloc, su_pcb = None, su_frames = 0, su_addr = 0,
      su_port = 0\<rparr>"

definition hev_socks5_session_udp_new ::
  "hev_config \<Rightarrow> udp_pcb \<Rightarrow> ptr \<Rightarrow> ptr list \<Rightarrow> world \<Rightarrow> HevSocks5SessionUDP option \<times> world" where
  "hev_socks5_session_udp_new cf pcb node alloc w =
     (let (got, w) = sys_malloc w
      in if \<not> got then (None, w)
         else (Some (hev_socks5_session_udp_construct cf (HevSocks5SessionUDP_zero node alloc) pcb), w))"

text \<open>Freeing the frames one after the other; \<open>fuel\<close> bounds their number.\<close>

fun udp_free_frames ::
  "nat \<Rightarrow> 'a HevSocks5SessionUDP_scheme \<Rightarrow> ptr \<Rightarrow> 'a HevSocks5SessionUDP_scheme option" where
  "udp_free_frames fuel self node =
     (if node = 0 then Some self
      else case fuel of
        0 \<Rightarrow> None
      | Suc fuel \<Rightarrow> do {
          nxt \<leftarrow> hev_list_node_next (su_links self) node;
          _ \<leftarrow> deref (su_frame_data self) node;
          udp_free_frames fuel
            (self\<lparr>su_links := (su_links self)(node := None),
                  su_frame_data := (su_frame_data self)(node := None)\<rparr>) nxt
        })"

definition hev_socks5_session_udp_destruct ::
  "nat \<Rightarrow> 'a HevSocks5SessionUDP_scheme \<Rightarrow> world \<Rightarrow> ('a HevSocks5SessionUDP_scheme \<times> world) option" where
  "hev_socks5_session_udp_destruct fuel self w = do {
     self \<leftarrow> udp_free_frames fuel self (hev_list_first (su_frame_list self));
     Some (self\<lparr>su_pcb := None\<rparr>, hev_socks5_client_udp_destruct self w)
   }"

end
