(* ===== verification/UdpQueue.thy ===== *)
theory UdpQueue
  imports SessionUDP "HOL-Library.Sublist"
begin

text \<open>
  The frames of a UDP session are a queue of datagrams of bounded length: what lwIP delivers is
  appended, what the server has been sent is taken from the front, and the destructor frees
  every frame. The list is used through the interface of intrusive lists.
\<close>

definition frames_rep :: "'a HevSocks5SessionUDP_scheme \<Rightarrow> ptr list \<Rightarrow> HevSocks5UDPFrame list \<Rightarrow> bool" where
  "frames_rep self xs q \<longleftrightarrow>
     list_rep (su_frame_list self) (su_links self) xs \<and>
     map (su_frame_data self) xs = map Some q \<and> su_frames self = int (length q) \<and>
     dom (su_frame_data self) = set xs \<and> dom (su_links self) = set xs"

definition frame_msg :: "HevSocks5UDPFrame \<Rightarrow> HevSocks5UDPMsg" where
  "frame_msg f = \<lparr>m_addr = AddrPtr (fr_addr f), m_buf = fr_data f, m_len = word_of_nat (length (fr_data f))\<rparr>"

lemma frames_rep_alloc [simp]: "frames_rep (self\<lparr>su_alloc := as\<rparr>) xs q = frames_rep self xs q"
  by (simp add: frames_rep_def)

lemma frames_rep_length: "frames_rep self xs q \<Longrightarrow> length xs = length q"
  by (metis frames_rep_def length_map)

lemma frame_msgs_tail:
  "list_rep l (su_links self) (as @ xs) \<Longrightarrow> map (su_frame_data self) xs = map Some q \<Longrightarrow> n \<le> length q \<Longrightarrow>
   udp_frame_msgs self n (first_or xs 0) = Some (map frame_msg (take n q))"
proof (induction n arbitrary: as xs q)
  case (Suc n)
  from Suc.prems(2,3) obtain x xs' f q' where x: "xs = x # xs'" and q: "q = f # q'"
    by (cases q; cases xs) auto
  have "hev_list_node_next (su_links self) x = Some (first_or xs' 0)"
    using Suc.prems(1) unfolding x by (rule list_rep_node_next)
  moreover have "x \<noteq> 0" using list_rep_nonnull [OF Suc.prems(1), of x] x by simp
  moreover have "udp_frame_msgs self n (first_or xs' 0) = Some (map frame_msg (take n q'))"
    using Suc.IH [of "as @ [x]" xs' q'] Suc.prems x q by simp
  ultimately show ?case using Suc.prems(2) by (simp add: x q frame_msg_def deref_def)
qed simp

lemma frame_msgs:
  assumes "frames_rep self xs q" "n \<le> length q"
  shows "udp_frame_msgs self n (hev_list_first (su_frame_list self)) = Some (map frame_msg (take n q))"
proof -
  have rep: "list_rep (su_frame_list self) (su_links self) xs" using assms(1) by (simp add: frames_rep_def)
  with frame_msgs_tail [of "su_frame_list self" self "[]" xs q n] assms show ?thesis
    by (simp add: frames_rep_def list_rep_first [OF rep])
qed

lemma frame_drop:
  assumes "frames_rep self (x # xs) (f # q)"
  shows "\<exists>self'. udp_frame_drop self = Some self' \<and> frames_rep self' xs q"
proof -
  have rep: "list_rep (su_frame_list self) (su_links self) (x # xs)" using assms by (simp add: frames_rep_def)
  have x: "x \<noteq> 0" using list_rep_nonnull [OF rep, of x] by simp
  have d: "distinct (x # xs)" by (rule hev.rep_distinct [OF rep])
  from hev.pop_first [OF rep] obtain l' h' where 1: "hev_list_first (su_frame_list self) = x"
    "hev_list_del (su_frame_list self) (su_links self) x = Some (l', h')" "list_rep l' h' xs"
    "dom h' = dom (su_links self)" by auto
  have "list_rep l' (h'(x := None)) xs"
    by (rule list_rep_frame [OF 1(3)]) (use d in auto)
  moreover have "map ((su_frame_data self)(x := None)) xs = map (su_frame_data self) xs"
    using d by (intro map_cong) auto
  ultimately show ?thesis
    using assms 1 x d
    by (auto simp: udp_frame_drop_def frames_rep_def deref_def)
qed

lemma frames_drop:
  "frames_rep self xs q \<Longrightarrow> n \<le> length q \<Longrightarrow>
   \<exists>self'. udp_frames_drop n self = Some self' \<and> frames_rep self' (drop n xs) (drop n q)"
proof (induction n arbitrary: self xs q)
  case (Suc n)
  from Suc.prems obtain x xs' f q' where x: "xs = x # xs'" "q = f # q'"
    using frames_rep_length [OF Suc.prems(1)] by (cases q; cases xs) auto
  with frame_drop [of self x xs' f q'] Suc.prems Suc.IH show ?case by auto
qed auto

lemma bind_SomeE: "Option.bind m k = Some r \<Longrightarrow> (\<And>s. m = Some s \<Longrightarrow> k s = Some r \<Longrightarrow> P) \<Longrightarrow> P"
  by (cases m) auto

lemma recv_frame_append:
  assumes "frames_rep self xs q" "su_alloc self = a # as" "a \<noteq> 0" "a \<notin> set xs" "su_frames self \<le> UDP_POOL_SIZE"
    and "udp_recv_handler dns self (Some data) w = Some (self', dns')"
  shows "\<exists>addr. frames_rep self' (xs @ [a]) (q @ [\<lparr>fr_addr = addr, fr_data = data\<rparr>])"
proof -
  let ?links = "(su_links self)(a \<mapsto> \<lparr>ln_next = 0, ln_prev = 0\<rparr>)"
  have rep: "list_rep (su_frame_list self) ?links xs"
    by (rule list_rep_frame [of _ "su_links self"]) (use assms(1,4) in \<open>auto simp: frames_rep_def\<close>)
  have "a \<in> dom ?links - {0}" using assms(3) by simp
  from hev.add_tail_law [OF rep assms(4) this] obtain l' h' where
    1: "hev_list_add_tail (su_frame_list self) ?links a = Some (l', h')" "list_rep l' h' (xs @ [a])"
      "dom h' = dom ?links" by (elim exE conjE) (rule that)
  obtain addr where "su_frame_list self' = l'" "su_links self' = h'" "su_frames self' = su_frames self + 1"
    "su_frame_data self' = (su_frame_data self)(a \<mapsto> \<lparr>fr_addr = addr, fr_data = data\<rparr>)"
  proof -
    have "\<not> UDP_POOL_SIZE < su_frames self" using assms(5) by simp
    note unf = udp_recv_handler_def Let_def assms(2,3) this
    obtain pcb where pcb: "su_pcb self = Some pcb"
      using assms(6) by (cases "su_pcb self") (simp_all add: unf)
    let ?A = "hev_socks5_addr_from_lwip dns \<lparr>atype = 0, body = w_junk w\<rparr> (up_local_ip pcb) (up_local_port pcb)"
    have "?A \<noteq> None" using assms(6) by (cases ?A) (simp_all add: unf pcb)
    then obtain r addr dns1 where A: "?A = Some (r, addr, dns1)" by (metis option.exhaust prod_cases3)
    let ?M = "if atype addr = HEV_SOCKS5_ADDR_TYPE_NAME then do {
              a \<leftarrow> (case up_local_ip pcb of
                    IPADDR_TYPE_V4 bs \<Rightarrow> ip4_word bs | IPADDR_TYPE_V6 bs \<Rightarrow> ip4_word bs
                  | IPADDR_TYPE_ANY \<Rightarrow> None);
              Some (self\<lparr>su_alloc := as, su_addr := a, su_port := uint (up_local_port pcb)\<rparr>)
            } else Some (self\<lparr>su_alloc := as\<rparr>)"
    have "Option.bind ?M (\<lambda>s. do {
            (l, h) \<leftarrow> hev_list_add_tail (su_frame_list s) ((su_links s)(a \<mapsto> \<lparr>ln_next = 0, ln_prev = 0\<rparr>)) a;
            Some (s\<lparr>su_frames := su_frames s + 1,
              su_frame_data := (su_frame_data s)(a \<mapsto> \<lparr>fr_addr = addr, fr_data = data\<rparr>),
              su_frame_list := l, su_links := h\<rparr>, dns1) }) = Some (self', dns')"
      using assms(6) by (simp add: unf pcb A)
    then obtain s where s: "?M = Some s"
      and t: "(do {
            (l, h) \<leftarrow> hev_list_add_tail (su_frame_list s) ((su_links s)(a \<mapsto> \<lparr>ln_next = 0, ln_prev = 0\<rparr>)) a;
            Some (s\<lparr>su_frames := su_frames s + 1,
              su_frame_data := (su_frame_data s)(a \<mapsto> \<lparr>fr_addr = addr, fr_data = data\<rparr>),
              su_frame_list := l, su_links := h\<rparr>, dns1) }) = Some (self', dns')"
      by (rule bind_SomeE)
    have "s = self\<lparr>su_alloc := as\<rparr> \<or> (\<exists>x y. s = self\<lparr>su_alloc := as, su_addr := x, su_port := y\<rparr>)"
      using s by (auto simp: bind_eq_Some_conv split: if_splits)
    then have fs: "su_frame_list s = su_frame_list self" "su_links s = su_links self"
      "su_frames s = su_frames self" "su_frame_data s = su_frame_data self" by auto
    have "self' = s\<lparr>su_frames := su_frames s + 1,
              su_frame_data := (su_frame_data s)(a \<mapsto> \<lparr>fr_addr = addr, fr_data = data\<rparr>),
              su_frame_list := l', su_links := h'\<rparr>"
      using t 1(1) by (simp add: fs)
    then show thesis using fs by (intro that [of addr]) simp_all
  qed
  then show ?thesis
    using assms(1,4) 1(2,3) by (auto simp: frames_rep_def map_fun_upd)
qed

lemma sendmmsg_loop_bound:
  "sendmmsg_loop rs n c e = (res, k, rs', e') \<Longrightarrow> c \<le> n \<Longrightarrow> res \<le> int n"
  by (induction rs n c e arbitrary: res k rs' e' rule: sendmmsg_loop.induct)
    (auto simp: Let_def split: if_splits)

lemma udp_frames_length: "udp_frames frame ms = Some (Some fs) \<Longrightarrow> length fs = length ms"
  by (induction ms arbitrary: fs) (auto split: bind_splits option.splits)

lemma sendmmsg_bound:
  assumes "hev_socks5_udp_sendmmsg self ms d w = Some (res, d', w')"
  shows "res \<le> int (length ms)"
proof (cases "sk_type self")
  case HEV_SOCKS5_TYPE_UDP_IN_TCP
  then show ?thesis using assms
    by (auto simp: hev_socks5_udp_sendmmsg_def hev_socks5_udp_sendmmsg_tcp_def
        split: bind_splits option.splits prod.splits if_splits)
next
  case HEV_SOCKS5_TYPE_UDP_IN_UDP
  then show ?thesis using assms sendmmsg_loop_bound [OF _ le0]
    by (auto simp: hev_socks5_udp_sendmmsg_def hev_socks5_udp_sendmmsg_udp_def hev_task_io_socket_sendmmsg_def
        dest!: udp_frames_length split: bind_splits option.splits prod.splits)
qed (use assms in \<open>auto simp: hev_socks5_udp_sendmmsg_def\<close>)

lemma fwd_f_takes:
  assumes "frames_rep self xs q" "hev_socks5_session_udp_fwd_f self num d w = Some (r, self', d', w')"
  shows "\<exists>k \<le> length q. frames_rep self' (drop k xs) (drop k q)"
proof (cases "su_frames self \<le> 0")
  case True
  then show ?thesis using assms by (auto simp: hev_socks5_session_udp_fwd_f_def intro: exI [of _ 0])
next
  case False
  let ?n = "nat (if su_frames self > int num then int num else su_frames self)"
  have n: "?n \<le> length q" using assms(1) by (auto simp: frames_rep_def)
  note msgs = frame_msgs [OF assms(1) n]
  from assms(2) False msgs obtain res d1 w1 where
    s: "hev_socks5_udp_sendmmsg self (map frame_msg (take ?n q)) d w = Some (res, d1, w1)"
    and r: "(if res \<le> 0 then Some (-1, self, d1, w1)
             else do { self \<leftarrow> udp_frames_drop (nat res) self; Some (1, self, d1, w1) }) = Some (r, self', d', w')"
    by (auto simp: hev_socks5_session_udp_fwd_f_def Let_def split: bind_splits)
  show ?thesis
  proof (cases "res \<le> 0")
    case True
    then show ?thesis using r assms(1) by (auto intro: exI [of _ 0])
  next
    case False
    have "length (map frame_msg (take ?n q)) \<le> length q" by simp
    with sendmmsg_bound [OF s] have "nat res \<le> length q" by linarith
    from frames_drop [OF assms(1) this] False r \<open>nat res \<le> length q\<close> show ?thesis by auto
  qed
qed

section \<open>Every run\<close>

text \<open>A state is the session, the mapped DNS and the payloads delivered so far. The allocator
  returns an address that is not in use, or 0; forwarding runs with any socket and world.\<close>

inductive udp_step ::
  "HevSocks5SessionUDP \<times> HevMappedDNS option \<times> byte list list \<Rightarrow>
   HevSocks5SessionUDP \<times> HevMappedDNS option \<times> byte list list \<Rightarrow> bool" where
  deliver: "udp_recv_handler dns self (Some p) w = Some (self', dns') \<Longrightarrow>
     su_alloc self = [] \<or> hd (su_alloc self) \<notin> dom (su_frame_data self) \<Longrightarrow>
     udp_step (self, dns, ps) (self', dns', ps @ [p])"
| forward: "hev_socks5_session_udp_fwd_f self num d w = Some (r, self', d', w') \<Longrightarrow>
     udp_step (self, dns, ps) (self', dns, ps)"

definition queue_inv :: "HevSocks5SessionUDP \<times> HevMappedDNS option \<times> byte list list \<Rightarrow> bool" where
  "queue_inv st = (case st of (self, dns, ps) \<Rightarrow>
     \<exists>xs D k. frames_rep self xs (drop k D) \<and> subseq (map fr_data D) ps \<and> length (drop k D) \<le> 513)"

lemma queue_step: "udp_step st st' \<Longrightarrow> queue_inv st \<Longrightarrow> queue_inv st'"
proof (induction rule: udp_step.induct)
  case (deliver dns self p w self' dns' ps)
  from deliver.prems obtain xs D k where rep: "frames_rep self xs (drop k D)"
    and sub: "subseq (map fr_data D) ps" and len: "length (drop k D) \<le> 513"
    by (auto simp: queue_inv_def)
  have sub': "subseq (map fr_data D) (ps @ [p])" using sub by (rule subseq_rev_drop_many)
  show ?case
  proof (cases "su_frames self \<le> UDP_POOL_SIZE \<and> su_alloc self \<noteq> [] \<and> hd (su_alloc self) \<noteq> 0")
    case True
    then obtain a as where a: "su_alloc self = a # as" "a \<noteq> 0" by (cases "su_alloc self") auto
    have "a \<notin> set xs" using deliver.hyps(2) a(1) rep by (simp add: frames_rep_def)
    with recv_frame_append [OF rep a] True deliver.hyps(1) obtain addr where
      r: "frames_rep self' (xs @ [a]) (drop k D @ [\<lparr>fr_addr = addr, fr_data = p\<rparr>])" by blast
    have "length (drop k D) \<le> 512" using True rep by (simp add: frames_rep_def UDP_POOL_SIZE_def)
    moreover have "drop (min k (length D)) (D @ [\<lparr>fr_addr = addr, fr_data = p\<rparr>]) =
        drop k D @ [\<lparr>fr_addr = addr, fr_data = p\<rparr>]" by (simp add: min_def)
    moreover have "subseq (map fr_data (D @ [\<lparr>fr_addr = addr, fr_data = p\<rparr>])) (ps @ [p])"
      using sub by (simp add: subseq_append)
    ultimately have "frames_rep self' (xs @ [a]) (drop (min k (length D)) (D @ [\<lparr>fr_addr = addr, fr_data = p\<rparr>])) \<and>
        subseq (map fr_data (D @ [\<lparr>fr_addr = addr, fr_data = p\<rparr>])) (ps @ [p]) \<and>
        length (drop (min k (length D)) (D @ [\<lparr>fr_addr = addr, fr_data = p\<rparr>])) \<le> 513"
      using r by simp
    then show ?thesis unfolding queue_inv_def by blast
  next
    case False
    then have "frames_rep self' xs (drop k D)"
      using deliver.hyps(1) rep by (auto simp: udp_recv_handler_def Let_def split: list.splits if_splits)
    with sub' len show ?thesis by (auto simp: queue_inv_def)
  qed
next
  case (forward self num d w r self' d' w' dns ps)
  from forward.prems obtain xs D k where rep: "frames_rep self xs (drop k D)"
    and sub: "subseq (map fr_data D) ps" and len: "length (drop k D) \<le> 513"
    by (auto simp: queue_inv_def)
  from fwd_f_takes [OF rep forward.hyps] obtain j where "frames_rep self' (drop j xs) (drop (j + k) D)" by auto
  with sub len show ?case by (auto simp: queue_inv_def intro!: exI [of _ "drop j xs"] exI [of _ D] exI [of _ "j + k"])
qed

declare udp_free_frames.simps [simp del]

lemma free_frames:
  "seg (su_links self) p xs 0 \<Longrightarrow> distinct xs \<Longrightarrow> dom (su_frame_data self) = set xs \<Longrightarrow>
   dom (su_links self) = set xs \<Longrightarrow> length xs \<le> n \<Longrightarrow>
   \<exists>s. udp_free_frames n self (first_or xs 0) = Some s \<and> su_frame_data s = Map.empty \<and> su_links s = Map.empty"
proof (induction xs arbitrary: self p n)
  case (Cons x xs)
  from Cons.prems(5) obtain m where n: "n = Suc m" "length xs \<le> m" by (cases n) auto
  let ?s = "self\<lparr>su_links := (su_links self)(x := None), su_frame_data := (su_frame_data self)(x := None)\<rparr>"
  have x: "x \<noteq> 0" "hev_list_node_next (su_links self) x = Some (first_or xs 0)"
    using Cons.prems(1) by (auto simp: hev_list_node_next_def deref_def)
  obtain fr where fr: "su_frame_data self x = Some fr" using Cons.prems(3) by auto
  have "\<exists>s. udp_free_frames m ?s (first_or xs 0) = Some s \<and> su_frame_data s = Map.empty \<and> su_links s = Map.empty"
  proof (rule Cons.IH)
    show "seg (su_links ?s) x xs 0" using Cons.prems(1,2) by simp
    show "dom (su_frame_data ?s) = set xs" "dom (su_links ?s) = set xs" using Cons.prems(2-4) by auto
  qed (use Cons.prems n in simp_all)
  then show ?case using x n fr by (subst udp_free_frames.simps) (simp add: deref_def)
qed (simp add: udp_free_frames.simps)


definition example_udp_session :: HevSocks5SessionUDP where
  "example_udp_session = (HevSocks5SessionUDP_zero 8 [64])\<lparr>su_pcb := Some
     \<lparr>up_local_ip = IPADDR_TYPE_V4 [8, 8, 8, 8], up_local_port = 53, up_sent = [], up_errs = []\<rparr>\<rparr>"


end
