(* ===== verification/Tunnel.thy ===== *)
theory Tunnel
  imports SessionUDP
begin

text \<open>
  The tunnel of \<open>hev-socks5-tunnel.c\<close>: its file scope variables are a record, the session
  set an intrusive list at pointer level whose nodes lie inside the sessions. Terminating a
  session appends its node to \<open>tn_terminated\<close>. Descriptors and results of system calls and
  of the tunnel device come from the world; lwIP's network interface with the listening TCP and
  the UDP connection is there or not.
\<close>

definition ERR_MEM :: err_t where "ERR_MEM = - 1"
definition ERR_IF :: err_t where "ERR_IF = - 12"
definition ERR_RST :: err_t where "ERR_RST = - 14"

record tunnel =
  tn_run :: bool
  tn_fd :: int
  tn_fd_local :: bool
  tn_session_count :: int
  tn_event_fd0 :: int
  tn_event_fd1 :: int
  tn_tx_packets :: size_t
  tn_rx_packets :: size_t
  tn_tx_bytes :: size_t
  tn_rx_bytes :: size_t
  tn_gateway :: bool
  tn_task_event :: bool
  tn_task_lwip_io :: bool
  tn_task_lwip_timer :: bool
  tn_session_set :: HevList
  tn_links :: list_heap
  tn_terminated :: "ptr list"
  tn_dns :: "HevMappedDNS option"

definition tunnel_start :: tunnel where
  "tunnel_start =
     \<lparr>tn_run = False, tn_fd = -1, tn_fd_local = False, tn_session_count = 0, tn_event_fd0 = -1,
      tn_event_fd1 = -1, tn_tx_packets = 0, tn_rx_packets = 0, tn_tx_bytes = 0, tn_rx_bytes = 0,
      tn_gateway = False, tn_task_event = False, tn_task_lwip_io = False,
      tn_task_lwip_timer = False, tn_session_set = \<lparr>head = 0, tail = 0\<rparr>, tn_links = Map.empty,
      tn_terminated = [], tn_dns = None\<rparr>"

section \<open>Output and input\<close>

text \<open>\<open>s\<close> is the result of writing the packet to the device.\<close>

definition netif_output_handler :: "int \<Rightarrow> errno \<Rightarrow> tunnel \<Rightarrow> err_t \<times> tunnel" where
  "netif_output_handler s e t =
     (if s \<le> 0 then (if e = EAGAIN then ERR_WOULDBLOCK else ERR_IF, t)
      else (ERR_OK, t\<lparr>tn_rx_packets := tn_rx_packets t + 1, tn_rx_bytes := tn_rx_bytes t + word_of_int s\<rparr>))"

section \<open>The session set\<close>

definition hev_socks5_tunnel_insert_session :: "hev_config \<Rightarrow> ptr \<Rightarrow> tunnel \<Rightarrow> tunnel option" where
  "hev_socks5_tunnel_insert_session cf node t = do {
     (l, h) \<leftarrow> hev_list_add_tail (tn_session_set t) (tn_links t) node;
     let t = t\<lparr>tn_session_set := l, tn_links := h, tn_session_count := tn_session_count t + 1\<rparr>;
     let max_session_count = hev_config_get_misc_max_session_count cf;
     if max_session_count = 0 \<or> tn_session_count t < max_session_count then Some t
     else do {
       let node = hev_list_first (tn_session_set t);
       _ \<leftarrow> deref (tn_links t) node;
       Some (t\<lparr>tn_terminated := tn_terminated t @ [node]\<rparr>)
     }
   }"

definition hev_socks5_tunnel_delete_session :: "ptr \<Rightarrow> tunnel \<Rightarrow> tunnel option" where
  "hev_socks5_tunnel_delete_session node t = do {
     (l, h) \<leftarrow> hev_list_del (tn_session_set t) (tn_links t) node;
     Some (t\<lparr>tn_session_set := l, tn_links := h, tn_session_count := tn_session_count t - 1\<rparr>)
   }"

definition hev_socks5_tunnel_update_session :: "hev_config \<Rightarrow> ptr \<Rightarrow> tunnel \<Rightarrow> tunnel option" where
  "hev_socks5_tunnel_update_session cf node t =
     (if hev_config_get_misc_max_session_count cf = 0 then Some t
      else do {
        (l, h) \<leftarrow> hev_list_del (tn_session_set t) (tn_links t) node;
        (l, h) \<leftarrow> hev_list_add_tail l h node;
        Some (t\<lparr>tn_session_set := l, tn_links := h\<rparr>)
      })"

text \<open>The task of a session: \<open>run\<close> is \<open>hev_socks5_session_run\<close> on it; then its node, which
  goes away with it, leaves the set.\<close>

definition hev_socks5_session_task_entry ::
  "(tunnel \<Rightarrow> tunnel option) \<Rightarrow> ptr \<Rightarrow> tunnel \<Rightarrow> tunnel option" where
  "hev_socks5_session_task_entry run node t = do {
     t \<leftarrow> run t;
     t \<leftarrow> hev_socks5_tunnel_delete_session node t;
     Some (t\<lparr>tn_links := (tn_links t)(node := None)\<rparr>)
   }"

section \<open>Accepting\<close>

text \<open>\<open>node\<close> is the address of the new session's list node. The results are the error for
  lwIP, the new session if there is one, and whether its connection was aborted.\<close>

definition tcp_accept_handler ::
  "hev_config \<Rightarrow> ptr \<Rightarrow> tcp_pcb \<Rightarrow> err_t \<Rightarrow> tunnel \<Rightarrow> world \<Rightarrow>
   (err_t \<times> HevSocks5SessionTCP option \<times> bool \<times> tunnel \<times> world) option" where
  "tcp_accept_handler cf node pcb err t w =
     (if err \<noteq> ERR_OK then Some (err, None, False, t, w)
      else if \<not> tn_run t then Some (ERR_RST, None, False, t, w)
      else do {
        (tcp, dns, w) \<leftarrow> hev_socks5_session_tcp_new (tn_dns t) pcb node w;
        let t = t\<lparr>tn_dns := dns\<rparr>;
        case tcp of
          None \<Rightarrow> Some (ERR_MEM, None, False, t, w)
        | Some tcp \<Rightarrow> do {
            let (task, w) = sys_result w;
            if task < 0 then do {
              let (aborted, w) = hev_socks5_session_tcp_destruct tcp w;
              Some (ERR_MEM, None, aborted, t, w)
            }
            else do {
              let tcp = hev_socks5_session_tcp_set_task tcp (word_of_int task);
              let node = hev_socks5_session_tcp_get_node tcp;
              let t = t\<lparr>tn_links := (tn_links t)(node \<mapsto> \<lparr>ln_next = 0, ln_prev = 0\<rparr>)\<rparr>;
              t \<leftarrow> hev_socks5_tunnel_insert_session cf node t;
              Some (ERR_OK, Some tcp, False, t, w)
            }
          }
      })"

text \<open>What becomes of a datagram connection: removed, given to the mapped DNS, without a task
  (its session was destroyed), or a new session.\<close>

datatype udp_outcome = UdpRemoved | UdpMappedDNS | UdpNoTask | UdpSession HevSocks5SessionUDP

definition tunnel_udp_recv_handler ::
  "hev_config \<Rightarrow> ptr \<Rightarrow> ptr list \<Rightarrow> udp_pcb \<Rightarrow> ip_addr \<Rightarrow> u16 \<Rightarrow> tunnel \<Rightarrow> world \<Rightarrow>
   (udp_outcome \<times> tunnel \<times> world) option" where
  "tunnel_udp_recv_handler cf node alloc pcb addr port t w =
     (if \<not> tn_run t then Some (UdpRemoved, t, w)
      else do {
        is_dns \<leftarrow>
          (case (tn_dns t, addr) of
             (Some _, IPADDR_TYPE_V4 bs) \<Rightarrow> do {
               a \<leftarrow> ip4_word bs;
               Some (hev_config_get_mapdns_port cf = uint port \<and> hev_config_get_mapdns_address cf = a)
             }
           | _ \<Rightarrow> Some False);
        if is_dns then Some (UdpMappedDNS, t, w)
        else do {
          let (udp, w) = hev_socks5_session_udp_new cf pcb node alloc w;
          case udp of
            None \<Rightarrow> Some (UdpRemoved, t, w)
          | Some udp \<Rightarrow> do {
              let (task, w) = sys_result w;
              if task < 0 then do {
                (_, w) \<leftarrow> hev_socks5_session_udp_destruct 0 udp w;
                Some (UdpNoTask, t, w)
              }
              else do {
                let udp = hev_socks5_session_udp_set_task udp (word_of_int task);
                let node = hev_socks5_session_udp_get_node udp;
                let t = t\<lparr>tn_links := (tn_links t)(node \<mapsto> \<lparr>ln_next = 0, ln_prev = 0\<rparr>)\<rparr>;
                t \<leftarrow> hev_socks5_tunnel_insert_session cf node t;
                Some (UdpSession udp, t, w)
              }
            }
        }
      })"

text \<open>A query to the mapped DNS: the reply that is sent, if any. \<open>p\<close> is the memory from the
  query's first byte on and \<open>plen\<close> its length; the reply buffer's content is indeterminate.
  The connection is removed in any case.\<close>

definition dns_recv_handler ::
  "byte list \<Rightarrow> nat \<Rightarrow> byte list \<Rightarrow> HevMappedDNS \<Rightarrow> world \<Rightarrow>
   (byte list option \<times> HevMappedDNS \<times> world) option" where
  "dns_recv_handler p plen b dns w = do {
     let (got, w) = sys_result w;
     if got < 0 then Some (None, dns, w)
     else do {
       (res, p, b, dns) \<leftarrow> hev_mapped_dns_handle dns p plen b UDP_BUF_SIZE;
       if res < 0 then Some (None, dns, w)
       else do { bs \<leftarrow> mem_read b 0 (nat res); Some (Some bs, dns, w) }
     }
   }"

section \<open>The tasks\<close>

text \<open>The event task, woken by a byte on its socket: it ends the other tasks and terminates
  every session. \<open>fuel\<close> bounds the length of the set.\<close>

fun terminate_all :: "nat \<Rightarrow> ptr \<Rightarrow> tunnel \<Rightarrow> tunnel option" where
  "terminate_all fuel node t =
     (if node = 0 then Some t
      else case fuel of
        0 \<Rightarrow> None
      | Suc fuel \<Rightarrow> do {
          _ \<leftarrow> deref (tn_links t) node;
          let t = t\<lparr>tn_terminated := tn_terminated t @ [node]\<rparr>;
          nxt \<leftarrow> hev_list_node_next (tn_links t) node;
          terminate_all fuel nxt t
        })"

declare terminate_all.simps [simp del]

definition event_task_entry :: "nat \<Rightarrow> tunnel \<Rightarrow> tunnel option" where
  "event_task_entry fuel t =
     (let t = t\<lparr>tn_run := False\<rparr> in terminate_all fuel (hev_list_first (tn_session_set t)) t)"

text \<open>One turn of the input task: the packet that was read, if any; whether lwIP took it or the
  task frees it.\<close>

definition lwip_io_round :: "byte list option \<Rightarrow> err_t \<Rightarrow> tunnel \<Rightarrow> bool \<times> tunnel" where
  "lwip_io_round buf err t =
     (case buf of
        None \<Rightarrow> (False, t)
      | Some b \<Rightarrow>
          (err \<noteq> ERR_OK,
           t\<lparr>tn_tx_packets := tn_tx_packets t + 1,
             tn_tx_bytes := tn_tx_bytes t + ucast (word_of_nat (length b) :: u16)\<rparr>))"

fun lwip_io_task_entry :: "(bool \<times> byte list option \<times> err_t) list \<Rightarrow> tunnel \<Rightarrow> tunnel" where
  "lwip_io_task_entry [] t = t"
| "lwip_io_task_entry ((stop, buf, err) # es) t =
     (if \<not> tn_run t then t
      else lwip_io_task_entry es (snd (lwip_io_round buf err (if stop then t\<lparr>tn_run := False\<rparr> else t))))"

text \<open>One turn of the timer task: the timers it runs and whether it sleeps for a fixed time or
  until it is woken.\<close>

datatype lwip_timer = TcpTmr | IpReassTmr | Nd6Tmr | Ip6ReassTmr

definition lwip_timer_round :: "u32 \<Rightarrow> tunnel \<Rightarrow> lwip_timer list \<times> bool" where
  "lwip_timer_round i t =
     (TcpTmr # (if i AND 3 = 0 then [IpReassTmr, Nd6Tmr, Ip6ReassTmr] else []),
      hev_list_first (tn_session_set t) \<noteq> 0)"

section \<open>Starting and stopping\<close>

text \<open>Opening the device gives a descriptor; its further settings give results. The scripts run
  after it is up and before it is closed are not part of the model.\<close>

definition tunnel_init :: "hev_config \<Rightarrow> int \<Rightarrow> tunnel \<Rightarrow> world \<Rightarrow> int \<times> tunnel \<times> world" where
  "tunnel_init cf extern_tun_fd t w =
     (if extern_tun_fd \<ge> 0 then
        let (res, w) = sys_result w
        in if res < 0 then (-1, t, w) else (0, t\<lparr>tn_fd := extern_tun_fd\<rparr>, w)
      else
        let (fd, w) = sys_socket w;
            t = t\<lparr>tn_fd := fd\<rparr>
        in if fd < 0 then (-1, t, w)
           else
             let (res, w) = sys_result w
             in if res < 0 then (-1, t, w)
                else
                  let (res, w) = (if hev_config_get_tunnel_ipv4_address cf \<noteq> None then sys_result w else (0, w))
                  in if res < 0 then (-1, t, w)
                     else
                       let (res, w) =
                         (if hev_config_get_tunnel_ipv6_address cf \<noteq> None then sys_result w else (0, w))
                       in if res < 0 then (-1, t, w)
                          else
                            let (res, w) = sys_result w
                            in if res < 0 then (-1, t, w) else (0, t\<lparr>tn_fd_local := True\<rparr>, w))"

definition tunnel_fini :: "tunnel \<Rightarrow> world \<Rightarrow> tunnel \<times> world" where
  "tunnel_fini t w =
     (if \<not> tn_fd_local t then (t, w)
      else (t\<lparr>tn_fd_local := False, tn_fd := -1\<rparr>, sys_close (tn_fd t) w))"

definition gateway_init :: "tunnel \<Rightarrow> int \<times> tunnel" where
  "gateway_init t = (0, t\<lparr>tn_gateway := True\<rparr>)"

definition gateway_fini :: "tunnel \<Rightarrow> tunnel" where
  "gateway_fini t = t\<lparr>tn_gateway := False\<rparr>"

text \<open>\<open>socketpair\<close> opens two descriptors.\<close>

definition sys_socketpair :: "world \<Rightarrow> int \<times> int \<times> int \<times> world" where
  "sys_socketpair w =
     (let (r, w) = sys_result w
      in if r < 0 then (-1, -1, -1, w)
         else let a = w_next_fd w; b = a + 1
              in (0, a, b, w\<lparr>w_next_fd := b + 1, w_open := insert b (insert a (w_open w))\<rparr>))"

definition event_task_init :: "tunnel \<Rightarrow> world \<Rightarrow> int \<times> tunnel \<times> world" where
  "event_task_init t w =
     (let (res, a, b, w) = sys_socketpair w
      in if res < 0 then (-1, t, w)
         else
           let t = t\<lparr>tn_event_fd0 := a, tn_event_fd1 := b\<rparr>;
               (res, w) = sys_result w
           in if res < 0 then (-1, t, w)
              else
                let (task, w) = sys_malloc w
                in if \<not> task then (-1, t, w) else (0, t\<lparr>tn_task_event := True\<rparr>, w))"

definition event_task_fini :: "tunnel \<Rightarrow> world \<Rightarrow> tunnel \<times> world" where
  "event_task_fini t w =
     (let w = (if tn_task_event t then sys_free w else w);
          w = (if tn_event_fd0 t \<ge> 0 then sys_close (tn_event_fd0 t) w else w);
          w = (if tn_event_fd1 t \<ge> 0 then sys_close (tn_event_fd1 t) w else w)
      in (t\<lparr>tn_task_event := False,
            tn_event_fd0 := (if tn_event_fd0 t \<ge> 0 then -1 else tn_event_fd0 t),
            tn_event_fd1 := (if tn_event_fd1 t \<ge> 0 then -1 else tn_event_fd1 t)\<rparr>, w))"

definition lwip_io_task_init :: "tunnel \<Rightarrow> world \<Rightarrow> int \<times> tunnel \<times> world" where
  "lwip_io_task_init t w =
     (let (task, w) = sys_malloc w
      in if \<not> task then (-1, t, w) else (0, t\<lparr>tn_task_lwip_io := True\<rparr>, w))"

definition lwip_io_task_fini :: "tunnel \<Rightarrow> world \<Rightarrow> tunnel \<times> world" where
  "lwip_io_task_fini t w =
     (t\<lparr>tn_task_lwip_io := False\<rparr>, if tn_task_lwip_io t then sys_free w else w)"

definition lwip_timer_task_init :: "tunnel \<Rightarrow> world \<Rightarrow> int \<times> tunnel \<times> world" where
  "lwip_timer_task_init t w =
     (let (task, w) = sys_malloc w
      in if \<not> task then (-1, t, w) else (0, t\<lparr>tn_task_lwip_timer := True\<rparr>, w))"

definition lwip_timer_task_fini :: "tunnel \<Rightarrow> world \<Rightarrow> tunnel \<times> world" where
  "lwip_timer_task_fini t w =
     (t\<lparr>tn_task_lwip_timer := False\<rparr>, if tn_task_lwip_timer t then sys_free w else w)"

text \<open>\<open>alloc\<close> is what the allocator does for the names later on.\<close>

definition mapped_dns_init ::
  "hev_config \<Rightarrow> (ptr \<times> bool) list \<Rightarrow> tunnel \<Rightarrow> world \<Rightarrow> int \<times> tunnel \<times> world" where
  "mapped_dns_init cf alloc t w =
     (let network = hev_config_get_mapdns_network cf;
          netmask = hev_config_get_mapdns_netmask cf;
          cache_size = hev_config_get_mapdns_cache_size cf
      in if cache_size = 0 then (0, t, w)
         else
           let (got, w) = sys_malloc w
           in case hev_mapped_dns_new network netmask cache_size got alloc of
                None \<Rightarrow> (-1, t, if got then sys_free w else w)
              | Some dns \<Rightarrow> (0, t\<lparr>tn_dns := Some dns\<rparr>, w))"

definition mapped_dns_fini :: "nat \<Rightarrow> tunnel \<Rightarrow> world \<Rightarrow> (tunnel \<times> world) option" where
  "mapped_dns_fini fuel t w =
     (case tn_dns t of
        None \<Rightarrow> Some (t, w)
      | Some dns \<Rightarrow> do {
          _ \<leftarrow> hev_mapped_dns_destruct fuel dns;
          Some (t\<lparr>tn_dns := None\<rparr>, sys_free w)
        })"

definition hev_socks5_tunnel_fini :: "nat \<Rightarrow> tunnel \<Rightarrow> world \<Rightarrow> (tunnel \<times> world) option" where
  "hev_socks5_tunnel_fini fuel t w = do {
     (t, w) \<leftarrow> mapped_dns_fini fuel t w;
     let (t, w) = lwip_timer_task_fini t w;
     let (t, w) = lwip_io_task_fini t w;
     let (t, w) = event_task_fini t w;
     let t = gateway_fini t;
     let (t, w) = tunnel_fini t w;
     Some (t\<lparr>tn_tx_packets := 0, tn_rx_packets := 0, tn_tx_bytes := 0, tn_rx_bytes := 0\<rparr>, w)
   }"

text \<open>The six steps, up to the first that fails.\<close>

definition tunnel_init_steps ::
  "hev_config \<Rightarrow> (ptr \<times> bool) list \<Rightarrow> int \<Rightarrow> tunnel \<Rightarrow> world \<Rightarrow> int \<times> tunnel \<times> world" where
  "tunnel_init_steps cf alloc extern_fd t w =
     (let (res, t, w) = tunnel_init cf extern_fd t w
      in if res < 0 then (res, t, w)
         else let (res, t) = gateway_init t
              in if res < 0 then (res, t, w)
                 else let (res, t, w) = event_task_init t w
                      in if res < 0 then (res, t, w)
                         else let (res, t, w) = lwip_io_task_init t w
                              in if res < 0 then (res, t, w)
                                 else let (res, t, w) = lwip_timer_task_init t w
                                      in if res < 0 then (res, t, w)
                                         else mapped_dns_init cf alloc t w)"

definition hev_socks5_tunnel_init ::
  "hev_config \<Rightarrow> (ptr \<times> bool) list \<Rightarrow> nat \<Rightarrow> int \<Rightarrow> tunnel \<Rightarrow> world \<Rightarrow> (int \<times> tunnel \<times> world) option" where
  "hev_socks5_tunnel_init cf alloc fuel extern_fd t w =
     (let (res, t, w) = tunnel_init_steps cf alloc extern_fd t w
      in if res < 0 then do { (t, w) \<leftarrow> hev_socks5_tunnel_fini fuel t w; Some (-1, t, w) }
         else Some (0, t, w))"

text \<open>Running: the tasks take references of their own and the scheduler runs, \<open>system_run\<close>.\<close>

definition hev_socks5_tunnel_run :: "(tunnel \<Rightarrow> tunnel option) \<Rightarrow> tunnel \<Rightarrow> (int \<times> tunnel) option" where
  "hev_socks5_tunnel_run system_run t = do { t \<leftarrow> system_run (t\<lparr>tn_run := True\<rparr>); Some (0, t) }"

text \<open>Stopping waits until the event socket is there; it is the last of the values read.\<close>

fun hev_socks5_tunnel_stop :: "int list \<Rightarrow> int option" where
  "hev_socks5_tunnel_stop [] = None"
| "hev_socks5_tunnel_stop (fd # fds) = (if fd \<ge> 0 then Some fd else hev_socks5_tunnel_stop fds)"

definition hev_socks5_tunnel_stats :: "tunnel \<Rightarrow> size_t \<times> size_t \<times> size_t \<times> size_t" where
  "hev_socks5_tunnel_stats t = (tn_tx_packets t, tn_tx_bytes t, tn_rx_packets t, tn_rx_bytes t)"

end
