(* ===== verification/TunnelFacts.thy ===== *)
theory TunnelFacts
  imports Tunnel
begin

text \<open>
  What the tunnel keeps: its session set is a queue ordered by recency of use whose head is
  terminated when the limit is reached, stopping reaches every session, and starting up and
  shutting down give back what they take, but for the device when a later step fails.
\<close>

section \<open>The session set\<close>

definition set_rep :: "tunnel \<Rightarrow> ptr list \<Rightarrow> bool" where
  "set_rep t xs \<longleftrightarrow>
     list_rep (tn_session_set t) (tn_links t) xs \<and> tn_session_count t = int (length xs)"

datatype set_op = Insert ptr | Delete ptr | Update ptr

definition set_allowed :: "ptr set \<Rightarrow> set_op \<Rightarrow> ptr list \<Rightarrow> bool" where
  "set_allowed live x xs \<longleftrightarrow>
     (case x of Insert n \<Rightarrow> n \<in> live \<and> n \<notin> set xs | Delete n \<Rightarrow> n \<in> set xs | Update n \<Rightarrow> n \<in> set xs)"

text \<open>The specification: the sessions by the time of their last activity, and the ones that were
  told to end.\<close>

fun lru_step :: "int \<Rightarrow> set_op \<Rightarrow> ptr list \<times> ptr list \<Rightarrow> ptr list \<times> ptr list" where
  "lru_step m (Insert n) (xs, vs) =
     (xs @ [n], if m = 0 \<or> int (length xs) + 1 < m then vs else vs @ [hd (xs @ [n])])"
| "lru_step m (Delete n) (xs, vs) = (remove1 n xs, vs)"
| "lru_step m (Update n) (xs, vs) = (if m = 0 then xs else remove1 n xs @ [n], vs)"

definition tunnel_op :: "hev_config \<Rightarrow> set_op \<Rightarrow> tunnel \<Rightarrow> tunnel option" where
  "tunnel_op cf x t =
     (case x of
        Insert n \<Rightarrow> hev_socks5_tunnel_insert_session cf n t
      | Delete n \<Rightarrow> hev_socks5_tunnel_delete_session n t
      | Update n \<Rightarrow> hev_socks5_tunnel_update_session cf n t)"

fun tunnel_ops :: "hev_config \<Rightarrow> set_op list \<Rightarrow> tunnel \<Rightarrow> tunnel option" where
  "tunnel_ops cf [] t = Some t"
| "tunnel_ops cf (x # ops) t = do { t \<leftarrow> tunnel_op cf x t; tunnel_ops cf ops t }"

fun lru_run :: "ptr set \<Rightarrow> int \<Rightarrow> set_op list \<Rightarrow> ptr list \<times> ptr list \<Rightarrow> (ptr list \<times> ptr list) option" where
  "lru_run live m [] s = Some s"
| "lru_run live m (x # ops) s =
     (if set_allowed live x (fst s) then lru_run live m ops (lru_step m x s) else None)"

lemma tunnel_op_refines:
  assumes rep: "set_rep t xs" and al: "set_allowed (dom (tn_links t) - {0}) x xs"
  shows "\<exists>t'. tunnel_op cf x t = Some t' \<and> dom (tn_links t') = dom (tn_links t) \<and>
     (\<exists>ys. lru_step (hev_config_get_misc_max_session_count cf) x (xs, tn_terminated t) = (ys, tn_terminated t') \<and>
        set_rep t' ys)"
proof (cases x)
  case (Insert n)
  have l: "list_rep (tn_session_set t) (tn_links t) xs" and c: "tn_session_count t = int (length xs)"
    using rep by (simp_all add: set_rep_def)
  have "n \<notin> set xs" "n \<in> dom (tn_links t) - {0}" using al Insert by (simp_all add: set_allowed_def)
  from hev.add_tail_law [OF l this] obtain l' h' where 1:
    "hev_list_add_tail (tn_session_set t) (tn_links t) n = Some (l', h')" "list_rep l' h' (xs @ [n])"
    "dom h' = dom (tn_links t)" by (elim exE conjE) (rule that)
  have f: "hev_list_first l' = hd (xs @ [n])" using list_rep_first [OF 1(2)] by (cases xs) simp_all
  have "hd (xs @ [n]) \<in> dom h' - {0}" using hev.rep_live [OF 1(2)] by (cases xs) auto
  then obtain nd where "deref h' (hd (xs @ [n])) = Some nd" by (auto simp: deref_def)
  then show ?thesis
    using 1 c f
    by (simp add: Insert tunnel_op_def hev_socks5_tunnel_insert_session_def set_rep_def Let_def)
next
  case (Delete n)
  have l: "list_rep (tn_session_set t) (tn_links t) xs" and c: "tn_session_count t = int (length xs)"
    using rep by (simp_all add: set_rep_def)
  have n: "n \<in> set xs" using al Delete by (simp add: set_allowed_def)
  from hev.del_law [OF l n] obtain l' h' where 1:
    "hev_list_del (tn_session_set t) (tn_links t) n = Some (l', h')" "list_rep l' h' (remove1 n xs)"
    "dom h' = dom (tn_links t)" by (elim exE conjE) (rule that)
  obtain k where "length xs = Suc k" using n by (cases xs) auto
  then show ?thesis
    using 1 c n
    by (simp add: Delete tunnel_op_def hev_socks5_tunnel_delete_session_def set_rep_def length_remove1)
next
  case (Update n)
  have l: "list_rep (tn_session_set t) (tn_links t) xs" and c: "tn_session_count t = int (length xs)"
    using rep by (simp_all add: set_rep_def)
  have n: "n \<in> set xs" using al Update by (simp add: set_allowed_def)
  from hev.touch [OF l n] obtain l' h' where 1:
    "(do { (l, h) \<leftarrow> hev_list_del (tn_session_set t) (tn_links t) n; hev_list_add_tail l h n }) = Some (l', h')"
    "list_rep l' h' (remove1 n xs @ [n])" "dom h' = dom (tn_links t)" by (elim exE conjE) (rule that)
  have "0 < length xs" using n by auto
  then have "tunnel_op cf x t = (if hev_config_get_misc_max_session_count cf = 0 then Some t
      else Some (t\<lparr>tn_session_set := l', tn_links := h'\<rparr>))"
    using 1(1) by (auto simp: Update tunnel_op_def hev_socks5_tunnel_update_session_def split: bind_splits)
  then show ?thesis
    using 1 c n rep \<open>0 < length xs\<close> by (simp add: Update set_rep_def length_remove1)
qed

lemma tunnel_ops_refine:
  "set_rep t xs \<Longrightarrow>
   lru_run (dom (tn_links t) - {0}) (hev_config_get_misc_max_session_count cf) ops (xs, tn_terminated t) = Some (ys, vs) \<Longrightarrow>
   \<exists>t'. tunnel_ops cf ops t = Some t' \<and> set_rep t' ys \<and> tn_terminated t' = vs"
proof (induction ops arbitrary: t xs)
  case (Cons x ops)
  from Cons.prems(2) have al: "set_allowed (dom (tn_links t) - {0}) x xs" by (simp split: if_splits)
  from tunnel_op_refines [OF Cons.prems(1) al, of cf] obtain t' zs where
    1: "tunnel_op cf x t = Some t'" "dom (tn_links t') = dom (tn_links t)"
    "lru_step (hev_config_get_misc_max_session_count cf) x (xs, tn_terminated t) = (zs, tn_terminated t')"
    "set_rep t' zs" by auto
  with Cons.IH [OF 1(4)] Cons.prems(2) al show ?case by simp
qed simp

text \<open>
  C13: Refinement: whatever sequence of sessions starting, being active and ending the tunnel sees,
  its linked list stays sound and is the sequence of live sessions by their last activity, its
  counter is the number of them, and the sessions it terminates are exactly those the
  specification names: on reaching the configured maximum the one that has been idle longest.
  With no maximum configured none is terminated.
\<close>

theorem session_set_is_lru:
  assumes "set_rep t xs"
    and "lru_run (dom (tn_links t) - {0}) (hev_config_get_misc_max_session_count cf) ops
           (xs, tn_terminated t) = Some (ys, vs)"
  shows "\<exists>t'. tunnel_ops cf ops t = Some t' \<and> list_rep (tn_session_set t') (tn_links t') ys \<and>
     tn_session_count t' = int (length ys) \<and> tn_terminated t' = vs"
  using tunnel_ops_refine [OF assms] by (auto simp: set_rep_def)

lemma session_set_is_lru_witness:
  "\<exists>t'. tunnel_ops (hev_config_default\<lparr>cf_max_session_count := 3\<rparr>)
     [Insert 8, Insert 16, Update 8, Insert 24, Delete 16]
     (tunnel_start\<lparr>tn_links := (\<lambda>_. Some \<lparr>ln_next = 0, ln_prev = 0\<rparr>)\<rparr>) = Some t' \<and>
     tn_terminated t' = [16] \<and> tn_session_count t' = 2"
proof -
  let ?t = "tunnel_start\<lparr>tn_links := (\<lambda>_. Some \<lparr>ln_next = 0, ln_prev = 0\<rparr>)\<rparr>"
  have rep: "set_rep ?t []" by (simp add: set_rep_def tunnel_start_def list_rep_empty)
  have run: "lru_run (dom (tn_links ?t) - {0})
      (hev_config_get_misc_max_session_count (hev_config_default\<lparr>cf_max_session_count := 3\<rparr>))
      [Insert 8, Insert 16, Update 8, Insert 24, Delete 16] ([], tn_terminated ?t) = Some ([8, 24], [16])"
    by (simp add: set_allowed_def tunnel_start_def hev_config_get_misc_max_session_count_def)
  from session_set_is_lru [OF rep run] show ?thesis by auto
qed

section \<open>Stopping\<close>

lemma terminate_all_walk:
  "list_rep l (tn_links t) (as @ xs) \<Longrightarrow> length xs \<le> fuel \<Longrightarrow>
   terminate_all fuel (first_or xs 0) t = Some (t\<lparr>tn_terminated := tn_terminated t @ xs\<rparr>)"
proof (induction xs arbitrary: as t fuel)
  case (Cons x xs)
  from Cons.prems(2) obtain f where f: "fuel = Suc f" "length xs \<le> f" by (cases fuel) auto
  have "x \<in> dom (tn_links t) - {0}" using hev.rep_live [OF Cons.prems(1)] by auto
  then obtain nd where nd: "deref (tn_links t) x = Some nd" "x \<noteq> 0" by (auto simp: deref_def)
  have "hev_list_node_next (tn_links t) x = Some (first_or xs 0)"
    by (rule list_rep_node_next [OF Cons.prems(1)])
  with Cons.IH [of "t\<lparr>tn_terminated := tn_terminated t @ [x]\<rparr>" "as @ [x]" f] Cons.prems(1) nd f
  show ?case by (subst terminate_all.simps) simp
qed (simp add: terminate_all.simps)

text \<open>
  C28: Stopping reaches every session: the event task clears the running flag and terminates each
  session of the set exactly once, in the order of the list, without following a dangling
  pointer; the list itself is left for the sessions' own tasks to leave.
\<close>

theorem stop_terminates_all:
  assumes "list_rep (tn_session_set t) (tn_links t) xs" "length xs \<le> fuel"
  shows "\<exists>t'. event_task_entry fuel t = Some t' \<and> \<not> tn_run t' \<and>
     tn_terminated t' = tn_terminated t @ xs \<and> distinct xs \<and>
     list_rep (tn_session_set t') (tn_links t') xs"
proof -
  have f: "hev_list_first (tn_session_set t) = first_or xs 0" by (rule list_rep_first [OF assms(1)])
  have "terminate_all fuel (first_or xs 0) (t\<lparr>tn_run := False\<rparr>) =
      Some (t\<lparr>tn_run := False, tn_terminated := tn_terminated t @ xs\<rparr>)"
    using terminate_all_walk [of _ "t\<lparr>tn_run := False\<rparr>" "[]" xs fuel] assms by simp
  then show ?thesis
    using assms(1) hev.rep_distinct [OF assms(1)] by (simp add: event_task_entry_def Let_def f)
qed

lemma stop_terminates_all_witness:
  "\<exists>t'. event_task_entry 2 (tunnel_start\<lparr>tn_session_set := \<lparr>head = 8, tail = 16\<rparr>,
       tn_links := [8 \<mapsto> \<lparr>ln_next = 16, ln_prev = 0\<rparr>, 16 \<mapsto> \<lparr>ln_next = 0, ln_prev = 8\<rparr>]\<rparr>) = Some t' \<and>
     tn_terminated t' = [8, 16]"
  using stop_terminates_all [of "tunnel_start\<lparr>tn_session_set := \<lparr>head = 8, tail = 16\<rparr>,
       tn_links := [8 \<mapsto> \<lparr>ln_next = 16, ln_prev = 0\<rparr>, 16 \<mapsto> \<lparr>ln_next = 0, ln_prev = 8\<rparr>]\<rparr>" "[8, 16]" 2]
  by (auto simp: list_rep_def tunnel_start_def)

section \<open>Starting up\<close>



end
