(* ===== verification/MappedDNSFacts.thy ===== *)
theory MappedDNSFacts
  imports MappedDNS
begin

text \<open>
  What the query handler of \<open>hev-mapped-dns.c\<close> answers. A question is given by the labels of
  its name; the bytes of the answer follow from them, from the header of the query and from the
  index that the table has for the name.
\<close>

text \<open>The labels of a name as a query has them, and with the dots that the handler puts in place
  of the length bytes.\<close>

definition labels_wire :: "byte list list \<Rightarrow> byte list" where
  "labels_wire ls = concat (map (\<lambda>l. word_of_nat (length l) # l) ls)"

definition labels_dotted :: "byte list list \<Rightarrow> byte list" where
  "labels_dotted ls = concat (map (\<lambda>l. 46 # l) ls)"

definition labels_ok :: "byte list list \<Rightarrow> bool" where
  "labels_ok ls \<longleftrightarrow> (\<forall>l\<in>set ls. 0 < length l \<and> length l < 256 \<and> 0 \<notin> set l)"

lemma labels_simps [simp]:
  "labels_wire [] = []" "labels_dotted [] = []" "labels_ok []"
  "labels_wire (l # ls) = word_of_nat (length l) # l @ labels_wire ls"
  "labels_dotted (l # ls) = 46 # l @ labels_dotted ls"
  "labels_ok (l # ls) \<longleftrightarrow> 0 < length l \<and> length l < 256 \<and> 0 \<notin> set l \<and> labels_ok ls"
  by (auto simp: labels_wire_def labels_dotted_def labels_ok_def)

lemma length_labels_dotted [simp]: "length (labels_dotted ls) = length (labels_wire ls)"
  by (induction ls) auto

lemma labels_dotted_cstr: "labels_ok ls \<Longrightarrow> is_cstr (labels_dotted ls)"
  by (induction ls) (auto simp: is_cstr_def)

lemma unat_label: "n < 256 \<Longrightarrow> unat (word_of_nat n :: byte) = n"
  by (simp add: unat_of_nat take_bit_eq_mod)

lemma label_nonzero: "0 < n \<Longrightarrow> n < 256 \<Longrightarrow> (word_of_nat n :: byte) \<noteq> 0"
  by (metis less_numeral_extra(3) unat_0 unat_label)

lemma dns_labels_walk:
  assumes "labels_ok ls" "length pre + length (labels_wire ls) < qlen"
  shows "dns_labels (pre @ labels_wire ls @ 0 # post) (length pre) qlen =
    Some (pre @ labels_dotted ls @ 0 # post, Some (length pre + length (labels_wire ls)))"
  using assms
proof (induction ls arbitrary: pre)
  case Nil
  then show ?case by (subst dns_labels.simps) (simp add: mem_get_Some nth_append)
next
  case (Cons l ls)
  let ?rb = "pre @ word_of_nat (length l) # l @ labels_wire ls @ 0 # post"
  have w: "mem_write ?rb (length pre) [46] = Some ((pre @ 46 # l) @ labels_wire ls @ 0 # post)"
    by (simp add: mem_write_Some write_at_def)
  have u: "unat (word_of_nat (length l) :: byte) = length l" "(word_of_nat (length l) :: byte) \<noteq> 0"
    using Cons.prems(1) unat_label [of "length l"] label_nonzero [of "length l"] by simp_all
  have IH: "dns_labels ((pre @ 46 # l) @ labels_wire ls @ 0 # post) (length (pre @ 46 # l)) qlen =
      Some ((pre @ 46 # l) @ labels_dotted ls @ 0 # post, Some (length (pre @ 46 # l) + length (labels_wire ls)))"
    using Cons.prems by (intro Cons.IH) simp_all
  show ?case
    using Cons.prems IH u w
    by (subst dns_labels.simps) (simp add: mem_get_Some nth_append Let_def add.assoc)
qed

text \<open>The table does not change its network.\<close>

lemma dns_touch_net: "dns_touch self a = Some self' \<Longrightarrow> md_net self' = md_net self"
  by (auto simp: dns_touch_def split: bind_splits)

lemma hev_mapped_dns_find_net:
  assumes "hev_mapped_dns_find self name = Some (idx, self')"
  shows "md_net self' = md_net self"
  using assms
  by (auto simp: hev_mapped_dns_find_def hev_mapped_dns_node_alloc_def hev_mapped_dns_node_free_def Let_def
      split: bind_splits sum.splits prod.splits list.splits if_splits dest!: dns_touch_net)

text \<open>The flags of the reply: a response, with recursion available when it was desired.\<close>

lemma byte_eqI:
  assumes "\<forall>n\<in>{0, 1, 2, 3, 4, 5, 6, 7}. bit (a :: byte) n \<longleftrightarrow> bit b n"
  shows "a = b"
proof (rule bit_word_eqI)
  fix n assume "n < LENGTH(8)"
  then have "n \<in> {0, 1, 2, 3, 4, 5, 6, 7}" by auto
  with assms show "bit a n = bit b n" by blast
qed

lemma reply_flags:
  "u16_bytes (htons (ntohs (bytes_u16 f0 f1) OR 0x8000 OR drop_bit 1 (ntohs (bytes_u16 f0 f1) AND 0x100))) =
   [f0 OR 0x80, f1 OR push_bit 7 (f0 AND 1)]"
proof -
  have "ucast (htons (ntohs (bytes_u16 f0 f1) OR 0x8000 OR drop_bit 1 (ntohs (bytes_u16 f0 f1) AND 0x100))) = f0 OR 0x80"
    by (rule byte_eqI) (simp add: htons_def ntohs_def bytes_u16_def bit_simps)
  moreover have "ucast (drop_bit 8 (htons (ntohs (bytes_u16 f0 f1) OR 0x8000 OR
      drop_bit 1 (ntohs (bytes_u16 f0 f1) AND 0x100)))) = f1 OR push_bit 7 (f0 AND 1)"
    by (rule byte_eqI) (simp add: htons_def ntohs_def bytes_u16_def bit_simps)
  ultimately show ?thesis by (simp add: u16_bytes_def)
qed

section \<open>The reply to a question\<close>

text \<open>The reply to a question for a name: the header with its flags set and its counts replaced, the
  question, and a record with the address when there is one.\<close>

definition dns_reply :: "byte list \<Rightarrow> byte list list \<Rightarrow> u32 option \<Rightarrow> byte list" where
  "dns_reply h ls ip =
     [h ! 0, h ! 1, h ! 2 OR 0x80, h ! 3 OR push_bit 7 (h ! 2 AND 1), 0, 1,
      0, if ip = None then 0 else 1, 0, 0, h ! 10, h ! 11] @
     labels_wire ls @ [0, 0, 1, 0, 1] @
     (case ip of None \<Rightarrow> [] | Some a \<Rightarrow> [0xc0, 12, 0, 1, 0, 1, 0, 0, 0, 1, 0, 4] @ write_u32 a)"

lemma question_step:
  assumes ok: "labels_ok ls" "ls \<noteq> []"
    and pre: "length pre = 12"
    and q: "12 + length (labels_wire ls) + 5 \<le> qlen"
    and f: "hev_mapped_dns_find self (tl (labels_dotted ls)) = Some (idx, self')"
  shows "dns_questions self 1 (pre @ labels_wire ls @ [0, 0, 1, 0, 1] @ extra) 12 qlen [] =
    Some (Some (if 0 \<le> idx then [(md_net self' OR word_of_int idx, 12)] else [], 12 + length (labels_wire ls) + 5),
      pre @ labels_dotted ls @ [0, 0, 1, 0, 1] @ extra, self')"
proof -
  let ?rb = "pre @ labels_dotted ls @ [0, 0, 1, 0, 1] @ extra"
  have w: "dns_labels (pre @ labels_wire ls @ 0 # [0, 1, 0, 1] @ extra) (length pre) qlen =
      Some (pre @ labels_dotted ls @ 0 # [0, 1, 0, 1] @ extra, Some (length pre + length (labels_wire ls)))"
    using assms by (intro dns_labels_walk) simp_all
  have t: "read_u16 ?rb (13 + length (labels_wire ls)) = Some 1"
    "read_u16 ?rb (15 + length (labels_wire ls)) = Some 1"
    using pre by (simp_all add: read_u16_def mem_get_Some nth_append)
  obtain l ls' where ls: "ls = l # ls'" using ok(2) by (cases ls) auto
  have d: "drop 13 ?rb = tl (labels_dotted ls) @ 0 # [0, 1, 0, 1] @ extra"
    using pre ls by simp
  have "is_cstr (tl (labels_dotted ls))"
    using labels_dotted_cstr [OF ok(1)] ls by (simp add: is_cstr_def)
  then have "c_string (drop 13 ?rb) = Some (tl (labels_dotted ls))"
    unfolding d by (rule c_string_cstr)
  then show ?thesis
    using w t f q pre hev_mapped_dns_find_net [OF f]
    by (simp add: Let_def add.commute add.left_commute)
qed

lemma mem_write_append:
  "length pre = i \<Longrightarrow> length bs \<le> length T \<Longrightarrow>
   mem_write (pre @ T) i bs = Some (pre @ bs @ drop (length bs) T)"
  by (auto simp: mem_write_def write_at_def)

lemma length_dns_answer [simp]: "length (dns_answer ip ipo) = 16"
  by (simp add: dns_answer_def write_u16_def write_u32_def)

text \<open>The handler around its two loops, for a query that announces one question.\<close>

lemma handle_header:
  assumes req: "req = [a, b, c, d, 0, 1, g, j, k, l, m, n] @ q"
    and len: "length req \<le> length res"
    and xy: "u16_bytes (ntohs (bytes_u16 c d)) = [x, y]"
    and Q: "dns_questions self 1 ([a, b, c, d, 1, 0, g, j, k, l, m, n] @ q) 12 (length req) [] =
      Some (Some (ans, off), req', self')"
    and A: "dns_answers ans ([a, b, x, y, 0, 1, 0, 0, 0, 0, m, n] @ q @ drop (length req) res) off (length res) =
      Some ([a, b, x, y, 0, 1, 0, 0, 0, 0, m, n] @ U, Some off')"
    and n: "u16_bytes (htons (word_of_nat (length ans))) = [0, cnt]"
  shows "hev_mapped_dns_handle self req (length req) res (length res) =
    Some (int off', req', [a, b, c OR 0x80, d OR push_bit 7 (c AND 1), 0, 1, 0, cnt, 0, 0, m, n] @ U, self')"
proof -
  let ?R = "drop (length req) res"
  have one: "ntohs (bytes_u16 0 1) = 1" by (simp add: ntohs_def bytes_u16_def)
  have nolt: "(length res < length req) = False" using len by simp
  have nbig: "((32 :: u16) < 1) = False" by simp
  have w1: "mem_write res 0 req = Some (req @ ?R)"
    using len by (simp add: mem_write_def write_at_0)
  have r1: "mem_read req 0 (length req) = Some req" by (simp add: mem_read_def)
  have r2: "mem_read req 4 2 = Some [0, 1]" unfolding req by (simp add: mem_read_def)
  have w2: "mem_write req 4 (u16_bytes 1) = Some ([a, b, c, d, 1, 0, g, j, k, l, m, n] @ q)"
    unfolding req by (simp add: mem_write_def write_at_def u16_bytes_def)
  have r3: "mem_read (req @ ?R) 2 2 = Some [c, d]" unfolding req by (simp add: mem_read_def)
  have w3: "mem_write (req @ ?R) 2 [x, y] = Some ([a, b, x, y, 0, 1, g, j, k, l, m, n] @ q @ ?R)"
    unfolding req by (simp add: mem_write_def write_at_def)
  have w4: "mem_write ([a, b, x, y, 0, 1, g, j, k, l, m, n] @ q @ ?R) 8 (u16_bytes 0) =
      Some ([a, b, x, y, 0, 1, g, j, 0, 0, m, n] @ q @ ?R)"
    by (simp add: mem_write_def write_at_def u16_bytes_def)
  have w5: "mem_write ([a, b, x, y, 0, 1, g, j, 0, 0, m, n] @ q @ ?R) 6 (u16_bytes 0) =
      Some ([a, b, x, y, 0, 1, 0, 0, 0, 0, m, n] @ q @ ?R)"
    by (simp add: mem_write_def write_at_def u16_bytes_def)
  have w6: "mem_write ([a, b, x, y, 0, 1, 0, 0, 0, 0, m, n] @ U) 2 [v, w] =
      Some ([a, b, v, w, 0, 1, 0, 0, 0, 0, m, n] @ U)" for v w
    by (simp add: mem_write_def write_at_def)
  have w7: "mem_write ([a, b, v, w, 0, 1, 0, 0, 0, 0, m, n] @ U) 6 [0, cnt] =
      Some ([a, b, v, w, 0, 1, 0, cnt, 0, 0, m, n] @ U)" for v w
    by (simp add: mem_write_def write_at_def)
  show ?thesis
    unfolding hev_mapped_dns_handle_def
    by (simp only: nolt w1 r1 r2 r3 one w2 xy w3 w4 w5 Let_def bind.bind_lunit nth_Cons_0 nth_Cons_Suc
        One_nat_def nbig if_False unat_1 Q [unfolded One_nat_def] A n w6 w7
        reply_flags [unfolded One_nat_def] prod.case option.case)
qed

text \<open>The answer loop, for at most one answer.\<close>

lemma one_answer:
  assumes "length pre + 16 \<le> length (pre @ post)"
  shows "\<exists>T. dns_answers (if P then [(ip, 12)] else []) (pre @ post) (length pre) (length (pre @ post)) =
      Some (pre @ (if P then dns_answer ip 12 else []) @ T, Some (length pre + (if P then 16 else 0))) \<and>
    length (pre @ (if P then dns_answer ip 12 else []) @ T) = length (pre @ post)"
  using assms mem_write_append [of pre "length pre" "dns_answer ip 12" post]
  by (cases P) auto

text \<open>
  C18: The answer to a query with one question, an address of a name in the Internet class, whatever
  else the query carries: the reply is a response with the same identifier, the same question and,
  if and only if the table has or gives the name an index, one address record, which points to
  the question's name and holds the network address with that index. The name looked up is the
  labels of the question joined with dots. The table is used once and not changed otherwise.
\<close>

theorem dns_single_question:
  assumes "labels_ok ls" "ls \<noteq> []" "length h = 12" "h ! 4 = 0" "h ! 5 = 1"
    and "req = h @ labels_wire ls @ [0, 0, 1, 0, 1] @ extra"
    and "length req \<le> length res" "length (labels_wire ls) + 33 \<le> length res"
    and "hev_mapped_dns_find self (tl (labels_dotted ls)) = Some (idx, self')"
  shows "let reply = dns_reply h ls (if 0 \<le> idx then Some (md_net self OR word_of_int idx) else None)
    in \<exists>req' res'. hev_mapped_dns_handle self req (length req) res (length res) =
         Some (int (length reply), req', res', self') \<and>
       take (length reply) res' = reply \<and> length res' = length res"
proof -
  obtain a b c d e f g j k l m n where h: "h = [a, b, c, d, e, f, g, j, k, l, m, n]"
    using assms(3) by (auto simp: numeral_eq_Suc length_Suc_conv)
  let ?q = "labels_wire ls @ [0, 0, 1, 0, 1] @ extra"
  let ?ip = "md_net self OR word_of_int idx"
  have req: "req = [a, b, c, d, 0, 1, g, j, k, l, m, n] @ ?q" using assms(4-6) h by simp
  have len: "length req = 12 + length ?q" unfolding req by simp
  have net: "md_net self' = md_net self" using assms(9) by (rule hev_mapped_dns_find_net)
  have Q: "dns_questions self 1 ([a, b, c, d, 1, 0, g, j, k, l, m, n] @ ?q) 12 (length req) [] =
    Some (Some (if 0 \<le> idx then [(?ip, 12)] else [], 12 + length (labels_wire ls) + 5),
      [a, b, c, d, 1, 0, g, j, k, l, m, n] @ labels_dotted ls @ [0, 0, 1, 0, 1] @ extra, self')"
    using question_step [OF assms(1,2) _ _ assms(9), of "[a, b, c, d, 1, 0, g, j, k, l, m, n]" "length req" extra]
    by (simp add: len net)
  obtain x y where xy: "u16_bytes (ntohs (bytes_u16 c d)) = [x, y]" by (simp add: u16_bytes_def)
  let ?pre = "[a, b, x, y, 0, 1, 0, 0, 0, 0, m, n] @ labels_wire ls @ [0, 0, 1, 0, 1]"
  let ?post = "extra @ drop (length req) res"
  have lr: "length (?pre @ ?post) = length res" using assms(7) len by simp
  have lp: "length ?pre = 12 + length (labels_wire ls) + 5" by simp
  have "length ?pre + 16 \<le> length (?pre @ ?post)" using assms(8) unfolding lr by simp
  from one_answer [OF this, of "0 \<le> idx" ?ip] obtain T where
    A: "dns_answers (if 0 \<le> idx then [(?ip, 12)] else []) (?pre @ ?post) (length ?pre) (length res) =
      Some (?pre @ (if 0 \<le> idx then dns_answer ?ip 12 else []) @ T, Some (length ?pre + (if 0 \<le> idx then 16 else 0)))"
    and lT: "length (?pre @ (if 0 \<le> idx then dns_answer ?ip 12 else []) @ T) = length res"
    unfolding lr by blast
  have n: "u16_bytes (htons (word_of_nat (length (if 0 \<le> idx then [(?ip, 12 :: nat)] else [])))) =
      [0, if 0 \<le> idx then 1 else 0]"
    by (simp add: u16_bytes_def htons_def)
  have "dns_answers (if 0 \<le> idx then [(?ip, 12)] else [])
      ([a, b, x, y, 0, 1, 0, 0, 0, 0, m, n] @ ?q @ drop (length req) res)
      (12 + length (labels_wire ls) + 5) (length res) =
    Some ([a, b, x, y, 0, 1, 0, 0, 0, 0, m, n] @ labels_wire ls @ [0, 0, 1, 0, 1] @
        (if 0 \<le> idx then dns_answer ?ip 12 else []) @ T,
      Some (12 + length (labels_wire ls) + 5 + (if 0 \<le> idx then 16 else 0)))"
    using A unfolding lp by (simp only: append_assoc)
  note handle_header [OF req assms(7) xy Q this n]
  moreover have "dns_reply h ls (if 0 \<le> idx then Some ?ip else None) =
      [a, b, c OR 0x80, d OR push_bit 7 (c AND 1), 0, 1, 0, if 0 \<le> idx then 1 else 0, 0, 0, m, n] @
        labels_wire ls @ [0, 0, 1, 0, 1] @ (if 0 \<le> idx then dns_answer ?ip 12 else [])"
    by (simp add: h dns_reply_def dns_answer_def write_u16_def write_u32_def)
  ultimately show ?thesis
    using lT by (auto simp: Let_def)
qed

text \<open>A table of one record, and a query for the name \<open>a.bc\<close>.\<close>

definition example_dns :: HevMappedDNS where
  "example_dns = \<lparr>md_use = 0, md_max = 1, md_net = 0xC6120000, md_mask = 0xFFFE0000,
     md_list = \<lparr>head = 0, tail = 0\<rparr>, md_tree = \<lparr>rb_root = 0, rb_heap = Map.empty\<rparr>,
     md_records = [0], md_links = Map.empty, md_data = Map.empty, md_alloc = [(8, True)]\<rparr>"

lemma example_find: "\<exists>self'. hev_mapped_dns_find example_dns [97, 46, 98, 99] = Some (0, self')"
  by (simp add: hev_mapped_dns_find_def example_dns_def hev_mapped_dns_node_alloc_def Let_def
      rb_search.simps hev_rbtree_node_link_def upd_node_def node_at_def deref_def
      hev_rbtree_insert_color_def insert_color_loop.simps hev_rbtree_node_red_parent_def
      hev_rbtree_node_set_parent_color_def hev_list_add_tail_def)

lemma dns_single_question_witness:
  "\<exists>req' res' self'. hev_mapped_dns_handle example_dns
      ([7, 7, 1, 0, 0, 1, 0, 0, 0, 0, 0, 0] @ [1, 97, 2, 98, 99, 0, 0, 1, 0, 1]) 22 (replicate 40 0) 40 =
    Some (38, req', res', self') \<and> take 38 res' =
      [7, 7, 0x81, 0x80, 0, 1, 0, 1, 0, 0, 0, 0] @ [1, 97, 2, 98, 99, 0, 0, 1, 0, 1] @
      [0xc0, 12, 0, 1, 0, 1, 0, 0, 0, 1, 0, 4] @ write_u32 0xC6120000"
proof -
  let ?h = "[7, 7, 1, 0, 0, 1, 0, 0, 0, 0, 0, 0] :: byte list"
  let ?req = "[7, 7, 1, 0, 0, 1, 0, 0, 0, 0, 0, 0] @ [1, 97, 2, 98, 99, 0, 0, 1, 0, 1] :: byte list"
  obtain self' where f: "hev_mapped_dns_find example_dns (tl (labels_dotted [[97], [98, 99]])) = Some (0, self')"
    using example_find by auto
  have r: "dns_reply ?h [[97], [98, 99]] (if 0 \<le> (0 :: int) then Some (md_net example_dns OR word_of_int 0) else None) =
      [7, 7, 0x81, 0x80, 0, 1, 0, 1, 0, 0, 0, 0] @ [1, 97, 2, 98, 99, 0, 0, 1, 0, 1] @
      [0xc0, 12, 0, 1, 0, 1, 0, 0, 0, 1, 0, 4] @ write_u32 0xC6120000" (is "?l = ?r")
    by (simp add: dns_reply_def example_dns_def)
  have n: "length ?req = 22" "length ?r = 38" by (simp_all add: write_u32_def)
  have "let reply = ?l in \<exists>req' res'. hev_mapped_dns_handle example_dns ?req (length ?req) (replicate 40 0)
      (length (replicate 40 (0 :: byte))) = Some (int (length reply), req', res', self') \<and>
      take (length reply) res' = reply \<and> length res' = length (replicate 40 (0 :: byte))"
    by (rule dns_single_question [where extra = "[]", OF _ _ _ _ _ _ _ _ f]) simp_all
  then show ?thesis
    unfolding r Let_def n length_replicate by auto
qed

section \<open>A query that ends after its header\<close>

text \<open>
  C36: A query that announces a question but ends with the header is read past its end: the handler
  looks at the first length byte of the question before it compares its offset with the length
  of the query. Whatever the table and the reply buffer are, the outcome is undefined.
\<close>

theorem dns_header_only_overread:
  assumes "length h = 12" "h ! 4 = 0" "h ! 5 = 1" "12 \<le> length res"
  shows "hev_mapped_dns_handle self h 12 res (length res) = None"
proof -
  obtain a b c d e f g j k l m n where "h = [a, b, c, d, e, f, g, j, k, l, m, n]"
    using assms(1) by (auto simp: numeral_eq_Suc length_Suc_conv)
  with assms(2,3) have h: "h = [a, b, c, d, 0, 1, g, j, k, l, m, n]" by simp
  have one: "ntohs (bytes_u16 0 1) = 1" by (simp add: ntohs_def bytes_u16_def)
  have "dns_labels q 12 12 = None" if "length q = 12" for q
    using that by (simp add: dns_labels.simps mem_get_def)
  with assms(4) show ?thesis
    by (simp add: h hev_mapped_dns_handle_def mem_read_def mem_write_def write_at_def Let_def one
        u16_bytes_def)
qed

lemma dns_header_only_overread_witness:
  "hev_mapped_dns_handle example_dns [7, 7, 1, 0, 0, 1, 0, 0, 0, 0, 0, 0] 12 (replicate 40 0) 40 = None"
  using dns_header_only_overread [of "[7, 7, 1, 0, 0, 1, 0, 0, 0, 0, 0, 0]" "replicate 40 0" example_dns]
  by simp

end
