(* ===== verification/RBTreeRep.thy ===== *)
theory RBTreeRep
  imports RBTree
begin

text \<open>
  The red-black trees that a store of nodes represents. A functional tree carries the addresses
  of its nodes, a context is the path from a position up to the root, and a store represents a
  tree at a position when both the part below and the path hold what their nodes should. The
  rewrite rules move updates of single nodes through these predicates.
\<close>

section \<open>Trees of addresses\<close>

datatype colour = Red | Blk

datatype rbt = E | N colour ptr rbt rbt

fun rootp :: "rbt \<Rightarrow> ptr" where
  "rootp E = 0"
| "rootp (N c a l r) = a"

fun inorder :: "rbt \<Rightarrow> ptr list" where
  "inorder E = []"
| "inorder (N c a l r) = inorder l @ a # inorder r"

fun rcol :: "rbt \<Rightarrow> colour" where
  "rcol E = Blk"
| "rcol (N c a l r) = c"

text \<open>A node with the subtree \<open>x\<close> on side \<open>d\<close> and \<open>y\<close> on the other.\<close>

definition nd :: "side \<Rightarrow> colour \<Rightarrow> ptr \<Rightarrow> rbt \<Rightarrow> rbt \<Rightarrow> rbt" where
  "nd d c a x y = (case d of Lft \<Rightarrow> N c a x y | Rgt \<Rightarrow> N c a y x)"

lemma nd_simps [simp]:
  "rootp (nd d c a x y) = a" "rcol (nd d c a x y) = c" "nd d c a x y \<noteq> E"
  "set (inorder (nd d c a x y)) = insert a (set (inorder x) \<union> set (inorder y))"
  by (auto simp: nd_def split: side.split)

lemma nd_cases: obtains "t = E" | c a x y where "t = nd d c a x y"
  by (cases t; cases d) (auto simp: nd_def)

lemma opp_simps [simp]: "opp Lft = Rgt" "opp Rgt = Lft" "opp (opp d) = d" "opp d \<noteq> d" "d \<noteq> opp d"
  by (cases d; simp add: opp_def)+

lemma nd_opp: "nd (opp d) c a x y = nd d c a y x"
  by (cases d) (simp_all add: nd_def)

section \<open>The contents of nodes\<close>

definition enc :: "ptr \<Rightarrow> colour \<Rightarrow> size_t" where
  "enc p c = p OR (case c of Red \<Rightarrow> HEV_RBTREE_RED | Blk \<Rightarrow> HEV_RBTREE_BLACK)"

definition aligned :: "ptr \<Rightarrow> bool" where
  "aligned p \<longleftrightarrow> p AND 3 = 0"

lemma aligned_0 [simp]: "aligned 0"
  by (simp add: aligned_def)

lemma bit_3 [simp]: "bit (3 :: nat) n \<longleftrightarrow> n = 0 \<or> n = Suc 0" "bit (3 :: int) n \<longleftrightarrow> n = 0 \<or> n = Suc 0"
proof -
  have "(3 :: nat) = mask 2" "(3 :: int) = mask 2" by (simp_all add: mask_eq_exp_minus_1)
  then show "bit (3 :: nat) n \<longleftrightarrow> n = 0 \<or> n = Suc 0" "bit (3 :: int) n \<longleftrightarrow> n = 0 \<or> n = Suc 0"
    by (simp only: bit_mask_iff, auto)+
qed

lemma aligned_bits:
  assumes "aligned p"
  shows "\<not> bit p 0" "\<not> bit p (Suc 0)"
proof -
  have "\<not> bit (p AND 3) n" for n using assms by (simp add: aligned_def)
  from this [of 0] this [of "Suc 0"] show "\<not> bit p 0" "\<not> bit p (Suc 0)" by (auto simp: bit_simps)
qed

lemma enc_simps [simp]:
  "p OR HEV_RBTREE_BLACK = enc p Blk" "p OR HEV_RBTREE_RED = enc p Red" "enc p Red = p"
  by (simp_all add: enc_def HEV_RBTREE_RED_def)

lemma bit_enc: "bit (enc p c) n \<longleftrightarrow> bit p n \<or> c = Blk \<and> n = 0"
proof (cases c)
  case Blk
  then have "enc p c = p OR 1" by (simp add: enc_def HEV_RBTREE_BLACK_def)
  then show ?thesis using Blk by (auto simp only: bit_or_iff bit_1_iff possible_bit_word)
qed simp

lemma enc_enc [simp]: "enc (enc p c) Blk = enc p Blk"
  by (rule bit_word_eqI) (auto simp: bit_enc)

lemma enc_parent:
  assumes "aligned p"
  shows "enc p c AND NOT 3 = p"
proof (rule bit_word_eqI)
  fix n
  assume "n < LENGTH(64)"
  then show "bit (enc p c AND NOT 3) n = bit p n"
    by (cases "n = 0 \<or> n = Suc 0") (use aligned_bits [OF assms] in \<open>auto simp: bit_simps bit_enc\<close>)
qed

lemma enc_parent' [simp]: "aligned p \<Longrightarrow> enc p c AND - 4 = p"
  using enc_parent [of p c] by simp

lemma enc_colour [simp]:
  assumes "aligned p"
  shows "enc p c AND 1 = enc 0 c"
proof (rule bit_word_eqI)
  fix n
  show "bit (enc p c AND 1) n = bit (enc 0 c) n"
    by (cases "n = 0") (use aligned_bits [OF assms] in \<open>simp_all add: bit_and_iff bit_1_iff bit_enc\<close>)
qed

lemma enc_merge [simp]: "enc 0 c OR q = enc q c"
  by (rule bit_word_eqI) (auto simp: bit_simps bit_enc)

lemma enc_black [simp]: "enc 0 c AND HEV_RBTREE_BLACK = 0 \<longleftrightarrow> c = Red"
  by (cases c) (simp_all add: enc_def HEV_RBTREE_BLACK_def HEV_RBTREE_RED_def)

definition mknode :: "side \<Rightarrow> size_t \<Rightarrow> ptr \<Rightarrow> ptr \<Rightarrow> HevRBTreeNode" where
  "mknode d pc x y = (case d of
     Lft \<Rightarrow> \<lparr>parent_color = pc, rb_right = y, rb_left = x\<rparr>
   | Rgt \<Rightarrow> \<lparr>parent_color = pc, rb_right = x, rb_left = y\<rparr>)"

lemma mknode_simps [simp]:
  "child d (mknode d pc x y) = x" "child (opp d) (mknode d pc x y) = y"
  "child d (mknode (opp d) pc x y) = y"
  "set_child d q (mknode d pc x y) = mknode d pc q y"
  "set_child (opp d) q (mknode d pc x y) = mknode d pc x q"
  "set_child d q (mknode (opp d) pc x y) = mknode (opp d) pc x q"
  "parent_color (mknode d pc x y) = pc"
  "(mknode d pc x y)\<lparr>parent_color := pc'\<rparr> = mknode d pc' x y"
  "rb_left (mknode Lft pc x y) = x" "rb_right (mknode Lft pc x y) = y"
  "rb_left (mknode Rgt pc x y) = y" "rb_right (mknode Rgt pc x y) = x"
  "child Rgt (mknode Lft pc x y) = y" "child Lft (mknode Rgt pc x y) = y"
  by (cases d; simp add: mknode_def child_def set_child_def)+

lemma mknode_opp: "mknode (opp d) pc x y = mknode d pc y x"
  by (cases d) (simp_all add: mknode_def)

lemma mknode_colour [simp]:
  "aligned p \<Longrightarrow> hev_rbtree_node_color (mknode d (enc p c) x y) = enc 0 c"
  "aligned p \<Longrightarrow> hev_rbtree_node_is_red (mknode d (enc p c) x y) \<longleftrightarrow> c = Red"
  "aligned p \<Longrightarrow> hev_rbtree_node_is_black (mknode d (enc p c) x y) \<longleftrightarrow> c = Blk"
  "aligned p \<Longrightarrow> hev_rbtree_node_parent (mknode d (enc p c) x y) = p"
  "hev_rbtree_node_red_parent (mknode d pc x y) = pc"
  "aligned p \<Longrightarrow> pc_parent (enc p c) = p"
  "aligned p \<Longrightarrow> pc_is_black (enc p c) \<longleftrightarrow> c = Blk"
proof -
  assume p: "aligned p"
  show "hev_rbtree_node_color (mknode d (enc p c) x y) = enc 0 c"
    and "hev_rbtree_node_parent (mknode d (enc p c) x y) = p" "pc_parent (enc p c) = p"
    using p by (simp_all add: hev_rbtree_node_color_def hev_rbtree_node_parent_def pc_parent_def)
  then show "hev_rbtree_node_is_red (mknode d (enc p c) x y) \<longleftrightarrow> c = Red"
    "hev_rbtree_node_is_black (mknode d (enc p c) x y) \<longleftrightarrow> c = Blk"
    by (simp_all add: hev_rbtree_node_is_red_def hev_rbtree_node_is_black_def) (cases c; simp)
  have "enc p c AND HEV_RBTREE_BLACK = (enc p c AND 1) AND HEV_RBTREE_BLACK"
    by (simp only: HEV_RBTREE_BLACK_def and.assoc and.idem)
  then have "enc p c AND HEV_RBTREE_BLACK = 0 \<longleftrightarrow> c = Red"
    by (simp only: enc_colour [OF p] enc_black)
  then show "pc_is_black (enc p c) \<longleftrightarrow> c = Blk"
    unfolding pc_is_black_def by (cases c) simp_all
qed (simp add: hev_rbtree_node_red_parent_def)

text \<open>A red node's word is its parent's address.\<close>

lemma mknode_red [simp]:
  "aligned p \<Longrightarrow> hev_rbtree_node_is_red (mknode d p x y)"
  "aligned p \<Longrightarrow> \<not> hev_rbtree_node_is_black (mknode d p x y)"
  "aligned p \<Longrightarrow> hev_rbtree_node_parent (mknode d p x y) = p"
  "aligned p \<Longrightarrow> pc_parent p = p" "aligned p \<Longrightarrow> \<not> pc_is_black p"
  "aligned p \<Longrightarrow> hev_rbtree_node_color (mknode d p x y) = 0"
  using mknode_colour(1) [of p d Red x y] mknode_colour(2) [of p d Red x y] mknode_colour(3) [of p d Red x y]
    mknode_colour(4) [of p d Red x y] mknode_colour(6) [of p Red] mknode_colour(7) [of p Red]
  by simp_all

section \<open>Stores\<close>

text \<open>The store after a node is overwritten. Its addresses are not NULL.\<close>

definition sput :: "rb_store \<Rightarrow> ptr \<Rightarrow> HevRBTreeNode \<Rightarrow> rb_store" where
  "sput s a n = s\<lparr>rb_heap := (rb_heap s)(a \<mapsto> n)\<rparr>"

lemma sput_root [simp]: "rb_root (sput s a n) = rb_root s"
  by (simp add: sput_def)

lemma node_at_sput [simp]: "node_at (sput s a n) b = (if b = 0 then None else if b = a then Some n else node_at s b)"
  by (simp add: sput_def node_at_def deref_def)

lemma node_at_root [simp]: "node_at (s\<lparr>rb_root := q\<rparr>) b = node_at s b"
  by (simp add: node_at_def)

lemma node_at_0 [simp]: "node_at s 0 = None"
  by (simp add: node_at_def)

lemma upd_node_Some [simp]: "node_at s a = Some n \<Longrightarrow> upd_node s a f = Some (sput s a (f n))"
  by (simp add: upd_node_def sput_def)

text \<open>The tree below a node whose parent is \<open>p\<close>.\<close>

fun trep :: "rb_store \<Rightarrow> ptr \<Rightarrow> rbt \<Rightarrow> bool" where
  "trep s p E = True"
| "trep s p (N c a l r) \<longleftrightarrow>
     node_at s a = Some (mknode Lft (enc p c) (rootp l) (rootp r)) \<and> trep s a l \<and> trep s a r"

lemma trep_nd [simp]:
  "trep s p (nd d c a x y) \<longleftrightarrow>
     node_at s a = Some (mknode d (enc p c) (rootp x) (rootp y)) \<and> trep s a x \<and> trep s a y"
  by (cases d) (auto simp: nd_def mknode_def)

text \<open>The path upwards: for each step the side one comes from, the node and its other subtree.\<close>

type_synonym ctxt = "(side \<times> colour \<times> ptr \<times> rbt) list"

fun holep :: "ctxt \<Rightarrow> ptr" where
  "holep [] = 0"
| "holep ((d, c, a, u) # K) = a"

fun kcol :: "ctxt \<Rightarrow> colour" where
  "kcol [] = Blk"
| "kcol ((d, c, a, u) # K) = c"

fun fill :: "ctxt \<Rightarrow> rbt \<Rightarrow> rbt" where
  "fill [] t = t"
| "fill ((d, c, a, u) # K) t = fill K (nd d c a t u)"

fun lpre :: "ctxt \<Rightarrow> ptr list" where
  "lpre [] = []"
| "lpre ((d, c, a, u) # K) = lpre K @ (case d of Lft \<Rightarrow> [] | Rgt \<Rightarrow> inorder u @ [a])"

fun lpost :: "ctxt \<Rightarrow> ptr list" where
  "lpost [] = []"
| "lpost ((d, c, a, u) # K) = (case d of Lft \<Rightarrow> a # inorder u | Rgt \<Rightarrow> []) @ lpost K"

definition kset :: "ctxt \<Rightarrow> ptr set" where
  "kset K = set (lpre K) \<union> set (lpost K)"

lemma kset_simps [simp]:
  "kset [] = {}" "kset ((d, c, a, u) # K) = insert a (set (inorder u) \<union> kset K)"
  by (cases d; auto simp: kset_def)+

lemma inorder_fill [simp]: "inorder (fill K t) = lpre K @ inorder t @ lpost K"
  by (induction K t rule: fill.induct) (auto simp: nd_def split: side.split)

fun crep :: "rb_store \<Rightarrow> ptr \<Rightarrow> ctxt \<Rightarrow> bool" where
  "crep s p [] \<longleftrightarrow> rb_root s = p"
| "crep s p ((d, c, a, u) # K) \<longleftrightarrow>
     node_at s a = Some (mknode d (enc (holep K) c) p (rootp u)) \<and> trep s a u \<and> crep s a K"

text \<open>A store that represents a tree as a whole.\<close>

definition srep :: "rb_store \<Rightarrow> rbt \<Rightarrow> bool" where
  "srep s t \<longleftrightarrow> rb_root s = rootp t \<and> trep s 0 t"

lemma srep_fill: "srep s (fill K t) \<longleftrightarrow> crep s (rootp t) K \<and> trep s (holep K) t"
  by (induction K t rule: fill.induct) (auto simp: srep_def)

definition ptrs_ok :: "ptr list \<Rightarrow> bool" where
  "ptrs_ok xs \<longleftrightarrow> distinct xs \<and> (\<forall>a\<in>set xs. a \<noteq> 0 \<and> aligned a)"

section \<open>Updates elsewhere\<close>

lemma trep_cong: "(\<And>b. b \<in> set (inorder t) \<Longrightarrow> node_at s' b = node_at s b) \<Longrightarrow> trep s' p t = trep s p t"
  by (induction t arbitrary: p) auto

lemma trep_sput [simp]: "a \<notin> set (inorder t) \<Longrightarrow> 0 \<notin> set (inorder t) \<Longrightarrow> trep (sput s a n) p t = trep s p t"
  by (rule trep_cong) auto

lemma trep_root [simp]: "trep (s\<lparr>rb_root := q\<rparr>) p t = trep s p t"
  by (rule trep_cong) simp

lemma crep_cong:
  "(\<And>b. b \<in> kset K \<Longrightarrow> node_at s' b = node_at s b) \<Longrightarrow> rb_root s' = rb_root s \<Longrightarrow> crep s' p K = crep s p K"
proof (induction K arbitrary: p)
  case (Cons f K)
  obtain d c a u where f: "f = (d, c, a, u)" by (rule prod_cases4)
  have "node_at s' a = node_at s a" "trep s' a u = trep s a u"
    using Cons.prems(1) by (auto simp: f intro!: trep_cong)
  with Cons show ?case by (simp add: f)
qed simp

lemma crep_sput [simp]: "a \<notin> kset K \<Longrightarrow> 0 \<notin> kset K \<Longrightarrow> crep (sput s a n) p K = crep s p K"
  by (rule crep_cong) auto

text \<open>Pointing the end of a path to another node.\<close>

fun repoint :: "ctxt \<Rightarrow> ptr \<Rightarrow> rb_store \<Rightarrow> rb_store" where
  "repoint [] q s = s\<lparr>rb_root := q\<rparr>"
| "repoint ((d, c, a, u) # K) q s = sput s a (mknode d (enc (holep K) c) q (rootp u))"

lemma node_at_repoint [simp]: "b \<noteq> holep K \<Longrightarrow> node_at (repoint K q s) b = node_at s b"
  by (cases "(K, q, s)" rule: repoint.cases) auto

lemma node_at_repoint' [simp]: "b \<notin> kset K \<Longrightarrow> node_at (repoint K q s) b = node_at s b"
  by (cases "(K, q, s)" rule: repoint.cases) auto

lemma set_fill: "set (inorder (fill K t)) = kset K \<union> set (inorder t)"
  by (auto simp: kset_def)

lemma fill_append: "fill (K @ K') t = fill K' (fill K t)"
  by (induction K t rule: fill.induct) auto

lemma lpre_append: "lpre (K @ K') = lpre K' @ lpre K"
  by (induction K rule: lpre.induct) auto

lemma lpost_append: "lpost (K @ K') = lpost K @ lpost K'"
  by (induction K rule: lpost.induct) auto

lemma holep_append: "K \<noteq> [] \<Longrightarrow> holep (K @ K') = holep K"
  by (cases K rule: holep.cases) auto

lemma kset_append: "kset (K @ K') = kset K \<union> kset K'"
  by (auto simp: kset_def lpre_append lpost_append)

lemma holep_kset: "K \<noteq> [] \<Longrightarrow> holep K \<in> kset K"
  by (cases K rule: holep.cases) auto

lemma trep_repoint [simp]:
  "kset K \<inter> set (inorder t) = {} \<Longrightarrow> 0 \<notin> set (inorder t) \<Longrightarrow> trep (repoint K q s) p t = trep s p t"
  by (rule trep_cong) (cases K rule: holep.cases; auto)

lemma node_at_0_trep: "trep s p t \<Longrightarrow> 0 \<notin> set (inorder t)"
  by (induction t arbitrary: p) auto

lemma node_at_0_crep: "crep s p K \<Longrightarrow> 0 \<notin> kset K"
proof (induction K arbitrary: p)
  case (Cons f K)
  obtain d c a u where f: "f = (d, c, a, u)" by (rule prod_cases4)
  from Cons show ?case by (auto simp: f dest: node_at_0_trep)
qed simp

lemma crep_repoint:
  assumes "crep s p K" "distinct (lpre K @ lpost K)"
  shows "crep (repoint K q s) q K"
proof (cases K)
  case (Cons f K')
  obtain d c a u where f: "f = (d, c, a, u)" by (rule prod_cases4)
  have "a \<notin> set (inorder u)" "a \<notin> kset K'" "a \<noteq> 0"
    using assms by (auto simp: Cons f kset_def split: side.splits)
  moreover have "0 \<notin> set (inorder u)" "0 \<notin> kset K'"
    using assms(1) node_at_0_trep node_at_0_crep by (auto simp: Cons f)
  ultimately show ?thesis using assms(1) by (simp add: Cons f)
qed simp

text \<open>\<open>hev_rbtree_change_child\<close> at the end of a path.\<close>

lemma change_child_Some:
  assumes "crep s old K" "rootp (case K of [] \<Rightarrow> E | (d, c, a, u) # _ \<Rightarrow> u) \<noteq> old" "0 \<notin> kset K"
  shows "hev_rbtree_change_child s old q (holep K) = Some (repoint K q s)"
proof (cases K)
  case (Cons f K')
  obtain d c a u where f: "f = (d, c, a, u)" by (rule prod_cases4)
  show ?thesis using assms
    by (cases d) (auto simp: Cons f hev_rbtree_change_child_def mknode_def set_child_def)
qed (use assms in \<open>simp add: hev_rbtree_change_child_def\<close>)

text \<open>Giving a subtree another parent, and its root another colour.\<close>

fun reroot :: "rbt \<Rightarrow> ptr \<Rightarrow> colour \<Rightarrow> rb_store \<Rightarrow> rb_store" where
  "reroot E q c s = s"
| "reroot (N c' a l r) q c s = sput s a (mknode Lft (enc q c) (rootp l) (rootp r))"

fun paint :: "colour \<Rightarrow> rbt \<Rightarrow> rbt" where
  "paint c E = E"
| "paint c (N c' a l r) = N c a l r"

lemma paint_simps [simp]:
  "rootp (paint c t) = rootp t" "inorder (paint c t) = inorder t" "paint c (nd d c' a x y) = nd d c a x y"
  by (cases t; simp)+ (simp add: nd_def split: side.split)

lemma paint_rcol [simp]: "paint (rcol t) t = t"
  by (cases t) auto

lemma node_at_reroot [simp]: "b \<notin> set (inorder t) \<Longrightarrow> node_at (reroot t q c s) b = node_at s b"
  by (cases t) auto

lemma rb_root_reroot [simp]: "rb_root (reroot t q c s) = rb_root s"
  by (cases t) auto

lemma trep_reroot_other [simp]:
  "set (inorder t) \<inter> set (inorder u) = {} \<Longrightarrow> trep (reroot t q c s) p u = trep s p u"
  by (rule trep_cong) (auto intro!: node_at_reroot)

lemma trep_reroot_other' [simp]:
  "set (inorder u) \<inter> set (inorder t) = {} \<Longrightarrow> trep (reroot t q c s) p u = trep s p u"
  by (simp add: inf_commute)

lemma crep_reroot [simp]: "set (inorder t) \<inter> kset K = {} \<Longrightarrow> crep (reroot t q c s) p K = crep s p K"
  by (rule crep_cong) (auto intro!: node_at_reroot)

lemma trep_reroot:
  assumes "trep s p t" "distinct (inorder t)"
  shows "trep (reroot t q c s) q (paint c t)"
proof (cases t)
  case (N c' a l r)
  have "0 \<notin> set (inorder t)" using assms(1) by (rule node_at_0_trep)
  then show ?thesis using assms by (auto simp: N)
qed simp

lemma set_parent_color_if_Some:
  assumes "trep s p t"
  shows "set_parent_color_if s (rootp t) q HEV_RBTREE_BLACK = Some (reroot t q Blk s)"
proof (cases t)
  case (N c a l r)
  have "a \<noteq> 0" using node_at_0_trep [OF assms] by (auto simp: N)
  then show ?thesis
    using assms by (simp add: N set_parent_color_if_def hev_rbtree_node_set_parent_color_def)
qed (simp add: set_parent_color_if_def)

lemma set_parent_Some:
  assumes "trep s p t" "aligned p" "t \<noteq> E"
  shows "hev_rbtree_node_set_parent s (rootp t) q = Some (reroot t q (rcol t) s)"
  using assms by (cases t) (simp_all add: hev_rbtree_node_set_parent_def)

lemma set_parent_color_Some:
  assumes "node_at s a = Some (mknode d pc x y)"
  shows "hev_rbtree_node_set_parent_color s a q HEV_RBTREE_BLACK = Some (sput s a (mknode d (enc q Blk) x y))"
    "hev_rbtree_node_set_parent_color s a q HEV_RBTREE_RED = Some (sput s a (mknode d (enc q Red) x y))"
  using assms by (simp_all add: hev_rbtree_node_set_parent_color_def)

text \<open>\<open>hev_rbtree_rotate_set_parents\<close>, where the node \<open>old\<close> at the end of a path gives its
  place and colour to \<open>new\<close>.\<close>

lemma rotate_set_parents_Some:
  assumes "node_at s old = Some (mknode d (enc (holep K) c) x y)" "node_at s a = Some (mknode d' pc v w)"
    and "crep s old K" "rootp (case K of [] \<Rightarrow> E | (d, c, a, u) # _ \<Rightarrow> u) \<noteq> old" "0 \<notin> kset K"
    and "aligned (holep K)" "old \<notin> kset K" "a \<notin> kset K" "old \<noteq> a" "old \<noteq> 0" "a \<noteq> 0"
  shows "hev_rbtree_rotate_set_parents s old a HEV_RBTREE_RED =
      Some (repoint K a (sput (sput s a (mknode d' (enc (holep K) c) v w)) old (mknode d (enc a Red) x y)))"
    and "hev_rbtree_rotate_set_parents s old a HEV_RBTREE_BLACK =
      Some (repoint K a (sput (sput s a (mknode d' (enc (holep K) c) v w)) old (mknode d (enc a Blk) x y)))"
  using assms
  by (simp_all add: hev_rbtree_rotate_set_parents_def hev_rbtree_node_set_parent_color_def change_child_Some)

end
