(* ===== verification/RBTreeInsert.thy ===== *)
theory RBTreeInsert
  imports RBTreeRep
begin

text \<open>
  Insertion into the red-black tree: the balance invariant of trees and of paths, and the proof
  that linking a node and repairing the colours yields a balanced tree with the node at its place.
\<close>

section \<open>Balance\<close>

fun bh :: "rbt \<Rightarrow> nat" where
  "bh E = 0"
| "bh (N c a l r) = bh l + of_bool (c = Blk)"

fun balanced :: "rbt \<Rightarrow> bool" where
  "balanced E = True"
| "balanced (N c a l r) \<longleftrightarrow>
     balanced l \<and> balanced r \<and> bh l = bh r \<and> (c = Red \<longrightarrow> rcol l = Blk \<and> rcol r = Blk)"

text \<open>Red nodes have black children, all paths have as many black nodes, and the root is black.\<close>

definition rb_ok :: "rbt \<Rightarrow> bool" where
  "rb_ok t \<longleftrightarrow> balanced t \<and> rcol t = Blk"

text \<open>A path around a subtree of black height \<open>n\<close>.\<close>

fun path_ok :: "ctxt \<Rightarrow> nat \<Rightarrow> bool" where
  "path_ok [] n = True"
| "path_ok ((d, c, a, u) # K) n \<longleftrightarrow>
     balanced u \<and> bh u = n \<and> (c = Red \<longrightarrow> rcol u = Blk \<and> kcol K = Blk \<and> K \<noteq> []) \<and>
     path_ok K (n + of_bool (c = Blk))"

lemma balanced_nd [simp]:
  "balanced (nd d c a x y) \<longleftrightarrow>
     balanced x \<and> balanced y \<and> bh x = bh y \<and> (c = Red \<longrightarrow> rcol x = Blk \<and> rcol y = Blk)"
  by (cases d) (auto simp: nd_def)

lemma bh_nd: "bh x = bh y \<Longrightarrow> bh (nd d c a x y) = bh x + of_bool (c = Blk)"
  by (cases d) (simp_all add: nd_def)

lemma rb_ok_fill:
  "rb_ok (fill K t) \<longleftrightarrow> balanced t \<and> path_ok K (bh t) \<and> (rcol t = Red \<longrightarrow> kcol K = Blk \<and> K \<noteq> [])"
proof (induction K t rule: fill.induct)
  case (1 t)
  then show ?case by (cases "rcol t") (auto simp: rb_ok_def)
next
  case (2 d c a u K t)
  show ?case
    unfolding fill.simps 2
    by (cases c; cases "rcol t") (auto simp: bh_nd)
qed

lemma rcol_paint: "rcol (paint Blk t) = Blk"
  by (cases t) auto

lemma balanced_paint: "balanced t \<Longrightarrow> balanced (paint Blk t)"
  by (cases t) auto

lemma bh_paint: "rcol t = Red \<Longrightarrow> bh (paint Blk t) = Suc (bh t)"
  by (cases t) auto

section \<open>Rotations\<close>

text \<open>Where the addresses of a tree in a context are distinct and proper.\<close>

definition zok :: "ctxt \<Rightarrow> rbt \<Rightarrow> bool" where
  "zok K t \<longleftrightarrow> ptrs_ok (inorder (fill K t))"

lemma zok_nd [simp]:
  "zok K (nd d c a x y) \<longleftrightarrow> a \<noteq> 0 \<and> aligned a \<and> a \<notin> set (inorder x) \<and> a \<notin> set (inorder y) \<and> a \<notin> kset K \<and>
     set (inorder x) \<inter> set (inorder y) = {} \<and> zok K x \<and> zok K y"
  by (cases d) (auto simp: zok_def ptrs_ok_def nd_def kset_def)

lemma zok_N [simp]:
  "zok K (N c a l r) \<longleftrightarrow> a \<noteq> 0 \<and> aligned a \<and> a \<notin> set (inorder l) \<and> a \<notin> set (inorder r) \<and> a \<notin> kset K \<and>
     set (inorder l) \<inter> set (inorder r) = {} \<and> zok K l \<and> zok K r"
  using zok_nd [of K Lft c a l r] by (simp add: nd_def)

lemma zok_paint [simp]: "zok K (paint c t) = zok K t"
  by (simp add: zok_def)

lemma zok_frame: "zok ((d, c, a, u) # K) t \<longleftrightarrow> zok K (nd d c a t u)"
  by (simp add: zok_def)

lemma zokD:
  assumes "zok K t"
  shows "set (inorder t) \<inter> kset K = {}" "kset K \<inter> set (inorder t) = {}" "0 \<notin> set (inorder t)" "0 \<notin> kset K"
    "distinct (inorder t)" "distinct (lpre K @ lpost K)" "aligned (holep K)"
    "holep K \<notin> set (inorder t)"
proof -
  show "set (inorder t) \<inter> kset K = {}" "kset K \<inter> set (inorder t) = {}" "0 \<notin> set (inorder t)" "0 \<notin> kset K"
    "distinct (inorder t)" "distinct (lpre K @ lpost K)"
    using assms by (auto simp: zok_def ptrs_ok_def kset_def)
  then show "aligned (holep K)" "holep K \<notin> set (inorder t)"
    using holep_kset [of K] assms by (cases "K = []"; force simp: zok_def ptrs_ok_def kset_def)+
qed

lemma zok_path_sibling:
  assumes "zok K t" "t \<noteq> E"
  shows "rootp (case K of [] \<Rightarrow> E | (d, c, a, u) # _ \<Rightarrow> u) \<noteq> rootp t"
proof (cases K)
  case Nil
  then show ?thesis using assms zokD(3) [OF assms(1)] by (cases t) auto
next
  case (Cons f K')
  obtain d c a u where f: "f = (d, c, a, u)" by (rule prod_cases4)
  show ?thesis using assms unfolding Cons f zok_frame by (cases t; cases u) auto
qed

lemma side_detect:
  "p \<noteq> q \<Longrightarrow> (if p \<noteq> rb_right (mknode d pc p q) then Lft else Rgt) = d"
  by (cases d) (simp_all add: mknode_def)

text \<open>Case 3 of the insertion: the inserted side is the parent's side.\<close>

lemma insert_case3:
  assumes tree: "crep s n ((d, Red, p, u) # (d, Blk, g, v) # K)" "trep s p t" "n = rootp t"
    and z: "zok ((d, Red, p, u) # (d, Blk, g, v) # K) t" and t: "t \<noteq> E" and u: "rcol u = Blk"
  shows "\<exists>s'. insert_rotate d s n p g = Some s' \<and>
    srep s' (fill K (nd d Blk p t (nd d Red g u v))) \<and>
    (\<forall>b. b \<notin> kset ((d, Red, p, u) # (d, Blk, g, v) # K) \<union> set (inorder t) \<longrightarrow> node_at s' b = node_at s b)"
proof -
  from z have zs: "zok K t" "zok K u" "zok K v" by (simp_all add: zok_frame)
  note D = zokD [OF zs(1)] zokD [OF zs(2)] zokD [OF zs(3)]
  have n: "n \<noteq> rootp u" using tree(3) z t by (cases t; cases u) (auto simp: zok_frame)
  have neq: "p \<noteq> g" "g \<noteq> p" using z by (auto simp: zok_frame)
  have g: "rootp (case K of [] \<Rightarrow> E | (d, c, a, u) # _ \<Rightarrow> u) \<noteq> g"
    using zok_path_sibling [of K "nd d Blk g (nd d Red p t u) v"] z unfolding zok_frame by simp
  let ?s2 = "sput (sput s g (mknode d (enc (holep K) Blk) (rootp u) (rootp v))) p (mknode d (enc g Red) n g)"
  let ?s3 = "reroot u g Blk ?s2"
  have tu: "trep ?s2 p u" using tree z D by (simp add: zok_frame)
  have "node_at ?s3 g = Some (mknode d (enc (holep K) Blk) (rootp u) (rootp v))"
    "node_at ?s3 p = Some (mknode d (enc g Red) n g)" "crep ?s3 g K"
    using tree z D neq by (simp_all add: zok_frame)
  from rotate_set_parents_Some(1) [OF this g] z D neq
  have "insert_rotate d s n p g = Some (repoint K p (sput (sput ?s3 p (mknode d (enc (holep K) Blk) n g))
      g (mknode d (enc p Red) (rootp u) (rootp v))))" (is "_ = Some ?s4")
    using tree n set_parent_color_if_Some [OF tu, of g]
    by (simp add: insert_rotate_def zok_frame Let_def)
  moreover have "crep ?s4 p K"
    using tree z D by (intro crep_repoint [of _ g]) (simp_all add: zok_frame)
  moreover have "trep ?s3 g u" using trep_reroot [OF tu, of g Blk] paint_rcol [of u] u D by simp
  then have "trep ?s4 (holep K) (nd d Blk p t (nd d Red g u v))"
    using tree z D neq by (auto simp: zok_frame)
  moreover have "node_at ?s4 b = node_at s b"
    if "b \<notin> kset ((d, Red, p, u) # (d, Blk, g, v) # K) \<union> set (inorder t)" for b
    using that by auto
  ultimately show ?thesis by (auto simp: srep_fill)
qed

text \<open>Cases 2 and 3: the inserted node is on the other side, and rises above both.\<close>

lemma insert_case2:
  assumes tree: "crep s n ((opp d, Red, p, u) # (d, Blk, g, v) # K)" "trep s p (nd d Red n x y)"
    and z: "zok ((opp d, Red, p, u) # (d, Blk, g, v) # K) (nd d Red n x y)" and col: "rcol x = Blk" "rcol y = Blk"
  shows "\<exists>s'. insert_rotate d s n p g = Some s' \<and>
    srep s' (fill K (nd d Blk n (nd d Red p u x) (nd d Red g y v))) \<and>
    (\<forall>b. b \<notin> kset ((opp d, Red, p, u) # (d, Blk, g, v) # K) \<union> set (inorder (nd d Red n x y)) \<longrightarrow> node_at s' b = node_at s b)"
proof -
  from z have zs: "zok K u" "zok K v" "zok K x" "zok K y" by (simp_all add: zok_frame)
  note D = zokD [OF zs(1)] zokD [OF zs(2)] zokD [OF zs(3)] zokD [OF zs(4)]
  have neq: "p \<noteq> g" "g \<noteq> p" "n \<noteq> p" "p \<noteq> n" "n \<noteq> g" "g \<noteq> n" using z by (auto simp: zok_frame)
  have g: "rootp (case K of [] \<Rightarrow> E | (d, c, a, u) # _ \<Rightarrow> u) \<noteq> g"
    using zok_path_sibling [of K "nd d Blk g (nd (opp d) Red p (nd d Red n x y) u) v"] z unfolding zok_frame by simp
  have pn: "node_at s p = Some (mknode d g (rootp u) n)" "node_at s n = Some (mknode d p (rootp x) (rootp y))"
    "node_at s g = Some (mknode d (enc (holep K) Blk) p (rootp v))" "trep s n x" "trep s n y" "trep s p u" "trep s g v"
    "crep s g K"
    using tree by (simp_all add: mknode_opp)
  let ?s2 = "sput (sput s p (mknode d g (rootp u) (rootp x))) n (mknode d p p (rootp y))"
  let ?s6 = "sput (sput (sput (reroot x p Blk ?s2) p (mknode d n (rootp u) (rootp x)))
      g (mknode d (enc (holep K) Blk) (rootp y) (rootp v))) n (mknode d p p g)"
  let ?s7 = "reroot y g Blk ?s6"
  have tx: "trep ?s2 n x" using pn z D by (simp add: zok_frame)
  have ty: "trep ?s6 n y" using pn z D by (simp add: zok_frame)
  have "node_at ?s7 g = Some (mknode d (enc (holep K) Blk) (rootp y) (rootp v))"
    "node_at ?s7 n = Some (mknode d p p g)" "crep ?s7 g K"
    using pn z D neq by (simp_all add: zok_frame)
  from rotate_set_parents_Some(1) [OF this g] z D neq
  have "insert_rotate d s n p g = Some (repoint K n (sput (sput ?s7 n (mknode d (enc (holep K) Blk) p g))
      g (mknode d (enc n Red) (rootp y) (rootp v))))" (is "_ = Some ?s8")
    using pn set_parent_color_if_Some [OF tx, of p] set_parent_color_if_Some [OF ty, of g] z
    by (simp add: insert_rotate_def zok_frame Let_def hev_rbtree_node_set_parent_color_def)
  moreover have "crep ?s8 n K"
    using pn z D by (intro crep_repoint [of _ g]) (simp_all add: zok_frame)
  moreover have "trep ?s7 g y" "trep (reroot x p Blk ?s2) p x"
    using trep_reroot [OF ty, of g Blk] trep_reroot [OF tx, of p Blk] paint_rcol [of x] paint_rcol [of y] col D
    by simp_all
  then have "trep ?s8 (holep K) (nd d Blk n (nd d Red p u x) (nd d Red g y v))"
    using pn z D neq by (simp add: zok_frame)
  moreover have "node_at ?s8 b = node_at s b"
    if "b \<notin> kset ((opp d, Red, p, u) # (d, Blk, g, v) # K) \<union> set (inorder (nd d Red n x y))" for b
    using that by auto
  ultimately show ?thesis by (auto simp: srep_fill)
qed

section \<open>The loop\<close>

lemma insert_color_loop_done:
  assumes "node_at s p = Some (mknode d (enc q Blk) x y)" "aligned q" "p \<noteq> 0"
  shows "insert_color_loop s n p = Some s"
  using assms by (subst insert_color_loop.simps) simp

lemma insert_color_loop_red:
  assumes p: "node_at s p = Some (mknode e (enc g Red) x y)" "aligned g" "p \<noteq> 0"
    and g: "node_at s g = Some (mknode d (enc q Blk) p (rootp v))" "p \<noteq> rootp v" and v: "trep s g v" "0 \<notin> set (inorder v)"
  shows "insert_color_loop s n p =
    (if rcol v = Red then do {
       s \<leftarrow> hev_rbtree_node_set_parent_color s (rootp v) g HEV_RBTREE_BLACK;
       s \<leftarrow> hev_rbtree_node_set_parent_color s p g HEV_RBTREE_BLACK;
       g' \<leftarrow> node_at s g;
       s \<leftarrow> hev_rbtree_node_set_parent_color s g (hev_rbtree_node_parent g') HEV_RBTREE_RED;
       insert_color_loop s g (hev_rbtree_node_parent g')
     } else insert_rotate d s n p g)"
  using p g v
  by (subst insert_color_loop.simps; cases d; cases v) (simp_all add: Let_def)

text \<open>A red uncle: the two parents become black and the grandparent red.\<close>

lemma insert_recolour:
  assumes tree: "crep s n ((e, Red, p, u) # (d, Blk, g, v) # K)" "trep s p t" "n = rootp t"
    and z: "zok ((e, Red, p, u) # (d, Blk, g, v) # K) t" and v: "rcol v = Red"
  shows "\<exists>s'. insert_color_loop s n p = insert_color_loop s' g (holep K) \<and> crep s' g K \<and>
    trep s' (holep K) (nd d Red g (nd e Blk p t u) (paint Blk v)) \<and>
    (\<forall>b. b \<notin> insert p (insert g (set (inorder v))) \<longrightarrow> node_at s' b = node_at s b)"
proof -
  from z have zs: "zok K t" "zok K u" "zok K v" by (simp_all add: zok_frame)
  note D = zokD [OF zs(1)] zokD [OF zs(2)] zokD [OF zs(3)]
  have neq: "p \<noteq> g" "g \<noteq> p" using z by (auto simp: zok_frame)
  obtain a l r where va: "v = N Red a l r" using v by (cases v) auto
  let ?s1 = "reroot v g Blk s"
  let ?s3 = "sput (sput ?s1 p (mknode e (enc g Blk) n (rootp u))) g (mknode d (enc (holep K) Red) p (rootp v))"
  have s1: "hev_rbtree_node_set_parent_color s (rootp v) g HEV_RBTREE_BLACK = Some ?s1"
    using tree by (simp add: va hev_rbtree_node_set_parent_color_def)
  have "p \<noteq> rootp v" using z by (auto simp: zok_frame va)
  with insert_color_loop_red [of s p e g n "rootp u" d "holep K" v n] tree z D v
  have "insert_color_loop s n p = insert_color_loop ?s3 g (holep K)"
    using s1 neq by (simp add: zok_frame hev_rbtree_node_set_parent_color_def)
  moreover have "crep ?s3 g K" using tree z D by (simp add: zok_frame)
  moreover have "trep ?s3 (holep K) (nd d Red g (nd e Blk p t u) (paint Blk v))"
    using tree z D neq trep_reroot [of s g v g Blk] by (simp add: zok_frame)
  moreover have "\<forall>b. b \<notin> insert p (insert g (set (inorder v))) \<longrightarrow> node_at ?s3 b = node_at s b" by auto
  ultimately show ?thesis by blast
qed

text \<open>A black uncle: one or two rotations end the loop.\<close>

lemma insert_rotate_balanced:
  assumes tree: "crep s n ((e, Red, p, u) # (d, Blk, g, v) # K)" "trep s p t" "n = rootp t" "rcol t = Red"
    and z: "zok ((e, Red, p, u) # (d, Blk, g, v) # K) t"
    and bal: "balanced t" "path_ok ((e, Red, p, u) # (d, Blk, g, v) # K) (bh t)" "rcol v = Blk"
  shows "\<exists>s' T. insert_rotate d s n p g = Some s' \<and> srep s' T \<and> rb_ok T \<and>
    inorder T = inorder (fill ((e, Red, p, u) # (d, Blk, g, v) # K) t) \<and>
    (\<forall>b. b \<notin> kset ((e, Red, p, u) # (d, Blk, g, v) # K) \<union> set (inorder t) \<longrightarrow> node_at s' b = node_at s b)"
proof (cases "e = d")
  case True
  let ?T = "fill K (nd d Blk p t (nd d Red g u v))"
  have "rb_ok ?T" using bal by (simp add: rb_ok_fill bh_nd)
  moreover have "inorder ?T = inorder (fill ((e, Red, p, u) # (d, Blk, g, v) # K) t)"
    by (simp add: True nd_def split: side.split)
  moreover have "t \<noteq> E" "rcol u = Blk" using tree(4) bal(2) by auto
  ultimately show ?thesis using insert_case3 [of s n d p u g v K t] tree(1-3) z True by blast
next
  case False
  then have e: "e = opp d" by (cases e; cases d) auto
  obtain a x y where t: "t = nd d Red a x y"
    using tree(4) by (cases t rule: nd_cases [where d = d]) auto
  let ?T = "fill K (nd d Blk a (nd d Red p u x) (nd d Red g y v))"
  have "rb_ok ?T" using bal by (simp add: rb_ok_fill bh_nd t)
  moreover have "inorder ?T = inorder (fill ((e, Red, p, u) # (d, Blk, g, v) # K) t)"
    by (simp add: e t nd_def split: side.split)
  moreover have c: "crep s a ((opp d, Red, p, u) # (d, Blk, g, v) # K)" using tree(1,3) by (simp add: t e)
  moreover from insert_case2 [OF c tree(2) [unfolded t] z [unfolded t e]] bal(1)
  obtain s' where "insert_rotate d s a p g = Some s'" "srep s' ?T"
    "\<forall>b. b \<notin> kset ((opp d, Red, p, u) # (d, Blk, g, v) # K) \<union> set (inorder (nd d Red a x y)) \<longrightarrow> node_at s' b = node_at s b"
    by (auto simp: t)
  ultimately show ?thesis
    using tree(3) unfolding t e by (intro exI [of _ s'] exI [of _ ?T]) simp
qed

lemma insert_color_loop_balanced:
  assumes "crep s n K" "trep s (holep K) t" "n = rootp t" "rcol t = Red" "zok K t" "balanced t" "path_ok K (bh t)"
  shows "\<exists>s' T. insert_color_loop s n (holep K) = Some s' \<and> srep s' T \<and> rb_ok T \<and>
    inorder T = inorder (fill K t) \<and> (\<forall>b. b \<notin> kset K \<union> set (inorder t) \<longrightarrow> node_at s' b = node_at s b)"
  using assms
proof (induction "length K" arbitrary: K s t n rule: less_induct)
  case less
  obtain a x y where t: "t = nd Lft Red a x y"
    using less.prems(4) by (cases t rule: nd_cases [where d = Lft]) auto
  show ?case
  proof (cases K)
    case Nil
    let ?s = "sput s a (mknode Lft (enc 0 Blk) (rootp x) (rootp y))"
    have "insert_color_loop s n 0 = Some ?s"
      using less.prems by (subst insert_color_loop.simps) (simp add: Nil t hev_rbtree_node_set_parent_color_def)
    moreover have "srep ?s (nd Lft Blk a x y)"
      using less.prems zokD(3) [OF less.prems(5)] by (auto simp: Nil t srep_def)
    moreover have "rb_ok (nd Lft Blk a x y)" using less.prems(6) by (simp add: t rb_ok_def)
    ultimately show ?thesis
      by (intro exI [of _ ?s] exI [of _ "nd Lft Blk a x y"]) (auto simp: Nil t nd_def)
  next
    case (Cons f K1)
    obtain e c p u where f: "f = (e, c, p, u)" by (rule prod_cases4)
    have hp: "p \<noteq> 0" "aligned (holep K1)"
      using less.prems(5) zokD(7) [of K1 "nd e c p t u"] unfolding Cons f zok_frame by simp_all
    show ?thesis
    proof (cases c)
      case Blk
      have "insert_color_loop s n p = Some s"
        using less.prems(1) hp by (intro insert_color_loop_done) (auto simp: Cons f Blk)
      moreover have "srep s (fill K t)" using less.prems(1-3) by (simp add: srep_fill)
      moreover have "rb_ok (fill K t)" using less.prems(4,6,7) by (simp add: rb_ok_fill Cons f Blk bh_nd)
      ultimately show ?thesis by (auto simp: Cons f)
    next
      case Red
      then obtain d g v K2 where "K1 = (d, Blk, g, v) # K2"
        using less.prems(7) by (cases K1; cases "hd K1") (auto simp: Cons f)
      then have K: "K = (e, Red, p, u) # (d, Blk, g, v) # K2" by (simp add: Cons f Red)
      show ?thesis
      proof (cases "rcol v")
        case Red
        let ?T = "nd d Red g (nd e Blk p t u) (paint Blk v)"
        from insert_recolour [OF less.prems(1) [unfolded K] _ less.prems(3) less.prems(5) [unfolded K] Red]
          less.prems(2) obtain s' where s': "insert_color_loop s n p = insert_color_loop s' g (holep K2)"
            "crep s' g K2" "trep s' (holep K2) ?T"
            "\<forall>b. b \<notin> insert p (insert g (set (inorder v))) \<longrightarrow> node_at s' b = node_at s b"
          by (auto simp: K)
        have "zok K2 ?T" using less.prems(5) by (auto simp: K zok_frame)
        moreover have "balanced ?T" "path_ok K2 (bh ?T)"
          using less.prems(4,6,7) Red by (auto simp: K bh_nd bh_paint balanced_paint rcol_paint)
        moreover have "length K2 < length K" by (simp add: K)
        ultimately obtain s'' T where "insert_color_loop s' g (holep K2) = Some s''" "srep s'' T" "rb_ok T"
            "inorder T = inorder (fill K2 ?T)" "\<forall>b. b \<notin> kset K2 \<union> set (inorder ?T) \<longrightarrow> node_at s'' b = node_at s' b"
          using less.hyps [of K2 s' g ?T] s'(2,3) by auto
        moreover have "inorder (fill K2 ?T) = inorder (fill K t)"
          by (simp add: K nd_def split: side.split)
        ultimately show ?thesis using s'(1,4) by (intro exI [of _ s''] exI [of _ T]) (auto simp: K)
      next
        case Blk
        have "p \<noteq> rootp v" "p \<noteq> 0" "aligned g" "0 \<notin> set (inorder v)"
          using less.prems(5) zokD(3) [of K2 v] by (cases v; auto simp: K zok_frame)+
        then have "insert_color_loop s n p = insert_rotate d s n p g"
          using insert_color_loop_red [of s p e g n "rootp u" d "holep K2" v n] less.prems(1) Blk
          by (simp add: K)
        with insert_rotate_balanced [OF less.prems(1) [unfolded K] _ less.prems(3,4) less.prems(5) [unfolded K]
            less.prems(6) less.prems(7) [unfolded K] Blk] less.prems(2)
        show ?thesis by (simp add: K)
      qed
    qed
  qed
qed

section \<open>Searching\<close>

text \<open>The side on which the hole of a path is.\<close>

fun hole_side :: "side \<Rightarrow> ctxt \<Rightarrow> side" where
  "hole_side d [] = d"
| "hole_side d ((d', c, a, u) # K) = d'"

lemma hole_side_append: "K \<noteq> [] \<Longrightarrow> hole_side d (K @ K') = hole_side e K"
  by (cases "(d, K)" rule: hole_side.cases) auto

text \<open>A comparison fits a list when it is defined on it, first positive, then zero, then
  negative.\<close>

definition cmp_sorted :: "(ptr \<Rightarrow> int option) \<Rightarrow> ptr list \<Rightarrow> bool" where
  "cmp_sorted cmp xs \<longleftrightarrow> (\<forall>a\<in>set xs. cmp a \<noteq> None) \<and>
     sorted_wrt (\<lambda>a b. sgn (the (cmp b)) \<le> sgn (the (cmp a))) xs"

lemma cmp_sorted_append [simp]:
  "cmp_sorted cmp (xs @ a # ys) \<longleftrightarrow> cmp_sorted cmp xs \<and> cmp_sorted cmp ys \<and> cmp a \<noteq> None \<and>
     (\<forall>x\<in>set xs. sgn (the (cmp a)) \<le> sgn (the (cmp x))) \<and>
     (\<forall>y\<in>set ys. sgn (the (cmp y)) \<le> sgn (the (cmp a))) \<and>
     (\<forall>x\<in>set xs. \<forall>y\<in>set ys. sgn (the (cmp y)) \<le> sgn (the (cmp x)))"
  by (auto simp: cmp_sorted_def sorted_wrt_append)

lemma rb_search_Some:
  assumes "trep s p t" "cmp_sorted cmp (inorder t)"
  shows "(\<exists>a\<in>set (inorder t). cmp a = Some 0 \<and> rb_search s cmp (rootp t) q d = Some (Inl a)) \<or>
    (\<exists>M. t = fill M E \<and>
       rb_search s cmp (rootp t) q d = Some (Inr (if M = [] then q else holep M, hole_side d M)) \<and>
       (\<forall>a\<in>set (lpre M). 0 < the (cmp a)) \<and> (\<forall>a\<in>set (lpost M). the (cmp a) < 0))"
  using assms
proof (induction t arbitrary: p q d)
  case E
  then show ?case by (intro disjI2 exI [of _ "[]"]) (subst rb_search.simps, simp)
next
  case (N c a l r)
  obtain k where k: "cmp a = Some k" using N.prems(2) by auto
  have a: "node_at s a = Some (mknode Lft (enc p c) (rootp l) (rootp r))" using N.prems(1) by simp
  then have "a \<noteq> 0" by auto
  have st: "rb_search s cmp (rootp (N c a l r)) q d =
      (if k < 0 then rb_search s cmp (rootp l) a Lft else if k > 0 then rb_search s cmp (rootp r) a Rgt
       else Some (Inl a))"
    using a k \<open>a \<noteq> 0\<close> by (subst rb_search.simps) simp
  consider "k = 0" | "k < 0" | "0 < k" by linarith
  then show ?case
  proof cases
    case 1
    then show ?thesis using st k by auto
  next
    case 2
    then have r: "\<forall>b\<in>set (inorder r). the (cmp b) < 0"
      using N.prems(2) k by (auto simp: sgn_if split: if_splits)
    have "trep s a l" "cmp_sorted cmp (inorder l)" using N.prems by simp_all
    from N.IH(1) [OF this, of a Lft] show ?thesis
    proof (elim disjE)
      assume "\<exists>M. l = fill M E \<and>
         rb_search s cmp (rootp l) a Lft = Some (Inr (if M = [] then a else holep M, hole_side Lft M)) \<and>
         (\<forall>a\<in>set (lpre M). 0 < the (cmp a)) \<and> (\<forall>a\<in>set (lpost M). the (cmp a) < 0)"
      then obtain M where M: "l = fill M E"
        "rb_search s cmp (rootp l) a Lft = Some (Inr (if M = [] then a else holep M, hole_side Lft M))"
        "\<forall>a\<in>set (lpre M). 0 < the (cmp a)" "\<forall>a\<in>set (lpost M). the (cmp a) < 0" by blast
      show ?thesis
        by (rule disjI2, rule exI [of _ "M @ [(Lft, c, a, r)]"])
          (use st 2 k r M in \<open>auto simp: fill_append nd_def lpre_append lpost_append holep_append
            hole_side_append [where e = Lft] split: if_splits\<close>)
    qed (use st 2 in auto)
  next
    case 3
    then have l: "\<forall>b\<in>set (inorder l). 0 < the (cmp b)"
      using N.prems(2) k by (auto simp: sgn_if split: if_splits)
    have "trep s a r" "cmp_sorted cmp (inorder r)" using N.prems by simp_all
    from N.IH(2) [OF this, of a Rgt] show ?thesis
    proof (elim disjE)
      assume "\<exists>M. r = fill M E \<and>
         rb_search s cmp (rootp r) a Rgt = Some (Inr (if M = [] then a else holep M, hole_side Rgt M)) \<and>
         (\<forall>a\<in>set (lpre M). 0 < the (cmp a)) \<and> (\<forall>a\<in>set (lpost M). the (cmp a) < 0)"
      then obtain M where M: "r = fill M E"
        "rb_search s cmp (rootp r) a Rgt = Some (Inr (if M = [] then a else holep M, hole_side Rgt M))"
        "\<forall>a\<in>set (lpre M). 0 < the (cmp a)" "\<forall>a\<in>set (lpost M). the (cmp a) < 0" by blast
      show ?thesis
        by (rule disjI2, rule exI [of _ "M @ [(Rgt, c, a, l)]"])
          (use st 3 k l M in \<open>auto simp: fill_append nd_def lpre_append lpost_append holep_append
            hole_side_append [where e = Rgt] split: if_splits\<close>)
    qed (use st 3 in auto)
  qed
qed

section \<open>Linking and balancing\<close>

lemma rbtree_insert:
  assumes t: "srep s (fill M E)" "rb_ok (fill M E)" "ptrs_ok (a # lpre M @ lpost M)" and a: "node_at s a \<noteq> None"
  shows "\<exists>s1 s2 T. hev_rbtree_node_link s a (holep M) (hole_side d M) = Some s1 \<and>
    hev_rbtree_insert_color s1 a = Some s2 \<and> srep s2 T \<and> rb_ok T \<and> inorder T = lpre M @ a # lpost M \<and>
    (\<forall>b. b \<notin> insert a (kset M) \<longrightarrow> node_at s2 b = node_at s b)"
proof -
  have z: "zok M (N Red a E E)" using t(3) by (auto simp: zok_def ptrs_ok_def kset_def)
  note D = zokD [OF z]
  obtain n where n: "node_at s a = Some n" using a by auto
  let ?s0 = "sput s a (mknode Lft (holep M) 0 0)"
  let ?s1 = "repoint M a ?s0"
  have n': "n\<lparr>parent_color := q, rb_left := 0, rb_right := 0\<rparr> = mknode Lft q 0 0" for q
    by (simp add: mknode_def)
  have c: "crep s 0 M" using t(1) by (simp add: srep_fill)
  have "a \<noteq> holep M" using D(8) by simp
  have l: "hev_rbtree_node_link s a (holep M) (hole_side d M) = Some ?s1"
  proof (cases M)
    case (Cons f K)
    obtain d c a' u where f: "f = (d, c, a', u)" by (rule prod_cases4)
    show ?thesis using c n \<open>a \<noteq> holep M\<close> D(4)
      by (cases d) (simp_all add: Cons f hev_rbtree_node_link_def n')
  qed (simp add: hev_rbtree_node_link_def n n')
  have c1: "crep ?s1 a M" using c z D by (intro crep_repoint [of _ 0]) simp_all
  have t1: "trep ?s1 (holep M) (N Red a E E)" using D z \<open>a \<noteq> holep M\<close> by simp
  then have i: "hev_rbtree_insert_color ?s1 a = insert_color_loop ?s1 a (holep M)"
    by (simp add: hev_rbtree_insert_color_def)
  have "path_ok M 0" using t(2) by (simp add: rb_ok_fill)
  with insert_color_loop_balanced [OF c1 t1 _ _ z] obtain s' T where
    "insert_color_loop ?s1 a (holep M) = Some s'" "srep s' T" "rb_ok T" "inorder T = lpre M @ a # lpost M"
    "\<forall>b. b \<notin> insert a (kset M) \<longrightarrow> node_at s' b = node_at ?s1 b" by auto
  with l i show ?thesis by (intro exI [of _ ?s1] exI [of _ s'] exI [of _ T]) auto
qed

end
