(* ===== verification/RBTreeErase.thy ===== *)
theory RBTreeErase
  imports RBTreeInsert
begin

text \<open>
  Removal from the red-black tree: the loop that repairs black heights, the removal of a node
  with the three shapes its children can have, and the proof that the tree stays balanced and
  loses exactly that node.
\<close>

section \<open>Rotations\<close>

lemma zok_sibling_root:
  assumes "zok ((d, c, p, u) # K) t"
  shows "rootp (case K of [] \<Rightarrow> E | (d, c, a, u) # _ \<Rightarrow> u) \<noteq> p"
  using zok_path_sibling [of K "nd d c p t u"] assms unfolding zok_frame by simp

lemma if_set_parent:
  assumes "trep s q t" "aligned q"
  shows "(if rootp t \<noteq> 0 then hev_rbtree_node_set_parent s (rootp t) p else Some s) = Some (reroot t p (rcol t) s)"
  using set_parent_Some [OF assms, of p] node_at_0_trep [OF assms(1)] by (cases t) auto

lemma trep_reroot_same:
  assumes "trep s p t" "distinct (inorder t)"
  shows "trep (reroot t q (rcol t) s) q t"
  using trep_reroot [OF assms, of q "rcol t"] by simp

text \<open>Case 4, for a sibling \<open>a\<close> with inner subtree \<open>x\<close> and outer child \<open>yp\<close>: the sibling
  takes the parent's place and colour.\<close>

lemma erase_case4_Some:
  assumes p: "node_at s p = Some (mknode d (enc (holep K) c) n q0)"
    and a: "node_at s a = Some (mknode d pca (rootp x) yp)"
    and y: "node_at s yp = Some (mknode d pcy v w)" and x: "trep s a x" and K: "crep s p K"
    and z: "zok K x" "aligned a" "p \<notin> kset K" "a \<notin> kset K" "yp \<notin> kset K" "p \<notin> set (inorder x)" "a \<notin> set (inorder x)"
      "yp \<notin> set (inorder x)" "p \<noteq> a" "p \<noteq> yp" "a \<noteq> yp"
    and g: "rootp (case K of [] \<Rightarrow> E | (d, c, a, u) # _ \<Rightarrow> u) \<noteq> p"
  shows "erase_case4 d s p a yp = Some (repoint K a (sput (sput (reroot x p (rcol x) (sput (sput (sput s
      p (mknode d (enc (holep K) c) n (rootp x))) a (mknode d pca p yp)) yp (mknode d (enc a Blk) v w)))
      a (mknode d (enc (holep K) c) p yp)) p (mknode d (enc a Blk) n (rootp x))))"
proof -
  note D = zokD [OF z(1)]
  have nz: "p \<noteq> 0" "a \<noteq> 0" "yp \<noteq> 0" using p a y by auto
  let ?s3 = "sput (sput (sput s p (mknode d (enc (holep K) c) n (rootp x))) a (mknode d pca p yp))
    yp (mknode d (enc a Blk) v w)"
  let ?s4 = "reroot x p (rcol x) ?s3"
  have tx: "trep ?s3 a x" using x z D by simp
  have "node_at ?s4 p = Some (mknode d (enc (holep K) c) n (rootp x))" "node_at ?s4 a = Some (mknode d pca p yp)"
    "crep ?s4 p K"
    using K z D nz by simp_all
  from rotate_set_parents_Some(2) [OF this g] z D nz
  have "hev_rbtree_rotate_set_parents ?s4 p a HEV_RBTREE_BLACK =
    Some (repoint K a (sput (sput ?s4 a (mknode d (enc (holep K) c) p yp)) p (mknode d (enc a Blk) n (rootp x))))"
    by simp
  then show ?thesis
    using p a y z nz if_set_parent [OF tx z(2), of p]
    by (cases "rootp x = 0") (simp_all add: erase_case4_def Let_def hev_rbtree_node_set_parent_color_def)
qed

text \<open>The same with the tree that results.\<close>

lemma erase_case4_tree:
  assumes p: "node_at s p = Some (mknode d (enc (holep K) c) (rootp t) q0)" "trep s p t"
    and a: "node_at s a = Some (mknode d pca (rootp x) (rootp y))" "trep s a x"
    and y: "trep s a' y" "y \<noteq> E" and K: "crep s p K"
    and z: "zok K (nd d c a (nd d Blk p t x) y)"
    and g: "rootp (case K of [] \<Rightarrow> E | (d, c, a, u) # _ \<Rightarrow> u) \<noteq> p"
  shows "\<exists>s'. erase_case4 d s p a (rootp y) = Some s' \<and>
    srep s' (fill K (nd d c a (nd d Blk p t x) (paint Blk y))) \<and>
    (\<forall>b. b \<notin> kset K \<union> set (inorder (nd d c a (nd d Blk p t x) y)) \<longrightarrow> node_at s' b = node_at s b)"
proof -
  obtain yp cy v w where y': "y = nd d cy yp v w" using y(2) by (cases y rule: nd_cases [where d = d]) auto
  from z have zs: "zok K t" "zok K x" "zok K v" "zok K w" by (simp_all add: y')
  note D = zokD [OF zs(1)] zokD [OF zs(2)] zokD [OF zs(3)] zokD [OF zs(4)]
  have yn: "node_at s yp = Some (mknode d (enc a' cy) (rootp v) (rootp w))" "trep s yp v" "trep s yp w"
    using y(1) by (simp_all add: y')
  have neq: "p \<noteq> a" "a \<noteq> p" "p \<noteq> yp" "yp \<noteq> p" "a \<noteq> yp" "yp \<noteq> a" using z by (auto simp: y')
  let ?s3 = "sput (sput (sput s p (mknode d (enc (holep K) c) (rootp t) (rootp x))) a (mknode d pca p yp))
    yp (mknode d (enc a Blk) (rootp v) (rootp w))"
  let ?s5 = "sput (sput (reroot x p (rcol x) ?s3) a (mknode d (enc (holep K) c) p yp))
    p (mknode d (enc a Blk) (rootp t) (rootp x))"
  have "erase_case4 d s p a yp = Some (repoint K a ?s5)"
    using a z zs neq by (intro erase_case4_Some [OF p(1) _ yn(1) a(2) K _ _ _ _ _ _ _ _ _ _ _ g]) (auto simp: y')
  moreover have "crep (repoint K a ?s5) a K"
    using K z D neq by (intro crep_repoint [of _ p]) (simp_all add: y')
  moreover have "trep ?s3 a x" using a z D by (simp add: y')
  then have "trep (reroot x p (rcol x) ?s3) p x" using D by (intro trep_reroot_same) simp_all
  then have "trep (repoint K a ?s5) (holep K) (nd d c a (nd d Blk p t x) (paint Blk y))"
    using p(2) yn z D neq by (simp add: y' Int_Un_distrib Int_Un_distrib2)
  moreover have "node_at (repoint K a ?s5) b = node_at s b"
    if "b \<notin> kset K \<union> set (inorder (nd d c a (nd d Blk p t x) y))" for b
    using that by (auto simp: y')
  ultimately show ?thesis by (auto simp: srep_fill y')
qed

text \<open>Case 3: the red inner child \<open>b\<close> is rotated above the sibling \<open>a\<close>.\<close>

lemma erase_case3_tree:
  assumes p: "node_at s p = Some (mknode d pc n a)" and t: "trep s p (nd d Blk a (nd d Red b x w) y)"
    and z: "zok K (nd d Blk a (nd d Red b x w) y)" "rcol w = Blk"
    and o: "aligned p" "p \<notin> set (inorder (nd d Blk a (nd d Red b x w) y))"
  shows "\<exists>s'. erase_case3 d s p a b = Some (a, b, s') \<and> node_at s' p = Some (mknode d pc n b) \<and>
    node_at s' b = Some (mknode d a (rootp x) a) \<and> trep s' b x \<and> trep s' p (nd d Blk a w y) \<and>
    rb_root s' = rb_root s \<and>
    (\<forall>q. q \<notin> insert p (set (inorder (nd d Blk a (nd d Red b x w) y))) \<longrightarrow> node_at s' q = node_at s q)"
proof -
  from z have zs: "zok K x" "zok K w" "zok K y" by simp_all
  note D = zokD [OF zs(1)] zokD [OF zs(2)] zokD [OF zs(3)]
  have "p \<noteq> 0" using p by auto
  let ?s3 = "sput (sput (sput s a (mknode d (enc p Blk) (rootp w) (rootp y))) b (mknode d a (rootp x) a))
    p (mknode d pc n b)"
  have tw: "trep ?s3 b w" using t z(1) o D by (simp add: Int_Un_distrib Int_Un_distrib2)
  have "erase_case3 d s p a b = Some (a, b, reroot w a Blk ?s3)"
    using p t z(1) o \<open>p \<noteq> 0\<close> set_parent_color_if_Some [OF tw, of a] by (auto simp: erase_case3_def Let_def)
  moreover have "trep (reroot w a Blk ?s3) a w"
    using trep_reroot [OF tw, of a Blk] paint_rcol [of w] z(2) D by simp
  ultimately show ?thesis
    using t z(1) o D \<open>p \<noteq> 0\<close>
    by (intro exI [of _ "reroot w a Blk ?s3"]) (auto simp: Int_Un_distrib Int_Un_distrib2)
qed

section \<open>The loop\<close>

text \<open>An iteration of the loop once the sibling is black.\<close>

definition erase_rest :: "side \<Rightarrow> rb_store \<Rightarrow> ptr \<Rightarrow> ptr \<Rightarrow> rb_store option" where
  "erase_rest d s parent sibling = do {
     b \<leftarrow> node_at s sibling;
     let tmp1 = child (opp d) b;
     outer_black \<leftarrow> black_or_null s tmp1;
     if outer_black then do {
       let tmp2 = child d b;
       inner_black \<leftarrow> black_or_null s tmp2;
       if inner_black then do {
         s \<leftarrow> hev_rbtree_node_set_parent_color s sibling parent HEV_RBTREE_RED;
         p \<leftarrow> node_at s parent;
         if hev_rbtree_node_is_red p then hev_rbtree_node_set_black s parent
         else if hev_rbtree_node_parent p = 0 then Some s
         else erase_color_loop s parent (hev_rbtree_node_parent p)
       }
       else do {
         (tmp1, sibling, s) \<leftarrow> erase_case3 d s parent sibling tmp2;
         erase_case4 d s parent sibling tmp1
       }
     }
     else erase_case4 d s parent sibling tmp1
   }"

lemma erase_color_loop_step:
  assumes "node_at s p = Some (mknode d pc n a)" "n \<noteq> a"
  shows "erase_color_loop s n p = erase_case1 d s p a \<bind> (\<lambda>(a', s'). erase_rest d s' p a')"
  unfolding erase_rest_def using assms
  by (subst erase_color_loop.simps)
    (simp only: assms(1) Option.bind_lunit Let_def side_detect [OF assms(2)] mknode_simps)

lemma black_or_null_Some:
  assumes "trep s q t" "aligned q"
  shows "black_or_null s (rootp t) = Some (rcol t = Blk)"
  using assms node_at_0_trep [OF assms(1)] by (cases t) (auto simp: black_or_null_def)


text \<open>With a black sibling, the loop ends with a balanced tree or goes on one level higher.\<close>

lemma erase_rest_outer:
  assumes tree: "crep s n ((d, c, p, nd d Blk a x y) # K)" "trep s p t" "n = rootp t"
    and z: "zok ((d, c, p, nd d Blk a x y) # K) t"
    and bal: "balanced t" "path_ok ((d, c, p, nd d Blk a x y) # K) (Suc (bh t))" and y: "rcol y = Red"
  shows "\<exists>s' T. erase_rest d s p a = Some s' \<and> srep s' T \<and> rb_ok T \<and>
    inorder T = inorder (fill ((d, c, p, nd d Blk a x y) # K) t) \<and>
    (\<forall>b. b \<notin> kset ((d, c, p, nd d Blk a x y) # K) \<union> set (inorder t) \<longrightarrow> node_at s' b = node_at s b)"
proof -
  let ?T = "fill K (nd d c a (nd d Blk p t x) (paint Blk y))"
  have an: "node_at s a = Some (mknode d (enc p Blk) (rootp x) (rootp y))" "trep s a x" "trep s a y" "aligned a"
    using tree z by (simp_all add: zok_frame)
  have "y \<noteq> E" using y by auto
  moreover have "zok K (nd d c a (nd d Blk p t x) y)" using z by (auto simp: zok_frame)
  moreover have "rootp (case K of [] \<Rightarrow> E | (d, c, a, u) # _ \<Rightarrow> u) \<noteq> p" using z by (rule zok_sibling_root)
  moreover have "erase_rest d s p a = erase_case4 d s p a (rootp y)"
    using an y black_or_null_Some [of s a y] by (simp add: erase_rest_def Let_def)
  ultimately obtain s' where "erase_rest d s p a = Some s'" "srep s' ?T"
    "\<forall>b. b \<notin> kset K \<union> set (inorder (nd d c a (nd d Blk p t x) y)) \<longrightarrow> node_at s' b = node_at s b"
    using erase_case4_tree [of s p d K c t "rootp (nd d Blk a x y)" a "enc p Blk" x y a] tree an by auto
  moreover have "rb_ok ?T"
    using bal y by (cases c) (auto simp: rb_ok_fill bh_nd bh_paint balanced_paint rcol_paint)
  moreover have "inorder ?T = inorder (fill ((d, c, p, nd d Blk a x y) # K) t)"
    by (simp add: nd_def split: side.split)
  ultimately show ?thesis by (intro exI [of _ s'] exI [of _ ?T]) auto
qed

lemma erase_rest_inner:
  assumes tree: "crep s n ((d, c, p, nd d Blk a (nd d Red b x w) y) # K)" "trep s p t" "n = rootp t"
    and z: "zok ((d, c, p, nd d Blk a (nd d Red b x w) y) # K) t"
    and bal: "balanced t" "path_ok ((d, c, p, nd d Blk a (nd d Red b x w) y) # K) (Suc (bh t))" and y: "rcol y = Blk"
  shows "\<exists>s' T. erase_rest d s p a = Some s' \<and> srep s' T \<and> rb_ok T \<and>
    inorder T = inorder (fill ((d, c, p, nd d Blk a (nd d Red b x w) y) # K) t) \<and>
    (\<forall>q. q \<notin> kset ((d, c, p, nd d Blk a (nd d Red b x w) y) # K) \<union> set (inorder t) \<longrightarrow>
      node_at s' q = node_at s q)"
proof -
  let ?S = "nd d Blk a (nd d Red b x w) y" and ?T = "fill K (nd d c b (nd d Blk p t x) (nd d Blk a w y))"
  have an: "node_at s a = Some (mknode d (enc p Blk) b (rootp y))" "trep s a (nd d Red b x w)" "trep s a y" "aligned a"
    "trep s p ?S" "zok K ?S" "aligned p" "p \<notin> set (inorder ?S)" "rcol w = Blk" "crep s p K" "zok K t"
    using tree z bal by (simp_all add: zok_frame)
  have pn: "node_at s p = Some (mknode d (enc (holep K) c) (rootp t) a)" using tree by simp
  obtain s1 where s1: "erase_case3 d s p a b = Some (a, b, s1)"
    "node_at s1 p = Some (mknode d (enc (holep K) c) (rootp t) b)"
    "node_at s1 b = Some (mknode d a (rootp x) a)" "trep s1 b x" "trep s1 p (nd d Blk a w y)" "rb_root s1 = rb_root s"
    "\<forall>q. q \<notin> insert p (set (inorder ?S)) \<longrightarrow> node_at s1 q = node_at s q"
    using erase_case3_tree [OF pn an(5,6,9,7,8)] by blast
  have "kset K \<inter> set (inorder x) = {}" "kset K \<inter> set (inorder w) = {}" "kset K \<inter> set (inorder y) = {}"
    using an(6) by (simp_all add: zokD)
  then have "crep s1 p K" using an(10) s1(6,7) z by (subst crep_cong [where s = s]) (auto simp: zok_frame)
  moreover have "trep s1 p t" using tree(2) s1(7) z by (subst trep_cong [where s = s]) (auto simp: zok_frame)
  moreover have "zok K (nd d c b (nd d Blk p t x) (nd d Blk a w y))" using z by (auto simp: zok_frame)
  moreover have "rootp (case K of [] \<Rightarrow> E | (d, c, a, u) # _ \<Rightarrow> u) \<noteq> p" using z by (rule zok_sibling_root)
  moreover have "erase_rest d s p a = erase_case4 d s1 p b a"
    using an y s1(1) black_or_null_Some [of s a y] black_or_null_Some [of s a "nd d Red b x w"]
    by (simp add: erase_rest_def Let_def)
  ultimately obtain s' where s': "erase_rest d s p a = Some s'" "srep s' ?T"
    "\<forall>q. q \<notin> kset K \<union> set (inorder (nd d c b (nd d Blk p t x) (nd d Blk a w y))) \<longrightarrow> node_at s' q = node_at s1 q"
    using erase_case4_tree [of s1 p d K c t b b a x "nd d Blk a w y" p] s1 by auto
  have "rb_ok ?T" using bal y by (cases c) (auto simp: rb_ok_fill bh_nd)
  moreover have "inorder ?T = inorder (fill ((d, c, p, ?S) # K) t)" by (simp add: nd_def split: side.split)
  ultimately show ?thesis using s' s1(7) by (intro exI [of _ s'] exI [of _ ?T]) auto
qed

lemma erase_rest_recolour:
  assumes tree: "crep s n ((d, c, p, nd d Blk a x y) # K)" "trep s p t" "n = rootp t"
    and z: "zok ((d, c, p, nd d Blk a x y) # K) t" and xy: "rcol x = Blk" "rcol y = Blk"
  shows "\<exists>s'. erase_rest d s p a = (if c = Red \<or> K = [] then Some s' else erase_color_loop s' p (holep K)) \<and>
    crep s' p K \<and> trep s' (holep K) (nd d Blk p t (nd d Red a x y)) \<and>
    (\<forall>b. b \<notin> {p, a} \<longrightarrow> node_at s' b = node_at s b)"
proof -
  have zs: "zok K t" "zok K x" "zok K y" using z by (simp_all add: zok_frame)
  note D = zokD [OF zs(1)] zokD [OF zs(2)] zokD [OF zs(3)]
  have an: "node_at s a = Some (mknode d (enc p Blk) (rootp x) (rootp y))" "trep s a x" "trep s a y" "aligned a"
    using tree z by (simp_all add: zok_frame)
  have neq: "p \<noteq> a" "a \<noteq> p" using z by (auto simp: zok_frame)
  have hk: "holep K = 0 \<longleftrightarrow> K = []" using holep_kset [of K] D(4) by (cases "K = []") auto
  let ?s1 = "sput s a (mknode d p (rootp x) (rootp y))"
  let ?s2 = "sput ?s1 p (mknode d (enc (holep K) Blk) n a)"
  have "erase_rest d s p a =
      (if c = Red then Some ?s2 else if K = [] then Some ?s1 else erase_color_loop ?s1 p (holep K))"
    using an xy black_or_null_Some [of s a x] black_or_null_Some [of s a y] tree z neq D hk
    by (simp add: erase_rest_def Let_def hev_rbtree_node_set_parent_color_def zok_frame hev_rbtree_node_set_black_def)
  moreover have "trep ?s1 (holep K) (nd d c p t (nd d Red a x y))" "crep ?s1 p K"
    "trep ?s2 (holep K) (nd d Blk p t (nd d Red a x y))" "crep ?s2 p K"
    using tree z D neq by (simp_all add: zok_frame Int_Un_distrib Int_Un_distrib2)
  ultimately show ?thesis by (cases c) (auto intro: exI [of _ ?s1] exI [of _ ?s2])
qed

text \<open>Case 1: a red sibling is rotated above the parent, which leaves a black sibling.\<close>

lemma erase_case1_tree:
  assumes tree: "crep s n ((d, Blk, p, nd d Red a x y) # K)" "trep s p t" "n = rootp t"
    and z: "zok ((d, Blk, p, nd d Red a x y) # K) t" and x: "x \<noteq> E" "rcol x = Blk"
  shows "\<exists>s'. erase_case1 d s p a = Some (rootp x, s') \<and> crep s' n ((d, Red, p, x) # (d, Blk, a, y) # K) \<and>
    trep s' p t \<and>
    (\<forall>b. b \<notin> kset ((d, Blk, p, nd d Red a x y) # K) \<union> set (inorder t) \<longrightarrow> node_at s' b = node_at s b)"
proof -
  have zs: "zok K t" "zok K x" "zok K y" using z by (simp_all add: zok_frame)
  note D = zokD [OF zs(1)] zokD [OF zs(2)] zokD [OF zs(3)]
  have an: "node_at s a = Some (mknode d p (rootp x) (rootp y))" "trep s a x" "trep s a y"
    "node_at s p = Some (mknode d (enc (holep K) Blk) n a)" "crep s p K" "aligned p" "p \<noteq> 0" "a \<noteq> 0"
    using tree z by (simp_all add: zok_frame)
  have neq: "p \<noteq> a" "a \<noteq> p" using z by (auto simp: zok_frame)
  have g: "rootp (case K of [] \<Rightarrow> E | (d, c, a, u) # _ \<Rightarrow> u) \<noteq> p" using z by (rule zok_sibling_root)
  let ?s2 = "sput (sput s p (mknode d (enc (holep K) Blk) n (rootp x))) a (mknode d p p (rootp y))"
  let ?s3 = "reroot x p Blk ?s2"
  have tx: "trep ?s2 a x" using an z D by (simp add: zok_frame)
  have n3: "node_at ?s3 p = Some (mknode d (enc (holep K) Blk) n (rootp x))"
    "node_at ?s3 a = Some (mknode d p p (rootp y))" "crep ?s3 p K"
    using an z D neq by (simp_all add: zok_frame)
  have c: "hev_rbtree_node_set_parent_color ?s2 (rootp x) p HEV_RBTREE_BLACK = Some ?s3"
    using set_parent_color_if_Some [OF tx, of p] x(1) D by (cases x) (auto simp: set_parent_color_if_def)
  from rotate_set_parents_Some(1) [OF n3 g] z D neq
  have "hev_rbtree_rotate_set_parents ?s3 p a HEV_RBTREE_RED =
     Some (repoint K a (sput (sput ?s3 a (mknode d (enc (holep K) Blk) p (rootp y))) p (mknode d a n (rootp x))))"
    (is "_ = Some ?s4") by (simp add: zok_frame)
  then have "erase_case1 d s p a = Some (rootp x, ?s4)"
    using an c neq by (simp add: erase_case1_def Let_def)
  moreover have "crep ?s4 a K" using an z D by (intro crep_repoint [of _ p]) (simp_all add: zok_frame)
  moreover have "trep ?s3 p x" using trep_reroot [OF tx, of p Blk] paint_rcol [of x] x D by simp
  then have "crep ?s4 n ((d, Red, p, x) # (d, Blk, a, y) # K)" "trep ?s4 p t"
    using an \<open>crep ?s4 a K\<close> tree z D neq by (simp_all add: zok_frame Int_Un_distrib Int_Un_distrib2)
  moreover have "\<forall>b. b \<notin> kset ((d, Blk, p, nd d Red a x y) # K) \<union> set (inorder t) \<longrightarrow> node_at ?s4 b = node_at s b"
    by auto
  ultimately show ?thesis by blast
qed

text \<open>What the loop must establish at a position, and an iteration with a black sibling.\<close>

definition erase_goal :: "rb_store \<Rightarrow> ctxt \<Rightarrow> rbt \<Rightarrow> rb_store option \<Rightarrow> bool" where
  "erase_goal s K t r \<longleftrightarrow> (\<exists>s' T. r = Some s' \<and> srep s' T \<and> rb_ok T \<and> inorder T = inorder (fill K t) \<and>
     (\<forall>b. b \<notin> kset K \<union> set (inorder t) \<longrightarrow> node_at s' b = node_at s b))"

definition erase_hole :: "rb_store \<Rightarrow> ptr \<Rightarrow> ctxt \<Rightarrow> rbt \<Rightarrow> bool" where
  "erase_hole s n K t \<longleftrightarrow> crep s n K \<and> trep s (holep K) t \<and> n = rootp t \<and> zok K t \<and> balanced t \<and>
     path_ok K (Suc (bh t))"

lemma erase_goal_frame:
  assumes "erase_goal s1 K1 t1 r" "inorder (fill K1 t1) = inorder (fill K t)"
    and "\<forall>b. b \<notin> kset K \<union> set (inorder t) \<longrightarrow> node_at s1 b = node_at s b"
  shows "erase_goal s K t r"
proof -
  have "kset K1 \<union> set (inorder t1) = kset K \<union> set (inorder t)"
    using arg_cong [OF assms(2), of set] by (simp only: set_fill)
  with assms show ?thesis unfolding erase_goal_def by metis
qed

lemma erase_rest_balanced:
  assumes h: "erase_hole s n ((d, c, p, nd d Blk a x y) # K) t"
    and IH: "\<And>s' t'. c = Blk \<Longrightarrow> K \<noteq> [] \<Longrightarrow> erase_hole s' p K t' \<Longrightarrow> rcol t' = Blk \<Longrightarrow>
      erase_goal s' K t' (erase_color_loop s' p (holep K))"
  shows "erase_goal s ((d, c, p, nd d Blk a x y) # K) t (erase_rest d s p a)"
proof -
  let ?K = "(d, c, p, nd d Blk a x y) # K"
  have tree: "crep s n ?K" "trep s p t" "n = rootp t" "zok ?K t"
    and bal: "balanced t" "path_ok ?K (Suc (bh t))" using h by (simp_all add: erase_hole_def)
  consider "rcol y = Red" | b v w where "rcol y = Blk" "x = nd d Red b v w" | "rcol y = Blk" "rcol x = Blk"
    by (cases "rcol y"; cases "rcol x"; cases x rule: nd_cases [where d = d]) auto
  then show ?thesis
  proof cases
    case 1
    then show ?thesis using erase_rest_outer [OF tree bal] by (simp add: erase_goal_def)
  next
    case 2
    then show ?thesis using erase_rest_inner [of s n d c p a b v w y K t] tree bal by (simp add: erase_goal_def)
  next
    case 3
    let ?T = "nd d Blk p t (nd d Red a x y)"
    obtain s' where s': "erase_rest d s p a = (if c = Red \<or> K = [] then Some s' else erase_color_loop s' p (holep K))"
      "crep s' p K" "trep s' (holep K) ?T" "\<forall>b. b \<notin> {p, a} \<longrightarrow> node_at s' b = node_at s b"
      using erase_rest_recolour [OF tree 3(2,1)] by blast
    have z: "zok K ?T" using tree(4) by (auto simp: zok_frame)
    have i: "inorder (fill K ?T) = inorder (fill ?K t)" by (simp add: nd_def split: side.split)
    have "erase_goal s' K ?T (erase_rest d s p a)"
    proof (cases "c = Red \<or> K = []")
      case True
      then have "rb_ok (fill K ?T)" using bal 3 by (auto simp: rb_ok_fill bh_nd)
      moreover have "srep s' (fill K ?T)" using s'(2,3) by (simp add: srep_fill)
      ultimately show ?thesis using True s'(1) by (auto simp: erase_goal_def)
    next
      case False
      then have "c = Blk" "K \<noteq> []" by (cases c; simp)+
      then have "erase_hole s' p K ?T" using s' z bal 3 by (auto simp: erase_hole_def bh_nd)
      then show ?thesis using IH \<open>c = Blk\<close> \<open>K \<noteq> []\<close> s'(1) by simp
    qed
    then show ?thesis using i by (rule erase_goal_frame) (use s'(4) in auto)
  qed
qed

lemma erase_color_loop_balanced:
  assumes "erase_hole s n K t" "rcol t = Blk" "K \<noteq> []"
  shows "erase_goal s K t (erase_color_loop s n (holep K))"
  using assms
proof (induction K arbitrary: s n t)
  case (Cons f K)
  obtain d c p u where f: "f = (d, c, p, u)" by (rule prod_cases4)
  have h: "crep s n (f # K)" "trep s p t" "n = rootp t" "zok (f # K) t" "balanced t" "path_ok (f # K) (Suc (bh t))"
    using Cons.prems by (simp_all add: erase_hole_def f)
  obtain c' a x y where u: "u = nd d c' a x y"
    using h(6) by (cases u rule: nd_cases [where d = d]) (auto simp: f)
  have "n \<noteq> a" using h(3,4) by (cases t) (auto simp: f u zok_frame)
  then have st: "erase_color_loop s n p = erase_case1 d s p a \<bind> (\<lambda>(a', s'). erase_rest d s' p a')"
    using h(1) by (intro erase_color_loop_step) (auto simp: f u)
  show ?case
  proof (cases c')
    case Blk
    then have "erase_case1 d s p a = Some (a, s)"
      using h by (simp add: f u zok_frame erase_case1_def)
    then have "erase_color_loop s n p = erase_rest d s p a" using st by simp
    then show ?thesis
      using erase_rest_balanced [of s n d c p a x y K t] Cons.prems(1) Cons.IH by (simp add: f u Blk)
  next
    case Red
    have "balanced u" "bh u = Suc (bh t)" "c = Red \<longrightarrow> rcol u = Blk" using h(6) by (simp_all add: f)
    with Red have c: "c = Blk" "rcol x = Blk" "rcol y = Blk" and "bh x = Suc (bh t)"
      using bh_nd [of x y d Red a] by (cases c; simp add: u)+
    then have "x \<noteq> E" by auto
    with c(2) obtain b v w where x: "x = nd d Blk b v w" by (cases x rule: nd_cases [where d = d]) auto
    obtain s' where s': "erase_case1 d s p a = Some (b, s')" "crep s' n ((d, Red, p, x) # (d, Blk, a, y) # K)"
      "trep s' p t" "\<forall>b. b \<notin> kset (f # K) \<union> set (inorder t) \<longrightarrow> node_at s' b = node_at s b"
      using erase_case1_tree [OF h(1) [unfolded f u Red c] h(2,3) h(4) [unfolded f u Red c] \<open>x \<noteq> E\<close> c(2)]
      by (auto simp: f u Red c x)
    have "zok ((d, Red, p, x) # (d, Blk, a, y) # K) t" using h(4) by (auto simp: f u zok_frame)
    then have "erase_hole s' n ((d, Red, p, x) # (d, Blk, a, y) # K) t"
      using s' h(3,5,6) c by (auto simp: erase_hole_def f u Red bh_nd)
    then have "erase_goal s' ((d, Red, p, x) # (d, Blk, a, y) # K) t (erase_rest d s' p b)"
      unfolding x by (rule erase_rest_balanced) simp
    moreover have "inorder (fill ((d, Red, p, x) # (d, Blk, a, y) # K) t) = inorder (fill (f # K) t)"
      by (simp add: f u nd_def split: side.split)
    ultimately have "erase_goal s (f # K) t (erase_rest d s' p b)" using s'(4) by (rule erase_goal_frame)
    then show ?thesis using s'(1) st by (simp add: f)
  qed
qed simp

section \<open>Paths inside a subtree\<close>

text \<open>The part of a path between a hole with the pointer \<open>p\<close> in it and a parent \<open>q\<close>.\<close>

fun cseg :: "rb_store \<Rightarrow> ptr \<Rightarrow> ptr \<Rightarrow> ctxt \<Rightarrow> bool" where
  "cseg s q p [] = True"
| "cseg s q p ((d, c, a, u) # M) \<longleftrightarrow>
     node_at s a = Some (mknode d (enc (if M = [] then q else holep M) c) p (rootp u)) \<and> trep s a u \<and> cseg s q a M"

fun topp :: "ptr \<Rightarrow> ctxt \<Rightarrow> ptr" where
  "topp p [] = p"
| "topp p ((d, c, a, u) # M) = topp a M"

lemma crep_append: "crep s p (M @ K) \<longleftrightarrow> cseg s (holep K) p M \<and> crep s (topp p M) K"
  by (induction M arbitrary: p) (auto simp: holep_append)

lemma trep_fill:
  "trep s q (fill M t) \<longleftrightarrow> cseg s q (rootp t) M \<and> trep s (if M = [] then q else holep M) t"
  by (induction M t rule: fill.induct) auto

lemma rootp_fill: "rootp (fill M t) = topp (rootp t) M"
  by (induction M t rule: fill.induct) auto

lemma topp_kset: "M \<noteq> [] \<Longrightarrow> topp p M \<in> kset M"
proof (induction M arbitrary: p)
  case (Cons f M)
  obtain d c a u where f: "f = (d, c, a, u)" by (rule prod_cases4)
  from Cons show ?case by (cases "M = []") (auto simp: f)
qed simp

lemma cseg_cong:
  "(\<And>b. b \<in> kset M \<Longrightarrow> node_at s' b = node_at s b) \<Longrightarrow> cseg s' q p M = cseg s q p M"
proof (induction M arbitrary: p)
  case (Cons f M)
  obtain d c a u where f: "f = (d, c, a, u)" by (rule prod_cases4)
  have "node_at s' a = node_at s a" "trep s' a u = trep s a u"
    using Cons.prems(1) by (auto simp: f intro!: trep_cong)
  with Cons show ?case by (simp add: f)
qed simp

lemma topp_append: "topp p (M @ M') = topp (topp p M) M'"
  by (induction M arbitrary: p) auto

lemma topp_const: "M \<noteq> [] \<Longrightarrow> topp p M = topp q M"
  by (cases M rule: holep.cases) auto

lemma cseg_set_child:
  assumes "cseg s q p M" "M \<noteq> []" "lpre M = []" "distinct (lpost M)" "0 \<notin> kset M"
  shows "\<exists>s'. upd_node s (holep M) (set_child Lft p') = Some s' \<and> cseg s' q p' M \<and> rb_root s' = rb_root s \<and>
    (\<forall>b. b \<noteq> holep M \<longrightarrow> node_at s' b = node_at s b)"
proof -
  obtain d c a u M1 where M: "M = (d, c, a, u) # M1" using assms(2) by (cases M rule: holep.cases) auto
  have d: "d = Lft" using assms(3) by (cases d) (auto simp: M)
  let ?s = "sput s a (mknode Lft (enc (if M1 = [] then q else holep M1) c) p' (rootp u))"
  have "upd_node s a (set_child Lft p') = Some ?s" using assms(1) by (simp add: M d)
  moreover have "cseg ?s q p' M1 = cseg s q p' M1" "cseg ?s q a M1 = cseg s q a M1" "trep ?s a u = trep s a u"
    using assms(3-5) by (auto simp: M d kset_def intro!: cseg_cong trep_cong)
  ultimately show ?thesis using assms(1,5) by (intro exI [of _ ?s]) (simp add: M d)
qed

lemma cseg_set_parent:
  assumes "cseg s q p M" "M \<noteq> []" "aligned q" "distinct (lpre M @ lpost M)" "0 \<notin> kset M"
  shows "\<exists>s'. hev_rbtree_node_set_parent s (topp p M) q' = Some s' \<and> cseg s' q' p M \<and> rb_root s' = rb_root s \<and>
    (\<forall>b. b \<noteq> topp p M \<longrightarrow> node_at s' b = node_at s b)"
  using assms
proof (induction M arbitrary: p)
  case (Cons f M)
  obtain d c a u where f: "f = (d, c, a, u)" by (rule prod_cases4)
  have a: "a \<notin> set (inorder u)" "a \<notin> kset M" "set (inorder u) \<inter> kset M = {}" "a \<noteq> 0" "0 \<notin> set (inorder u)"
    "distinct (lpre M @ lpost M)"
    using Cons.prems(4,5) by (auto simp: f kset_def split: side.splits)
  show ?case
  proof (cases "M = []")
    case True
    then show ?thesis using Cons.prems a
      by (intro exI [of _ "sput s a (mknode d (enc q' c) p (rootp u))"]) (simp add: f hev_rbtree_node_set_parent_def)
  next
    case False
    then obtain s' where s': "hev_rbtree_node_set_parent s (topp a M) q' = Some s'" "cseg s' q' a M"
      "rb_root s' = rb_root s" "\<forall>b. b \<noteq> topp a M \<longrightarrow> node_at s' b = node_at s b"
      using Cons.IH [of a] Cons.prems a by (auto simp: f)
    have "node_at s' b = node_at s b" if "b \<notin> kset M" for b
      using s'(4) topp_kset [OF False, of a] that by metis
    then have "node_at s' a = node_at s a" "trep s' a u = trep s a u"
      using a by (auto intro!: trep_cong)
    then show ?thesis using s' Cons.prems(1) False by (auto simp: f)
  qed
qed simp

section \<open>Removing the node\<close>

lemma find_successor_Some:
  assumes "trep s q t" "t \<noteq> E"
  shows "\<exists>M sc sa sr. t = fill M (N sc sa E sr) \<and> lpre M = [] \<and>
    find_successor s q0 (rootp t) = Some (if M = [] then q0 else holep M, sa)"
  using assms
proof (induction t arbitrary: q q0)
  case (N c a l r)
  have n: "node_at s a = Some (mknode Lft (enc q c) (rootp l) (rootp r))" "trep s a l" using N.prems by simp_all
  show ?case
  proof (cases "l = E")
    case True
    then show ?thesis using n by (intro exI [of _ "[]"]) (subst find_successor.simps, simp)
  next
    case False
    then have "rootp l \<noteq> 0" using node_at_0_trep [OF n(2)] by (cases l) auto
    then have "find_successor s q0 a = find_successor s a (rootp l)"
      using n by (subst find_successor.simps) simp
    moreover obtain M sc sa sr where "l = fill M (N sc sa E sr)" "lpre M = []"
      "find_successor s a (rootp l) = Some (if M = [] then a else holep M, sa)"
      using N.IH(1) [OF n(2) False] by blast
    ultimately show ?thesis
      by (intro exI [of _ "M @ [(Lft, c, a, r)]"])
        (auto simp: fill_append lpre_append holep_append nd_def)
  qed
qed simp

text \<open>Once the node is unlinked, what was its only child, or the successor's, is at the hole.\<close>

lemma erase_finish:
  assumes x: "balanced x" "bh x = 0" "c = Red \<longrightarrow> rcol x = Blk" "zok K x"
    and K: "path_ok K (of_bool (c = Blk))" "c = Red \<longrightarrow> kcol K = Blk \<and> K \<noteq> []"
    and s: "crep s (rootp x) K" "trep s (holep K) (paint Blk x)"
    and r: "r = (if x = E \<and> c = Blk then holep K else 0)"
  shows "erase_goal s K x (if r \<noteq> 0 then erase_color_loop s 0 r else Some s)"
proof -
  have hk: "holep K = 0 \<longleftrightarrow> K = []" using holep_kset [of K] zokD(4) [OF x(4)] by (cases "K = []") auto
  consider "x = E" "c = Blk" "K \<noteq> []" | "r = 0" "x = E" | "r = 0" "x \<noteq> E" using r hk by (cases c) auto
  then show ?thesis
  proof cases
    case 1
    then have "erase_hole s 0 K E" using x K s by (simp add: erase_hole_def)
    from erase_color_loop_balanced [OF this] 1 r hk show ?thesis by simp
  next
    case 2
    then have "srep s (fill K E)" using s by (simp add: srep_fill)
    moreover have "path_ok K 0" using K(1) 2 r hk by (cases c) auto
    ultimately show ?thesis using 2 by (auto simp: erase_goal_def rb_ok_fill)
  next
    case 3
    then have "rcol x = Red" using x(2) by (cases x; cases "rcol x") auto
    then have "rb_ok (fill K (paint Blk x))"
      using x K by (cases c) (simp_all add: rb_ok_fill bh_paint balanced_paint rcol_paint)
    moreover have "srep s (fill K (paint Blk x))" using s by (simp add: srep_fill)
    ultimately show ?thesis using 3 by (auto simp: erase_goal_def)
  qed
qed

text \<open>Taking the successor out of the right subtree.\<close>

definition take_successor :: "rb_store \<Rightarrow> ptr \<Rightarrow> (rb_store \<times> ptr \<times> ptr \<times> ptr) option" where
  "take_successor s chld = do {
     c \<leftarrow> node_at s chld;
     if rb_left c = 0 then Some (s, chld, chld, rb_right c)
     else do {
       (parent, successor) \<leftarrow> find_successor s chld (rb_left c);
       sc \<leftarrow> node_at s successor;
       let child2 = rb_right sc;
       s \<leftarrow> upd_node s parent (set_child Lft child2);
       s \<leftarrow> upd_node s successor (set_child Rgt chld);
       s \<leftarrow> hev_rbtree_node_set_parent s chld successor;
       Some (s, parent, successor, child2)
     }
   }"

lemma unlink_successor:
  assumes c: "cseg s a sa M" "M \<noteq> []" "lpre M = []" and t: "trep s (holep M) (N sc sa E sr)"
    and z: "zok M (N sc sa E sr)" "aligned a"
  shows "\<exists>s'. (do {
       s \<leftarrow> upd_node s (holep M) (set_child Lft (rootp sr));
       s \<leftarrow> upd_node s sa (set_child Rgt (topp sa M));
       hev_rbtree_node_set_parent s (topp sa M) sa
     }) = Some s' \<and> node_at s' sa = Some (mknode Lft (enc (holep M) sc) 0 (topp (rootp sr) M)) \<and>
     cseg s' sa (rootp sr) M \<and> trep s' sa sr \<and> rb_root s' = rb_root s \<and>
     (\<forall>b. b \<notin> insert sa (kset M) \<longrightarrow> node_at s' b = node_at s b)"
proof -
  have zs: "sa \<notin> kset M" "sa \<notin> set (inorder sr)" "0 \<notin> kset M" "kset M \<inter> set (inorder sr) = {}" "0 \<notin> set (inorder sr)"
    "distinct (lpre M @ lpost M)" "sa \<noteq> 0" "holep M \<in> kset M" "topp sa M \<in> kset M"
    using z zokD [of M sr] holep_kset [OF c(2)] topp_kset [OF c(2)] by simp_all
  obtain s1 where s1: "upd_node s (holep M) (set_child Lft (rootp sr)) = Some s1" "cseg s1 a (rootp sr) M"
    "rb_root s1 = rb_root s" "\<forall>b. b \<noteq> holep M \<longrightarrow> node_at s1 b = node_at s b"
    using cseg_set_child [OF c _ zs(3), of "rootp sr"] zs(6) by auto
  let ?n = "mknode Lft (enc (holep M) sc) 0 (topp (rootp sr) M)"
  let ?s2 = "sput s1 sa ?n"
  have "sa \<noteq> holep M" "holep M \<notin> set (inorder sr)" using zs by auto
  then have "node_at s1 sa = Some (mknode Lft (enc (holep M) sc) 0 (rootp sr))" "trep s1 sa sr"
    using t s1(4) trep_cong [of sr s1 s sa] by (simp, metis trep.simps(2))
  moreover have "set_child Rgt q (mknode Lft pc v w) = mknode Lft pc v q" for q pc v w
    by (simp add: set_child_def mknode_def)
  ultimately have s2: "upd_node s1 sa (set_child Rgt (topp sa M)) = Some ?s2" "trep ?s2 sa sr"
    using zs topp_const [OF c(2), of sa "rootp sr"] by simp_all
  have "cseg ?s2 a (rootp sr) M" using s1(2) zs by (subst cseg_cong [where s = s1]) auto
  from cseg_set_parent [OF this c(2) z(2) zs(6,3), of sa]
  obtain s3 where s3: "hev_rbtree_node_set_parent ?s2 (topp sa M) sa = Some s3" "cseg s3 sa (rootp sr) M"
    "rb_root s3 = rb_root ?s2" "\<forall>b. b \<noteq> topp sa M \<longrightarrow> node_at s3 b = node_at ?s2 b"
    using topp_const [OF c(2), of sa "rootp sr"] by auto
  have "node_at s3 b = node_at ?s2 b" if "b \<notin> kset M" for b using s3(4) zs(9) that by metis
  moreover have "node_at s1 b = node_at s b" if "b \<notin> kset M" for b using s1(4) zs(8) that by metis
  moreover have "trep s3 sa sr = trep ?s2 sa sr" using zs(4) by (intro trep_cong calculation(1)) blast
  ultimately show ?thesis using s1(1,3) s2 s3(1-3) zs by (intro exI [of _ s3]) auto
qed

lemma take_successor_Some:
  assumes t: "trep s a r" "r \<noteq> E" "aligned a" and z: "zok [] r"
  shows "\<exists>M sc sa sr q s'. r = fill M (N sc sa E sr) \<and> lpre M = [] \<and> aligned q \<and>
    take_successor s (rootp r) = Some (s', if M = [] then sa else holep M, sa, rootp sr) \<and>
    node_at s' sa = Some (mknode Lft (enc q sc) 0 (topp (rootp sr) M)) \<and>
    cseg s' sa (rootp sr) M \<and> trep s' sa sr \<and> rb_root s' = rb_root s \<and>
    (\<forall>b. b \<notin> insert sa (kset M) \<longrightarrow> node_at s' b = node_at s b)"
proof -
  obtain cr b rl rr where r: "r = N cr b rl rr" using t(2) by (cases r) auto
  have n: "node_at s b = Some (mknode Lft (enc a cr) (rootp rl) (rootp rr))" "trep s b rl" "trep s b rr"
    using t(1) by (simp_all add: r)
  show ?thesis
  proof (cases "rl = E")
    case True
    then show ?thesis using n t(3)
      by (intro exI [of _ "[]"] exI [of _ cr] exI [of _ b] exI [of _ rr] exI [of _ a] exI [of _ s])
        (simp add: r take_successor_def)
  next
    case False
    then have nz: "rootp rl \<noteq> 0" using node_at_0_trep [OF n(2)] by (cases rl) auto
    obtain M' sc sa sr where M': "rl = fill M' (N sc sa E sr)" "lpre M' = []"
      "find_successor s b (rootp rl) = Some (if M' = [] then b else holep M', sa)"
      using find_successor_Some [OF n(2) False] by blast
    define M where "M = M' @ [(Lft, cr, b, rr)]"
    have M: "r = fill M (N sc sa E sr)" "M \<noteq> []" "holep M = (if M' = [] then b else holep M')" "lpre M = []"
      by (auto simp: M_def r M' fill_append holep_append lpre_append nd_def)
    have zM: "zok M (N sc sa E sr)" using z by (simp add: M(1) zok_def)
    have tM: "cseg s a sa M" "trep s (holep M) (N sc sa E sr)" using t(1) M(2) by (simp_all add: M(1) trep_fill)
    have b: "topp sa M = b" by (simp add: M_def topp_append)
    have "node_at s sa = Some (mknode Lft (enc (holep M) sc) 0 (rootp sr))" using tM(2) by simp
    moreover obtain s' where s': "(do {
         s \<leftarrow> upd_node s (holep M) (set_child Lft (rootp sr));
         s \<leftarrow> upd_node s sa (set_child Rgt b);
         hev_rbtree_node_set_parent s b sa
       }) = Some s'" "node_at s' sa = Some (mknode Lft (enc (holep M) sc) 0 (topp (rootp sr) M))"
      "cseg s' sa (rootp sr) M" "trep s' sa sr" "rb_root s' = rb_root s"
      "\<forall>b. b \<notin> insert sa (kset M) \<longrightarrow> node_at s' b = node_at s b"
      using unlink_successor [OF tM(1) M(2,4) tM(2) zM t(3)] by (auto simp: b)
    moreover have "take_successor s b = (do {
         s \<leftarrow> upd_node s (holep M) (set_child Lft (rootp sr));
         s \<leftarrow> upd_node s sa (set_child Rgt b);
         hev_rbtree_node_set_parent s b sa
       }) \<bind> (\<lambda>s. Some (s, holep M, sa, rootp sr))"
      using n nz M'(3) M(3) calculation(1) by (simp add: take_successor_def Let_def)
    ultimately have "take_successor s b = Some (s', holep M, sa, rootp sr)" by simp
    then have "take_successor s (rootp r) = Some (s', holep M, sa, rootp sr)" by (simp add: r)
    then show ?thesis
      by - (rule exI [of _ M], rule exI [of _ sc], rule exI [of _ sa], rule exI [of _ sr], rule exI [of _ "holep M"],
        use M(1,2,4) zokD(7) [OF zM] s'(2-6) in auto)
  qed
qed

text \<open>Putting the successor in the place of the node.\<close>

definition erase_relink :: "rb_store \<Rightarrow> ptr \<Rightarrow> ptr \<Rightarrow> ptr \<Rightarrow> ptr \<Rightarrow> (ptr \<times> rb_store) option" where
  "erase_relink s node parent successor child2 = do {
     n \<leftarrow> node_at s node;
     let tmp = rb_left n;
     s \<leftarrow> upd_node s successor (set_child Lft tmp);
     s \<leftarrow> hev_rbtree_node_set_parent s tmp successor;
     n \<leftarrow> node_at s node;
     let pc = parent_color n;
     s \<leftarrow> hev_rbtree_change_child s node successor (pc_parent pc);
     (rebalance, s) \<leftarrow>
       (if child2 \<noteq> 0 then do {
          s \<leftarrow> hev_rbtree_node_set_parent_color s child2 parent HEV_RBTREE_BLACK;
          Some (0, s)
        } else do {
          sc \<leftarrow> node_at s successor;
          Some (if hev_rbtree_node_is_black sc then parent else 0, s)
        });
     s \<leftarrow> upd_node s successor (\<lambda>m. m\<lparr>parent_color := pc\<rparr>);
     Some (rebalance, s)
   }"

lemma set_child_left [simp]: "set_child Lft q (mknode Lft pc v w) = mknode Lft pc q w"
  by (simp add: set_child_def mknode_def)

lemma erase_relink_Some:
  assumes n: "node_at s a = Some (mknode Lft (enc (holep K) c) (rootp l) v)" "trep s a l" "l \<noteq> E" "crep s a K"
    and sn: "node_at s sa = Some (mknode Lft (enc q sc) 0 w)" "trep s sa sr" "aligned q" "aligned a"
    and z: "zok K l" "zok K sr" "sa \<notin> set (inorder l)" "sa \<notin> set (inorder sr)" "sa \<notin> kset K" "a \<notin> set (inorder l)"
      "a \<notin> set (inorder sr)" "a \<notin> kset K" "set (inorder l) \<inter> set (inorder sr) = {}" "a \<noteq> sa"
    and g: "rootp (case K of [] \<Rightarrow> E | (d, c, a, u) # _ \<Rightarrow> u) \<noteq> a"
  shows "erase_relink s a P sa (rootp sr) = Some (if sr = E \<and> sc = Blk then P else 0,
    sput (reroot sr P Blk (repoint K sa (reroot l sa (rcol l) (sput s sa (mknode Lft (enc q sc) (rootp l) w)))))
      sa (mknode Lft (enc (holep K) c) (rootp l) w))"
proof -
  note D = zokD [OF z(1)] zokD [OF z(2)]
  have nz: "a \<noteq> 0" "sa \<noteq> 0" using n sn by auto
  let ?s4 = "sput s sa (mknode Lft (enc q sc) (rootp l) w)"
  let ?s5 = "reroot l sa (rcol l) ?s4"
  have "trep ?s4 a l" using n z D by simp
  then have s5: "hev_rbtree_node_set_parent ?s4 (rootp l) sa = Some ?s5" using sn(4) n(3) by (rule set_parent_Some)
  have "crep ?s5 a K" using n z D nz by simp
  then have s6: "hev_rbtree_change_child ?s5 a sa (holep K) = Some (repoint K sa ?s5)"
    using g D by (intro change_child_Some)
  let ?s6 = "repoint K sa ?s5"
  have t6: "trep ?s6 sa sr" using sn z D nz by simp
  have n5: "node_at ?s5 a = Some (mknode Lft (enc (holep K) c) (rootp l) v)"
    "node_at ?s6 sa = Some (mknode Lft (enc q sc) (rootp l) w)"
    using n z D nz by simp_all
  show ?thesis
  proof (cases "sr = E")
    case True
    then show ?thesis using n sn z D nz s5 s6 n5 by (simp add: erase_relink_def Let_def)
  next
    case False
    then have "rootp sr \<noteq> 0" using D by (cases sr) auto
    then show ?thesis
      using n sn z D nz s5 s6 n5 False set_parent_color_if_Some [OF t6, of P]
      by (simp add: erase_relink_def Let_def set_parent_color_if_def)
  qed
qed

lemma erase_relink_tree:
  assumes n: "node_at s a = Some (mknode Lft (enc (holep K) c) (rootp l) v)" "trep s a l" "l \<noteq> E" "crep s a K"
    and sn: "node_at s sa = Some (mknode Lft (enc q sc) 0 (topp (rootp sr) M))" "trep s sa sr" "aligned q" "aligned a"
    and M: "cseg s sa (rootp sr) M" "P = (if M = [] then sa else holep M)"
    and z: "zok K l" "zok K sr" "sa \<notin> set (inorder l)" "sa \<notin> set (inorder sr)" "sa \<notin> kset K" "a \<notin> set (inorder l)"
      "a \<notin> set (inorder sr)" "a \<notin> kset K" "set (inorder l) \<inter> set (inorder sr) = {}" "a \<noteq> sa"
    and zM: "kset M \<inter> kset K = {}" "set (inorder sr) \<inter> kset M = {}" "sa \<notin> kset M" "set (inorder l) \<inter> kset M = {}"
    and g: "rootp (case K of [] \<Rightarrow> E | (d, c, a, u) # _ \<Rightarrow> u) \<noteq> a"
  shows "\<exists>s'. erase_relink s a P sa (rootp sr) = Some (if sr = E \<and> sc = Blk then P else 0, s') \<and>
    srep s' (fill K (N c sa l (fill M (paint Blk sr)))) \<and>
    (\<forall>b. b \<notin> insert sa (kset K \<union> set (inorder l) \<union> set (inorder sr)) \<longrightarrow> node_at s' b = node_at s b)"
proof -
  note D = zokD [OF z(1)] zokD [OF z(2)]
  have "sa \<noteq> 0" using sn by auto
  let ?s2 = "reroot l sa (rcol l) (sput s sa (mknode Lft (enc q sc) (rootp l) (topp (rootp sr) M)))"
  let ?s3 = "repoint K sa ?s2"
  let ?s4 = "reroot sr P Blk ?s3"
  let ?s5 = "sput ?s4 sa (mknode Lft (enc (holep K) c) (rootp l) (topp (rootp sr) M))"
  have r: "erase_relink s a P sa (rootp sr) = Some (if sr = E \<and> sc = Blk then P else 0, ?s5)"
    using n sn z g by (rule erase_relink_Some)
  have f: "node_at ?s5 b = node_at s b" if "b \<notin> insert sa (kset K \<union> set (inorder l) \<union> set (inorder sr))" for b
    using that by simp
  have "trep ?s2 sa l" using n(2) z D \<open>sa \<noteq> 0\<close> by (intro trep_reroot_same [of _ a]) simp_all
  then have l: "trep ?s5 sa l" using z D by simp
  have "crep ?s2 a K" using n(4) z D \<open>sa \<noteq> 0\<close> by simp
  then have "crep ?s3 sa K" using D by (intro crep_repoint) simp_all
  then have K: "crep ?s5 sa K" using z D by simp
  have "trep ?s3 sa sr" using sn(2) z D by simp
  then have "trep ?s5 P (paint Blk sr)" using z D by (simp add: trep_reroot)
  moreover have "cseg ?s5 sa (rootp sr) M = cseg s sa (rootp sr) M" by (intro cseg_cong f) (use zM in blast)
  ultimately have "trep ?s5 sa (fill M (paint Blk sr))" using M by (simp add: trep_fill)
  then have "srep ?s5 (fill K (N c sa l (fill M (paint Blk sr))))"
    using K l \<open>sa \<noteq> 0\<close> by (simp add: srep_fill rootp_fill)
  then show ?thesis using r f by blast
qed

lemma zok_fill: "zok K (fill M t) = zok (M @ K) t"
  by (simp add: zok_def fill_append)

lemma rbtree_erase_node_both:
  assumes "node_at s a = Some n" "rb_left n \<noteq> 0" "rb_right n \<noteq> 0"
  shows "rbtree_erase_node s a =
    take_successor s (rb_right n) \<bind> (\<lambda>(s, p, sc, c2). erase_relink s a p sc c2)"
  unfolding rbtree_erase_node_def take_successor_def erase_relink_def using assms by (simp add: Let_def)

lemma erase_two_children:
  assumes t: "crep s a K" "trep s (holep K) (N c a l r)" and lr: "l \<noteq> E" "r \<noteq> E" and z: "zok K (N c a l r)"
  shows "\<exists>M sc sa sr s'. r = fill M (N sc sa E sr) \<and> lpre M = [] \<and>
    rbtree_erase_node s a = Some (if sr = E \<and> sc = Blk then holep (M @ (Rgt, c, sa, l) # K) else 0, s') \<and>
    srep s' (fill (M @ (Rgt, c, sa, l) # K) (paint Blk sr)) \<and>
    (\<forall>b. b \<notin> kset K \<union> set (inorder l) \<union> set (inorder r) \<longrightarrow> node_at s' b = node_at s b)"
proof -
  have n: "node_at s a = Some (mknode Lft (enc (holep K) c) (rootp l) (rootp r))" "trep s a l" "trep s a r"
    "aligned a" "rootp l \<noteq> 0" "rootp r \<noteq> 0"
    using t(2) z zokD(3) [of K l] zokD(3) [of K r] lr by (cases l; cases r; simp)+
  have "zok [] r" using z by (auto simp: zok_def ptrs_ok_def)
  with take_successor_Some [OF n(3) lr(2) n(4)] obtain M sc sa sr q s1 where M: "r = fill M (N sc sa E sr)" "aligned q"
    "take_successor s (rootp r) = Some (s1, if M = [] then sa else holep M, sa, rootp sr)"
    "node_at s1 sa = Some (mknode Lft (enc q sc) 0 (topp (rootp sr) M))" "cseg s1 sa (rootp sr) M" "trep s1 sa sr"
    "rb_root s1 = rb_root s" "\<forall>b. b \<notin> insert sa (kset M) \<longrightarrow> node_at s1 b = node_at s b" "lpre M = []" by blast
  have zs: "zok K l" "zok K sr" "sa \<notin> set (inorder l)" "sa \<notin> set (inorder sr)" "sa \<notin> kset K" "a \<notin> set (inorder l)"
      "a \<notin> set (inorder sr)" "a \<notin> kset K" "set (inorder l) \<inter> set (inorder sr) = {}" "a \<noteq> sa"
    and zM: "kset M \<inter> kset K = {}" "set (inorder sr) \<inter> kset M = {}" "sa \<notin> kset M" "set (inorder l) \<inter> kset M = {}"
      "a \<notin> kset M"
    using z unfolding M(1)
    by (auto simp: zok_fill kset_append set_fill) (auto simp: zok_def ptrs_ok_def kset_def lpre_append lpost_append)
  have g: "rootp (case K of [] \<Rightarrow> E | (d, c, a, u) # _ \<Rightarrow> u) \<noteq> a" using zok_path_sibling [OF z] by simp
  have o: "node_at s1 b = node_at s b" if "b \<notin> insert sa (kset M)" for b using M(8) that by blast
  have l1: "trep s1 a l" using n(2) zs(3) zM(4) by (subst trep_cong [where s = s]) (auto intro!: o)
  have k1: "crep s1 a K" using t(1) zs(5) zM(1) M(7) by (subst crep_cong [where s = s]) (auto intro!: o)
  have n1: "node_at s1 a = Some (mknode Lft (enc (holep K) c) (rootp l) (rootp r))" using n(1) zs zM by (simp add: o)
  from erase_relink_tree [OF n1 l1 lr(1) k1 M(4,6,2) n(4) M(5) refl zs zM(1-4) g] obtain s' where s':
    "erase_relink s1 a (if M = [] then sa else holep M) sa (rootp sr) =
      Some (if sr = E \<and> sc = Blk then (if M = [] then sa else holep M) else 0, s')"
    "srep s' (fill K (N c sa l (fill M (paint Blk sr))))"
    "\<forall>b. b \<notin> insert sa (kset K \<union> set (inorder l) \<union> set (inorder sr)) \<longrightarrow> node_at s' b = node_at s1 b" by blast
  have "rbtree_erase_node s a = take_successor s (rootp r) \<bind> (\<lambda>(s, p, sc, c2). erase_relink s a p sc c2)"
    using rbtree_erase_node_both [OF n(1)] n(5,6) by simp
  also have "\<dots> = erase_relink s1 a (if M = [] then sa else holep M) sa (rootp sr)" by (simp add: M(3))
  also note s'(1)
  also have "(if M = [] then sa else holep M) = holep (M @ (Rgt, c, sa, l) # K)" by (simp add: holep_append)
  finally have "rbtree_erase_node s a =
    Some (if sr = E \<and> sc = Blk then holep (M @ (Rgt, c, sa, l) # K) else 0, s')" .
  moreover have "fill K (N c sa l (fill M (paint Blk sr))) = fill (M @ (Rgt, c, sa, l) # K) (paint Blk sr)"
    by (simp add: fill_append nd_def)
  moreover have "node_at s' b = node_at s b" if "b \<notin> kset K \<union> set (inorder l) \<union> set (inorder r)" for b
    using s'(3) o that unfolding M(1) by (simp add: kset_def)
  ultimately show ?thesis using s'(2) M(1,9) by metis
qed

text \<open>A node with at most one child.\<close>

lemma erase_one_child:
  assumes t: "crep s a K" "trep s (holep K) (N c a l r)" and lr: "l = E \<or> r = E" and z: "zok K (N c a l r)"
    and x: "x = (if l = E then r else l)" "x \<noteq> E \<longrightarrow> c = Blk"
  shows "\<exists>s'. rbtree_erase_node s a = Some (if x = E \<and> c = Blk then holep K else 0, s') \<and>
    srep s' (fill K (paint Blk x)) \<and>
    (\<forall>b. b \<notin> kset K \<union> set (inorder x) \<longrightarrow> node_at s' b = node_at s b)"
proof -
  have n: "node_at s a = Some (mknode Lft (enc (holep K) c) (rootp l) (rootp r))" "trep s a x" using t(2) x by auto
  have zx: "zok K x" using z x by simp
  note D = zokD [OF zx]
  have g: "rootp (case K of [] \<Rightarrow> E | (d, c, a, u) # _ \<Rightarrow> u) \<noteq> a" using zok_path_sibling [OF z] by simp
  have cc: "hev_rbtree_change_child s' a (rootp x) (holep K) = Some (repoint K (rootp x) s')" if "crep s' a K" for s'
    using that g D by (intro change_child_Some)
  show ?thesis
  proof (cases "x = E")
    case True
    then have "l = E" "r = E" using x lr by (auto split: if_splits)
    then have "rbtree_erase_node s a = Some (if c = Blk then holep K else 0, repoint K 0 s)"
      using n cc [OF t(1)] D True by (simp add: rbtree_erase_node_def Let_def)
    moreover have "crep (repoint K 0 s) 0 K" using t(1) D by (intro crep_repoint)
    ultimately show ?thesis using True by (auto simp: srep_fill)
  next
    case False
    then obtain b v w where b: "node_at s (rootp x) = Some (mknode Lft (enc a (rcol x)) v w)" "rootp x \<noteq> 0"
        "\<And>s'. reroot x (holep K) Blk s' = sput s' (rootp x) (mknode Lft (enc (holep K) Blk) v w)"
        "rootp x \<in> set (inorder x)"
      using n(2) D by (cases x) auto
    have xk: "rootp x \<noteq> holep K" "rootp x \<notin> kset K" using b D by auto
    have c: "c = Blk" using x False by simp
    have t1: "trep (repoint K (rootp x) (reroot x (holep K) Blk s)) (holep K) (paint Blk x)"
      "crep (repoint K (rootp x) (reroot x (holep K) Blk s)) (rootp x) K"
      "trep (reroot x (holep K) Blk (repoint K (rootp x) s)) (holep K) (paint Blk x)"
      "crep (reroot x (holep K) Blk (repoint K (rootp x) s)) (rootp x) K"
      using n(2) t(1) D by (auto intro!: crep_repoint [of _ a] simp: trep_reroot)
    show ?thesis
    proof (cases "l = E")
      case True
      then have "rbtree_erase_node s a = Some (0, reroot x (holep K) Blk (repoint K (rootp x) s))"
        using n(1) cc [OF t(1)] D b c x xk by (simp add: rbtree_erase_node_def Let_def)
      then show ?thesis using t1(3,4) False by (auto simp: srep_fill)
    next
      case l: False
      then have "rbtree_erase_node s a = Some (0, repoint K (rootp x) (reroot x (holep K) Blk s))"
        using n(1) cc [of "reroot x (holep K) Blk s"] t(1) D b c x xk lr
        by (simp add: rbtree_erase_node_def Let_def)
      then show ?thesis using t1(1,2) False by (auto simp: srep_fill)
    qed
  qed
qed

section \<open>The erase operation\<close>

lemma path_ok_addr:
  "path_ok (M @ (d, c, a, u) # K) n \<longleftrightarrow> path_ok (M @ (d, c, b, u) # K) n"
  "kcol (M @ (d, c, a, u) # K) = kcol (M @ (d, c, b, u) # K)"
proof -
  show k: "kcol (M @ (d, c, a, u) # K) = kcol (M @ (d, c, b, u) # K)" for M
    by (cases M rule: kcol.cases) auto
  show "path_ok (M @ (d, c, a, u) # K) n \<longleftrightarrow> path_ok (M @ (d, c, b, u) # K) n"
  proof (induction M arbitrary: n)
    case (Cons f M)
    obtain d' c' a' u' where f: "f = (d', c', a', u')" by (rule prod_cases4)
    show ?case using Cons k [of M] by (simp add: f)
  qed simp
qed

lemma rbtree_erase:
  assumes s: "srep s (fill K (N c a l r))" and ok: "rb_ok (fill K (N c a l r))" and z: "zok K (N c a l r)"
  shows "\<exists>s' T. hev_rbtree_erase s a = Some s' \<and> srep s' T \<and> rb_ok T \<and>
    inorder T = lpre K @ inorder l @ inorder r @ lpost K \<and>
    (\<forall>b. b \<notin> kset K \<union> set (inorder l) \<union> set (inorder r) \<longrightarrow> node_at s' b = node_at s b)"
proof -
  have t: "crep s a K" "trep s (holep K) (N c a l r)" using s by (simp_all add: srep_fill)
  have bal: "balanced l" "balanced r" "bh l = bh r" "c = Red \<longrightarrow> rcol l = Blk \<and> rcol r = Blk \<and> kcol K = Blk \<and> K \<noteq> []"
    "path_ok K (bh l + of_bool (c = Blk))" using ok by (auto simp: rb_ok_fill)
  show ?thesis
  proof (cases "l = E \<or> r = E")
    case True
    define x where "x = (if l = E then r else l)"
    have x: "balanced x" "bh x = 0" "c = Red \<longrightarrow> rcol x = Blk" "zok K x" "bh l = 0" using bal True z by (auto simp: x_def)
    have b: "x \<noteq> E \<longrightarrow> c = Blk" using x(2,3) by (cases x; cases c; cases "rcol x") auto
    obtain s1 where s1: "rbtree_erase_node s a = Some (if x = E \<and> c = Blk then holep K else 0, s1)"
      "srep s1 (fill K (paint Blk x))" "\<forall>b. b \<notin> kset K \<union> set (inorder x) \<longrightarrow> node_at s1 b = node_at s b"
      using erase_one_child [OF t True z x_def b] by blast
    have "erase_goal s1 K x (hev_rbtree_erase s a)"
      using erase_finish [OF x(1-4) _ _ _ _ refl, of s1] bal s1 x(5)
      by (simp add: hev_rbtree_erase_def srep_fill)
    moreover have "inorder x = inorder l @ inorder r" using True by (auto simp: x_def)
    ultimately show ?thesis using s1(3) by (auto simp: erase_goal_def)
  next
    case False
    then have "l \<noteq> E" "r \<noteq> E" by simp_all
    from erase_two_children [OF t this z] obtain M sc sa sr s1 where M: "r = fill M (N sc sa E sr)"
      "rbtree_erase_node s a = Some (if sr = E \<and> sc = Blk then holep (M @ (Rgt, c, sa, l) # K) else 0, s1)"
      "srep s1 (fill (M @ (Rgt, c, sa, l) # K) (paint Blk sr))"
      "\<forall>b. b \<notin> kset K \<union> set (inorder l) \<union> set (inorder r) \<longrightarrow> node_at s1 b = node_at s b" "lpre M = []" by blast
    let ?K = "M @ (Rgt, c, sa, l) # K"
    have "rb_ok (fill (M @ (Rgt, c, a, l) # K) (N sc sa E sr))" using ok by (simp add: M(1) fill_append nd_def)
    then have "balanced sr" "bh sr = 0" "sc = Red \<longrightarrow> rcol sr = Blk" "path_ok ?K (of_bool (sc = Blk))"
      "sc = Red \<longrightarrow> kcol ?K = Blk \<and> ?K \<noteq> []"
      using path_ok_addr [where M = M and d = Rgt and c = c and a = a and u = l and K = K and b = sa]
      by (auto simp: rb_ok_fill)
    moreover have "zok ?K sr" using z by (simp add: M(1) zok_def ptrs_ok_def fill_append nd_def)
    ultimately have "erase_goal s1 ?K sr (hev_rbtree_erase s a)"
      using erase_finish [of sr sc ?K s1] M(2,3) by (simp add: hev_rbtree_erase_def srep_fill)
    moreover have "inorder (fill ?K sr) = lpre K @ inorder l @ inorder r @ lpost K"
      by (simp add: M(1,5) lpre_append lpost_append)
    moreover have "kset ?K \<union> set (inorder sr) = kset K \<union> set (inorder l) \<union> set (inorder r)"
      by (auto simp: M(1) kset_def lpre_append lpost_append)
    ultimately show ?thesis using M(4) by (auto simp: erase_goal_def)
  qed
qed

end
