(* ===== verification/RBTreeSeq.thy ===== *)
theory RBTreeSeq
  imports RBTreeErase
begin

text \<open>
  The red-black tree as its users see it: an ordered sequence of node addresses. The locale
  \<open>ordered_index\<close> states what a search, an insertion at the place that the search found, a
  removal and the first element promise; the tree is an interpretation of it. The locale
  \<open>keyed_index\<close> adds a comparison of keys, and holds what the tables built on the tree share.
\<close>

section \<open>The sequence of a tree\<close>

definition rb_seq :: "rb_store \<Rightarrow> ptr list \<Rightarrow> bool" where
  "rb_seq s xs \<longleftrightarrow> (\<exists>T. srep s T \<and> rb_ok T \<and> inorder T = xs \<and> ptrs_ok xs)"

lemma inorder_Nil [simp]: "inorder t = [] \<longleftrightarrow> t = E"
  by (cases t) auto

lemma rb_seq_Nil [simp]: "rb_seq s [] \<longleftrightarrow> rb_root s = 0"
  by (simp add: rb_seq_def srep_def rb_ok_def ptrs_ok_def)

lemma rb_seq_ptrs: "rb_seq s xs \<Longrightarrow> ptrs_ok xs"
  by (auto simp: rb_seq_def)

lemma rb_seq_cong:
  assumes "rb_seq s xs" "\<And>b. b \<in> set xs \<Longrightarrow> node_at s' b = node_at s b" "rb_root s' = rb_root s"
  shows "rb_seq s' xs"
  using assms unfolding rb_seq_def srep_def by (metis trep_cong)

lemma rb_seq_nodes: "rb_seq s xs \<Longrightarrow> a \<in> set xs \<Longrightarrow> node_at s a \<noteq> None"
proof -
  have "trep s p t \<Longrightarrow> a \<in> set (inorder t) \<Longrightarrow> node_at s a \<noteq> None" for p t
    by (induction t arbitrary: p) auto
  then show "rb_seq s xs \<Longrightarrow> a \<in> set xs \<Longrightarrow> node_at s a \<noteq> None" by (auto simp: rb_seq_def srep_def)
qed

text \<open>Searching and inserting.\<close>

definition rb_find :: "rb_store \<Rightarrow> (ptr \<Rightarrow> int option) \<Rightarrow> (ptr + ptr \<times> side) option" where
  "rb_find s cmp = rb_search s cmp (rb_root s) 0 Lft"

definition rb_put :: "rb_store \<Rightarrow> ptr \<Rightarrow> ptr \<times> side \<Rightarrow> rb_store option" where
  "rb_put s a pd = do { s \<leftarrow> hev_rbtree_node_link s a (fst pd) (snd pd); hev_rbtree_insert_color s a }"

lemma rb_search_cong:
  assumes "trep s p t" "\<And>b. b \<in> set (inorder t) \<Longrightarrow> node_at s' b = node_at s b"
  shows "rb_search s' cmp (rootp t) q d = rb_search s cmp (rootp t) q d"
  using assms
proof (induction t arbitrary: p q d)
  case E
  show ?case by (simp add: rb_search.simps [of _ _ 0])
next
  case (N c a l r)
  have n: "node_at s a = Some (mknode Lft (enc p c) (rootp l) (rootp r))" "node_at s' a = node_at s a"
    using N.prems by simp_all
  have IH: "rb_search s' cmp (rootp l) a Lft = rb_search s cmp (rootp l) a Lft"
    "rb_search s' cmp (rootp r) a Rgt = rb_search s cmp (rootp r) a Rgt"
    using N.prems by (auto intro!: N.IH [of a])
  have st: "rb_search s'' cmp a q d = (if a = 0 then Some (Inr (q, d)) else cmp a \<bind> (\<lambda>k.
      if k < 0 then rb_search s'' cmp (rootp l) a Lft else if k > 0 then rb_search s'' cmp (rootp r) a Rgt
      else Some (Inl a)))" if "node_at s'' a = node_at s a" for s''
    using that n(1) by (subst rb_search.simps) (cases "cmp a"; simp)
  show ?case using st [of s] st [of s'] n(2) by (cases "cmp a") (simp_all add: IH)
qed

lemma rb_find_cong:
  assumes "rb_seq s xs" "\<And>b. b \<in> set xs \<Longrightarrow> node_at s' b = node_at s b" "rb_root s' = rb_root s"
  shows "rb_find s' cmp = rb_find s cmp"
proof -
  obtain T where "srep s T" "inorder T = xs" using assms(1) by (auto simp: rb_seq_def)
  then show ?thesis
    using rb_search_cong [of s 0 T s' cmp 0 Lft] assms(2,3) by (simp add: rb_find_def srep_def)
qed

lemma rb_seq_find:
  assumes "rb_seq s xs" "cmp_sorted cmp xs"
  shows "(\<exists>a\<in>set xs. cmp a = Some 0 \<and> rb_find s cmp = Some (Inl a)) \<or>
    (\<exists>ls rs pd. xs = ls @ rs \<and> rb_find s cmp = Some (Inr pd) \<and>
       (\<forall>a\<in>set ls. 0 < the (cmp a)) \<and> (\<forall>a\<in>set rs. the (cmp a) < 0) \<and>
       (\<forall>a. node_at s a \<noteq> None \<and> ptrs_ok (a # xs) \<longrightarrow> (\<exists>s'. rb_put s a pd = Some s' \<and> rb_seq s' (ls @ a # rs) \<and>
          (\<forall>b. b \<notin> set (a # xs) \<longrightarrow> node_at s' b = node_at s b))))"
proof -
  obtain T where T: "srep s T" "rb_ok T" "inorder T = xs" "ptrs_ok xs" using assms(1) by (auto simp: rb_seq_def)
  from rb_search_Some [of s 0 T cmp 0 Lft] T(1,3) assms(2) consider
      a where "a \<in> set xs" "cmp a = Some 0" "rb_find s cmp = Some (Inl a)"
    | M where "T = fill M E" "rb_find s cmp = Some (Inr (if M = [] then 0 else holep M, hole_side Lft M))"
        "\<forall>a\<in>set (lpre M). 0 < the (cmp a)" "\<forall>a\<in>set (lpost M). the (cmp a) < 0"
    by (auto simp: srep_def rb_find_def)
  then show ?thesis
  proof cases
    case (2 M)
    have xs: "xs = lpre M @ lpost M" using T(3) 2(1) by simp
    have "\<exists>s'. rb_put s a (if M = [] then 0 else holep M, hole_side Lft M) = Some s' \<and>
        rb_seq s' (lpre M @ a # lpost M) \<and> (\<forall>b. b \<notin> set (a # xs) \<longrightarrow> node_at s' b = node_at s b)"
      if a: "node_at s a \<noteq> None" "ptrs_ok (a # xs)" for a
    proof -
      have h: "(if M = [] then 0 else holep M) = holep M" by simp
      have "kset M = set xs" by (auto simp: xs kset_def)
      moreover have "ptrs_ok (lpre M @ a # lpost M)" using a(2) by (auto simp: xs ptrs_ok_def)
      ultimately show ?thesis
        using rbtree_insert [of s M a Lft] T(1,2) 2(1) a h by (auto simp: rb_put_def rb_seq_def xs)
    qed
    with 2 xs show ?thesis by blast
  qed blast
qed

text \<open>Removing.\<close>

lemma inorder_split:
  assumes "a \<in> set (inorder t)"
  obtains K c l r where "t = fill K (N c a l r)"
proof -
  have "\<exists>K c l r. t = fill K (N c a l r)" using assms
  proof (induction t)
    case (N c b l r)
    then consider "a = b" | "a \<in> set (inorder l)" | "a \<in> set (inorder r)" by auto
    then show ?case
    proof cases
      case 1
      then show ?thesis by (intro exI [of _ "[]"]) auto
    next
      case 2
      with N.IH(1) obtain K c' l' r' where "l = fill K (N c' a l' r')" by blast
      then have "N c b l r = fill (K @ [(Lft, c, b, r)]) (N c' a l' r')" by (simp add: fill_append nd_def)
      then show ?thesis by blast
    next
      case 3
      with N.IH(2) obtain K c' l' r' where "r = fill K (N c' a l' r')" by blast
      then have "N c b l r = fill (K @ [(Rgt, c, b, l)]) (N c' a l' r')" by (simp add: fill_append nd_def)
      then show ?thesis by blast
    qed
  qed simp
  then show thesis using that by blast
qed

lemma rb_seq_erase:
  assumes "rb_seq s xs" "a \<in> set xs"
  shows "\<exists>s'. hev_rbtree_erase s a = Some s' \<and> rb_seq s' (remove1 a xs) \<and>
    (\<forall>b. b \<notin> set (remove1 a xs) \<longrightarrow> node_at s' b = node_at s b)"
proof -
  obtain T where T: "srep s T" "rb_ok T" "inorder T = xs" "ptrs_ok xs" using assms(1) by (auto simp: rb_seq_def)
  obtain K c l r where K: "T = fill K (N c a l r)" using assms(2) T(3) inorder_split by blast
  have xs: "xs = (lpre K @ inorder l) @ a # inorder r @ lpost K" using T(3) by (simp add: K)
  then have "a \<notin> set (lpre K @ inorder l)" using T(4) by (auto simp: ptrs_ok_def)
  then have "remove1 a xs = lpre K @ inorder l @ inorder r @ lpost K" by (simp add: xs remove1_append)
  moreover have "ptrs_ok (remove1 a xs)" using T(4) by (auto simp: ptrs_ok_def dest: notin_set_remove1)
  moreover have "zok K (N c a l r)" using T(3,4) by (simp add: zok_def K)
  moreover have "kset K \<union> set (inorder l) \<union> set (inorder r) = set (lpre K @ inorder l @ inorder r @ lpost K)"
    by (auto simp: kset_def)
  ultimately show ?thesis using rbtree_erase [of s K c a l r] T(1,2) unfolding K rb_seq_def by metis
qed

text \<open>The ends of the sequence.\<close>

definition list_end :: "side \<Rightarrow> ptr list \<Rightarrow> ptr" where
  "list_end d xs = (case d of Lft \<Rightarrow> hd xs | Rgt \<Rightarrow> last xs)"

lemma walk_down_Some:
  assumes "trep s p t" "t \<noteq> E"
  shows "walk_down s d (rootp t) = Some (list_end d (inorder t))"
  using assms
proof (induction t arbitrary: p)
  case (N c a l r)
  define x where "x = (case d of Lft \<Rightarrow> l | Rgt \<Rightarrow> r)"
  have n: "node_at s a = Some (mknode Lft (enc p c) (rootp l) (rootp r))" and x: "trep s a x"
    using N.prems by (auto simp: x_def split: side.split)
  have ch: "child d (mknode Lft (enc p c) (rootp l) (rootp r)) = rootp x"
    by (cases d) (simp_all add: x_def child_def)
  show ?case
  proof (cases "x = E")
    case True
    then show ?thesis using n ch
      by (subst walk_down.simps) (cases d; simp add: x_def list_end_def)
  next
    case False
    then have "rootp x \<noteq> 0" using node_at_0_trep [OF x] by (cases x) auto
    then have "walk_down s d a = walk_down s d (rootp x)" using n ch by (subst walk_down.simps) simp
    also have "\<dots> = Some (list_end d (inorder x))"
      using N.IH x False by (cases d) (auto simp: x_def)
    finally show ?thesis using False by (cases d) (auto simp: x_def list_end_def)
  qed
qed simp

lemma rb_seq_first_last:
  assumes "rb_seq s xs"
  shows "hev_rbtree_first s = Some (if xs = [] then 0 else hd xs)"
    "hev_rbtree_last s = Some (if xs = [] then 0 else last xs)"
proof -
  obtain T where T: "srep s T" "inorder T = xs" using assms by (auto simp: rb_seq_def)
  have "rb_root s = 0 \<longleftrightarrow> T = E" using T(1) node_at_0_trep [of s 0 T] by (cases T) (auto simp: srep_def)
  then show "hev_rbtree_first s = Some (if xs = [] then 0 else hd xs)"
    "hev_rbtree_last s = Some (if xs = [] then 0 else last xs)"
    using T walk_down_Some [of s 0 T]
    by (auto simp: hev_rbtree_first_def hev_rbtree_last_def srep_def list_end_def)
qed

text \<open>The neighbours of a node.\<close>

fun after :: "side \<Rightarrow> ctxt \<Rightarrow> ptr list" where
  "after d [] = []"
| "after d ((d', c, a, u) # K) =
     (if d' = d then [] else a # (case d of Lft \<Rightarrow> rev (inorder u) | Rgt \<Rightarrow> inorder u)) @ after d K"

lemma after_eq: "after Rgt K = lpost K" "after Lft K = rev (lpre K)"
  by (induction K rule: lpre.induct) (auto split: side.split)

lemma walk_up_Some:
  assumes "crep s a K" "trep s (holep K) t" "rootp t = a" "t \<noteq> E" "zok K t"
  shows "walk_up s d a = Some (if after d K = [] then 0 else hd (after d K))"
  using assms
proof (induction K arbitrary: a t)
  case Nil
  obtain c x y where "t = nd Lft c a x y" using Nil.prems(3,4) by (cases t rule: nd_cases [where d = Lft]) auto
  then show ?case using Nil.prems(2) by (subst walk_up.simps) simp
next
  case (Cons f K)
  obtain e c p u where f: "f = (e, c, p, u)" by (rule prod_cases4)
  obtain c' x y where t: "t = nd Lft c' a x y"
    using Cons.prems(3,4) by (cases t rule: nd_cases [where d = Lft]) auto
  have z: "p \<noteq> 0" "aligned p" "a \<noteq> 0" "a \<noteq> rootp u" "zok K (nd e c p t u)"
    using Cons.prems(5) unfolding f t zok_frame by (cases u; auto)+
  have n: "node_at s a = Some (mknode Lft (enc p c') (rootp x) (rootp y))"
    "node_at s p = Some (mknode e (enc (holep K) c) a (rootp u))" "crep s p K"
    "trep s (holep K) (nd e c p t u)"
    using Cons.prems(1,2) by (simp_all add: f t)
  have st: "walk_up s d a = (if a = child d (mknode e (enc (holep K) c) a (rootp u)) then walk_up s d p else Some p)"
    using n z by (subst walk_up.simps) (simp add: Let_def)
  show ?case
  proof (cases "e = d")
    case True
    then show ?thesis using st Cons.IH [OF n(3,4) _ _ z(5)] by (simp add: f)
  next
    case False
    then have "e = opp d" by (cases e; cases d) auto
    then have "walk_up s d a = Some p" using st z(4) by simp
    then show ?thesis using False by (simp add: f)
  qed
qed

lemma enc_not_self:
  assumes "aligned a" "p \<noteq> a"
  shows "enc p c \<noteq> a"
  using assms aligned_bits(1) [OF assms(1)] bit_enc [of p c 0] by (cases c) auto

lemma neighbour_Some:
  assumes s: "crep s a K" "trep s (holep K) (N c a l r)" and z: "zok K (N c a l r)"
    and x: "x = (case d of Lft \<Rightarrow> l | Rgt \<Rightarrow> r)"
  shows "rb_neighbour s d a = Some (if x = E then (if after d K = [] then 0 else hd (after d K))
    else list_end (opp d) (inorder x))"
proof -
  have n: "node_at s a = Some (mknode Lft (enc (holep K) c) (rootp l) (rootp r))" "trep s a x"
    using s(2) x by (cases d; simp)+
  have ch: "child d (mknode Lft (enc (holep K) c) (rootp l) (rootp r)) = rootp x"
    by (cases d) (simp_all add: x child_def)
  have "\<not> hev_rbtree_node_empty (mknode Lft (enc (holep K) c) (rootp l) (rootp r)) a"
    using enc_not_self [of a "holep K" c] z zokD(8) [OF z] by (simp add: hev_rbtree_node_empty_def)
  moreover have "rootp x = 0 \<longleftrightarrow> x = E" using node_at_0_trep [OF n(2)] by (cases x) auto
  ultimately show ?thesis
    using n ch walk_down_Some [OF n(2), of "opp d"] walk_up_Some [OF s(1,2) _ _ z, of d] by (simp add: rb_neighbour_def)
qed

lemma rb_seq_neighbours:
  assumes "rb_seq s (ls @ a # rs)"
  shows "hev_rbtree_node_next s a = Some (if rs = [] then 0 else hd rs)"
    "hev_rbtree_node_prev s a = Some (if ls = [] then 0 else last ls)"
proof -
  obtain T where T: "srep s T" "inorder T = ls @ a # rs" "ptrs_ok (ls @ a # rs)" using assms by (auto simp: rb_seq_def)
  have "a \<in> set (inorder T)" by (simp add: T(2))
  then obtain K c l r where K: "T = fill K (N c a l r)" using inorder_split by blast
  have e: "(lpre K @ inorder l) @ a # inorder r @ lpost K = ls @ a # rs" using T(2) by (simp add: K)
  then have "distinct ((lpre K @ inorder l) @ a # inorder r @ lpost K)" using T(3) by (simp only: ptrs_ok_def)
  then have "a \<notin> set (lpre K @ inorder l)" "a \<notin> set (inorder r @ lpost K)" by auto
  then have l: "ls = lpre K @ inorder l" "rs = inorder r @ lpost K"
    using e append_Cons_eq_iff [of a "lpre K @ inorder l" "inorder r @ lpost K" ls rs] by auto
  have z: "zok K (N c a l r)" using T(2,3) by (simp add: zok_def K)
  have s: "crep s a K" "trep s (holep K) (N c a l r)" using T(1) by (simp_all add: K srep_fill)
  show "hev_rbtree_node_next s a = Some (if rs = [] then 0 else hd rs)"
    using neighbour_Some [OF s z, of r Rgt]
    by (auto simp: hev_rbtree_node_next_def l after_eq list_end_def)
  show "hev_rbtree_node_prev s a = Some (if ls = [] then 0 else last ls)"
    using neighbour_Some [OF s z, of l Lft]
    by (auto simp: hev_rbtree_node_prev_def l after_eq list_end_def hd_rev)
qed

section \<open>How deep a search goes\<close>

fun depth :: "rbt \<Rightarrow> nat" where
  "depth E = 0"
| "depth (N c a l r) = Suc (max (depth l) (depth r))"

lemma balanced_depth: "balanced t \<Longrightarrow> depth t \<le> 2 * bh t + of_bool (rcol t = Red)"
proof (induction t)
  case (N c a l r)
  then show ?case by (cases c) (auto split: if_splits simp: of_bool_def)
qed simp

lemma balanced_size: "balanced t \<Longrightarrow> 2 ^ bh t \<le> length (inorder t) + 1"
  by (induction t) (auto simp: of_bool_def)

lemma rb_ok_depth:
  assumes "rb_ok t"
  shows "2 ^ (depth t div 2) \<le> length (inorder t) + 1"
proof -
  have "depth t div 2 \<le> bh t" using balanced_depth [of t] assms by (simp add: rb_ok_def)
  then have "(2::nat) ^ (depth t div 2) \<le> 2 ^ bh t" by simp
  also have "\<dots> \<le> length (inorder t) + 1" using assms by (intro balanced_size) (simp add: rb_ok_def)
  finally show ?thesis .
qed

lemma rb_search_reads:
  assumes "trep s p t"
  shows "\<exists>A \<subseteq> set (inorder t). finite A \<and> card A \<le> depth t \<and>
    (\<forall>cmp'. (\<forall>a\<in>A. cmp' a = cmp a) \<longrightarrow> rb_search s cmp' (rootp t) q d = rb_search s cmp (rootp t) q d)"
  using assms
proof (induction t arbitrary: p q d)
  case E
  then show ?case by (intro exI [of _ "{}"]) (simp add: rb_search.simps [of s _ 0])
next
  case (N c a l r)
  define e where "e = (if the (cmp a) < 0 then Lft else Rgt)"
  define x where "x = (case e of Lft \<Rightarrow> l | Rgt \<Rightarrow> r)"
  have "trep s a x" using N.prems by (auto simp: x_def split: side.split)
  then obtain A where A: "A \<subseteq> set (inorder x)" "finite A" "card A \<le> depth x"
    "\<And>cmp'. (\<forall>a\<in>A. cmp' a = cmp a) \<longrightarrow> rb_search s cmp' (rootp x) a e = rb_search s cmp (rootp x) a e"
    using N.IH [of a a e] by (cases e) (auto simp: x_def)
  have n: "node_at s a = Some (mknode Lft (enc p c) (rootp l) (rootp r))" using N.prems by simp
  then have "a \<noteq> 0" by auto
  have st: "rb_search s cmp' a q d = (case cmp a of None \<Rightarrow> None | Some k \<Rightarrow>
      if k = 0 then Some (Inl a) else rb_search s cmp' (rootp x) a e)" if "cmp' a = cmp a" for cmp'
    using that n \<open>a \<noteq> 0\<close> by (subst rb_search.simps) (auto simp: e_def x_def split: option.split)
  show ?case
  proof (intro exI [of _ "insert a A"] conjI allI impI)
    show "insert a A \<subseteq> set (inorder (N c a l r))" using A(1) by (cases e) (auto simp: x_def)
    have "card (insert a A) \<le> Suc (card A)" by (rule card_insert_le_m1 [of "Suc (card A)" A a, simplified])
    also have "\<dots> \<le> depth (N c a l r)" using A(3) by (cases e) (auto simp: x_def)
    finally show "card (insert a A) \<le> depth (N c a l r)" .
    fix cmp' assume c: "\<forall>b\<in>insert a A. cmp' b = cmp b"
    then have "rb_search s cmp' a q d = rb_search s cmp a q d"
      using st [of cmp'] st [of cmp] A(4) [of cmp'] by (simp split: option.split)
    then show "rb_search s cmp' (rootp (N c a l r)) q d = rb_search s cmp (rootp (N c a l r)) q d" by simp
  qed (use A(2) in simp)
qed

end
