(* ===== verification/RBTreeIndex.thy ===== *)
theory RBTreeIndex
  imports RBTreeSeq
begin

text \<open>
  What the tables built on the red-black tree rely on. The locale \<open>ordered_index\<close> states what a
  search, an insertion at the place that the search found, a removal and the first element
  promise, and the tree is an interpretation of it. \<open>comparison\<close> is a comparison of keys as C
  code has it, and \<open>keyed_index\<close> extends both: the sequence stays sorted by the keys, and each
  operation is the one of a finite map from keys to addresses.
\<close>

section \<open>Keys\<close>

text \<open>The keys of the elements decrease along the sequence, by the comparison \<open>C\<close>.\<close>

definition keyed :: "('k \<Rightarrow> 'k \<Rightarrow> int) \<Rightarrow> (ptr \<Rightarrow> 'k option) \<Rightarrow> ptr list \<Rightarrow> bool" where
  "keyed C nm xs \<longleftrightarrow> (\<forall>a\<in>set xs. nm a \<noteq> None) \<and> sorted_wrt (\<lambda>a b. 0 < C (the (nm a)) (the (nm b))) xs"

definition key_cmp :: "('k \<Rightarrow> 'k \<Rightarrow> int) \<Rightarrow> (ptr \<Rightarrow> 'k option) \<Rightarrow> 'k \<Rightarrow> ptr \<Rightarrow> int option" where
  "key_cmp C nm n a = map_option (\<lambda>k. C k n) (nm a)"

text \<open>The finite map that the sequence stands for.\<close>

definition keymap :: "(ptr \<Rightarrow> 'k option) \<Rightarrow> ptr list \<Rightarrow> 'k \<Rightarrow> ptr option" where
  "keymap nm xs n = List.find (\<lambda>a. nm a = Some n) xs"

lemma keymap_Some: "keymap nm xs n = Some a \<Longrightarrow> a \<in> set xs \<and> nm a = Some n"
  by (auto simp: keymap_def find_Some_iff)

lemma keymap_None: "keymap nm xs n = None \<longleftrightarrow> (\<forall>a\<in>set xs. nm a \<noteq> Some n)"
  by (auto simp: keymap_def find_None_iff)

lemma keymap_Nil [simp]: "keymap nm [] = Map.empty"
  by (simp add: keymap_def fun_eq_iff)

lemma keymap_cong: "(\<And>a. a \<in> set xs \<Longrightarrow> nm a = nm' a) \<Longrightarrow> keymap nm xs = keymap nm' xs"
  by (auto simp: keymap_def fun_eq_iff intro!: find_cong)

lemma keyed_append:
  "keyed C nm (xs @ ys) \<longleftrightarrow> keyed C nm xs \<and> keyed C nm ys \<and>
     (\<forall>a\<in>set xs. \<forall>b\<in>set ys. 0 < C (the (nm a)) (the (nm b)))"
  by (auto simp: keyed_def sorted_wrt_append)

lemma keyed_Cons:
  "keyed C nm (a # ys) \<longleftrightarrow> nm a \<noteq> None \<and> keyed C nm ys \<and> (\<forall>b\<in>set ys. 0 < C (the (nm a)) (the (nm b)))"
  by (auto simp: keyed_def)

lemma keyed_cong: "(\<And>a. a \<in> set xs \<Longrightarrow> nm a = nm' a) \<Longrightarrow> keyed C nm xs = keyed C nm' xs"
  by (induction xs) (simp_all add: keyed_Cons, simp add: keyed_def)

lemma keyed_remove1: "keyed C nm xs \<Longrightarrow> keyed C nm (remove1 a xs)"
  by (induction xs) (auto simp: keyed_Cons dest: notin_set_remove1)

locale comparison =
  fixes C :: "'k \<Rightarrow> 'k \<Rightarrow> int"
  assumes C_zero: "C x y = 0 \<longleftrightarrow> x = y"
    and C_anti: "sgn (C y x) = - sgn (C x y)"
    and C_trans: "0 < C x y \<Longrightarrow> 0 < C y z \<Longrightarrow> 0 < C x z"
begin

lemma C_refl [simp]: "C x x = 0"
  by (simp add: C_zero)

lemma C_neg: "C x y < 0 \<longleftrightarrow> 0 < C y x"
  using C_anti [of x y] by (auto simp: sgn_if split: if_splits)

lemma keyed_cmp_sorted:
  assumes "keyed C nm xs"
  shows "cmp_sorted (key_cmp C nm n) xs"
  unfolding cmp_sorted_def
proof
  show "\<forall>a\<in>set xs. key_cmp C nm n a \<noteq> None" using assms by (auto simp: keyed_def key_cmp_def)
  have "sgn (the (key_cmp C nm n b)) \<le> sgn (the (key_cmp C nm n a))"
    if ab: "a \<in> set xs" "b \<in> set xs" "0 < C (the (nm a)) (the (nm b))" for a b
  proof -
    have "\<exists>k. nm a = Some k" "\<exists>l. nm b = Some l" using assms ab(1,2) by (auto simp: keyed_def)
    then obtain k l where kl: "nm a = Some k" "nm b = Some l" by blast
    have "0 < C k n" if "0 \<le> C l n"
      using that C_trans [of k l n] C_zero [of l n] ab(3) kl by (cases "C l n = 0") auto
    then show ?thesis using kl by (auto simp: key_cmp_def sgn_if)
  qed
  moreover have "sorted_wrt (\<lambda>a b. 0 < C (the (nm a)) (the (nm b))) xs" using assms by (simp add: keyed_def)
  ultimately show "sorted_wrt (\<lambda>a b. sgn (the (key_cmp C nm n b)) \<le> sgn (the (key_cmp C nm n a))) xs"
    by (rule sorted_wrt_mono_rel)
qed

lemma keyed_unique:
  assumes "keyed C nm xs" "a \<in> set xs" "b \<in> set xs" "nm a = nm b"
  shows "a = b"
  using assms
proof (induction xs)
  case (Cons x xs)
  have "0 < C (the (nm x)) (the (nm c))" if "c \<in> set xs" for c using Cons.prems(1) that by (simp add: keyed_Cons)
  then have "nm x \<noteq> nm c" if "c \<in> set xs" for c using that C_refl by fastforce
  with Cons show ?case by (auto simp: keyed_Cons)
qed simp

lemma keymap_eq_Some:
  assumes "keyed C nm xs"
  shows "keymap nm xs n = Some a \<longleftrightarrow> a \<in> set xs \<and> nm a = Some n"
proof
  assume a: "a \<in> set xs \<and> nm a = Some n"
  then obtain b where b: "keymap nm xs n = Some b" using keymap_None [of nm xs n] by fastforce
  then show "keymap nm xs n = Some a" using keymap_Some [OF b] keyed_unique [OF assms] a by auto
qed (rule keymap_Some)

lemma keymap_eqI:
  assumes "keyed C nm xs" "\<And>n a. m n = Some a \<longleftrightarrow> a \<in> set xs \<and> nm a = Some n"
  shows "keymap nm xs = m"
proof
  fix n
  have k: "keymap nm xs n = Some a \<longleftrightarrow> m n = Some a" for a
    using keymap_eq_Some [OF assms(1), of n a] assms(2) [of n a] by simp
  show "keymap nm xs n = m n"
  proof (cases "keymap nm xs n")
    case None
    then show ?thesis using k by (cases "m n") auto
  next
    case (Some a)
    then show ?thesis using k [of a] by simp
  qed
qed

lemma keyed_insert:
  assumes "keyed C nm (ls @ rs)" "a \<notin> set (ls @ rs)"
    and "\<forall>b\<in>set ls. 0 < the (key_cmp C nm n b)" "\<forall>b\<in>set rs. the (key_cmp C nm n b) < 0"
  shows "keyed C (nm(a \<mapsto> n)) (ls @ a # rs)"
proof -
  let ?nm = "nm(a \<mapsto> n)"
  have "keyed C ?nm (ls @ rs)" using assms(1,2) by (subst keyed_cong [where nm' = nm]) auto
  moreover have "\<exists>k. nm b = Some k" if "b \<in> set (ls @ rs)" for b using that assms(1) by (auto simp: keyed_def)
  then have "0 < C (the (?nm b)) n" if "b \<in> set ls" for b using that assms(2,3) by (fastforce simp: key_cmp_def)
  moreover have "0 < C n (the (?nm b))" if "b \<in> set rs" for b
    using that assms(2,4) \<open>\<And>b. b \<in> set (ls @ rs) \<Longrightarrow> \<exists>k. nm b = Some k\<close> C_neg by (fastforce simp: key_cmp_def)
  ultimately show ?thesis by (auto simp: keyed_append keyed_Cons)
qed

end

section \<open>The interface of the tree\<close>

locale ordered_index =
  fixes rep :: "'s \<Rightarrow> ptr list \<Rightarrow> bool"
    and cell :: "'s \<Rightarrow> ptr \<Rightarrow> 'n option"
    and find :: "'s \<Rightarrow> (ptr \<Rightarrow> int option) \<Rightarrow> (ptr + 'p) option"
    and put :: "'s \<Rightarrow> ptr \<Rightarrow> 'p \<Rightarrow> 's option"
    and erase :: "'s \<Rightarrow> ptr \<Rightarrow> 's option"
    and first :: "'s \<Rightarrow> ptr option"
  assumes rep_ptrs: "rep s xs \<Longrightarrow> ptrs_ok xs"
    and rep_find: "rep s xs \<Longrightarrow> cmp_sorted cmp xs \<Longrightarrow>
      (\<exists>a\<in>set xs. cmp a = Some 0 \<and> find s cmp = Some (Inl a)) \<or>
      (\<exists>ls rs pd. xs = ls @ rs \<and> find s cmp = Some (Inr pd) \<and>
         (\<forall>a\<in>set ls. 0 < the (cmp a)) \<and> (\<forall>a\<in>set rs. the (cmp a) < 0) \<and>
         (\<forall>a. cell s a \<noteq> None \<and> ptrs_ok (a # xs) \<longrightarrow> (\<exists>s'. put s a pd = Some s' \<and> rep s' (ls @ a # rs) \<and>
            (\<forall>b. b \<notin> set (a # xs) \<longrightarrow> cell s' b = cell s b))))"
    and rep_erase: "rep s xs \<Longrightarrow> a \<in> set xs \<Longrightarrow>
      \<exists>s'. erase s a = Some s' \<and> rep s' (remove1 a xs) \<and>
        (\<forall>b. b \<notin> set (remove1 a xs) \<longrightarrow> cell s' b = cell s b)"
    and rep_first: "rep s xs \<Longrightarrow> first s = Some (if xs = [] then 0 else hd xs)"

locale keyed_index = ordered_index + comparison
begin

lemma find_present:
  assumes "rep s xs" "keyed C nm xs" "keymap nm xs n = Some a"
  shows "find s (key_cmp C nm n) = Some (Inl a)"
proof -
  have a: "a \<in> set xs" "nm a = Some n" using assms(2,3) by (simp_all add: keymap_eq_Some)
  from rep_find [OF assms(1) keyed_cmp_sorted [OF assms(2), of n]] consider
      b where "b \<in> set xs" "key_cmp C nm n b = Some 0" "find s (key_cmp C nm n) = Some (Inl b)"
    | ls rs where "xs = ls @ rs" "\<forall>a\<in>set ls. 0 < the (key_cmp C nm n a)" "\<forall>a\<in>set rs. the (key_cmp C nm n a) < 0"
    by blast
  then show ?thesis
  proof cases
    case (1 b)
    then have "nm b = Some n" by (auto simp: key_cmp_def C_zero)
    with 1 a show ?thesis using keyed_unique [OF assms(2), of a b] by simp
  next
    case (2 ls rs)
    then show ?thesis using a by (auto simp: key_cmp_def)
  qed
qed

lemma find_absent:
  assumes "rep s xs" "keyed C nm xs" "keymap nm xs n = None"
  shows "\<exists>pd. find s (key_cmp C nm n) = Some (Inr pd) \<and>
    (\<forall>a. cell s a \<noteq> None \<and> ptrs_ok (a # xs) \<longrightarrow> (\<exists>s' xs'. put s a pd = Some s' \<and> rep s' xs' \<and>
       set xs' = insert a (set xs) \<and> keyed C (nm(a \<mapsto> n)) xs' \<and>
       keymap (nm(a \<mapsto> n)) xs' = (keymap nm xs)(n \<mapsto> a) \<and>
       (\<forall>b. b \<notin> set (a # xs) \<longrightarrow> cell s' b = cell s b)))"
proof -
  have no: "nm b \<noteq> Some n" if "b \<in> set xs" for b using assms(3) that by (simp add: keymap_None)
  from rep_find [OF assms(1) keyed_cmp_sorted [OF assms(2), of n]] no obtain ls rs pd where
    l: "xs = ls @ rs" "find s (key_cmp C nm n) = Some (Inr pd)"
    "\<forall>a\<in>set ls. 0 < the (key_cmp C nm n a)" "\<forall>a\<in>set rs. the (key_cmp C nm n a) < 0"
    "\<forall>a. cell s a \<noteq> None \<and> ptrs_ok (a # xs) \<longrightarrow> (\<exists>s'. put s a pd = Some s' \<and> rep s' (ls @ a # rs) \<and>
            (\<forall>b. b \<notin> set (a # xs) \<longrightarrow> cell s' b = cell s b))"
    by (auto simp: key_cmp_def C_zero)
  have "keyed C (nm(a \<mapsto> n)) (ls @ a # rs) \<and> keymap (nm(a \<mapsto> n)) (ls @ a # rs) = (keymap nm xs)(n \<mapsto> a)"
    if a: "ptrs_ok (a # xs)" for a
  proof -
    have na: "a \<notin> set (ls @ rs)" using a by (simp add: ptrs_ok_def l(1))
    with assms(2) l have k: "keyed C (nm(a \<mapsto> n)) (ls @ a # rs)" by (intro keyed_insert) auto
    moreover have "keymap (nm(a \<mapsto> n)) (ls @ a # rs) = (keymap nm xs)(n \<mapsto> a)"
      using na no assms(2) by (intro keymap_eqI [OF k]) (auto simp: keymap_eq_Some l(1))
    ultimately show ?thesis ..
  qed
  with l show ?thesis by (intro exI [of _ pd]) (fastforce simp: l(1))
qed

lemma erase_present:
  assumes "rep s xs" "keyed C nm xs" "a \<in> set xs" "nm a = Some n"
  shows "\<exists>s'. erase s a = Some s' \<and> rep s' (remove1 a xs) \<and> keyed C nm (remove1 a xs) \<and>
    keymap nm (remove1 a xs) = (keymap nm xs)(n := None) \<and>
    (\<forall>b. b \<notin> set (remove1 a xs) \<longrightarrow> cell s' b = cell s b)"
proof -
  have d: "distinct xs" using rep_ptrs [OF assms(1)] by (simp add: ptrs_ok_def)
  have k: "keyed C nm (remove1 a xs)" using assms(2) by (rule keyed_remove1)
  moreover have "keymap nm (remove1 a xs) = (keymap nm xs)(n := None)"
  proof (rule keymap_eqI [OF k])
    fix n' b
    have "b = a" if "b \<in> set xs" "nm b = Some n" using keyed_unique [OF assms(2) that(1) assms(3)] that assms(4) by simp
    then show "((keymap nm xs)(n := None)) n' = Some b \<longleftrightarrow> b \<in> set (remove1 a xs) \<and> nm b = Some n'"
      using d assms(4) keymap_eq_Some [OF assms(2), of n' b] by (cases "n' = n") auto
  qed
  ultimately show ?thesis using rep_erase [OF assms(1,3)] by blast
qed

end

interpretation tree: ordered_index rb_seq node_at rb_find rb_put hev_rbtree_erase hev_rbtree_first
  by unfold_locales (fact rb_seq_ptrs rb_seq_find rb_seq_erase rb_seq_first_last(1))+

text \<open>Integers as keys.\<close>

interpretation int_tree: keyed_index rb_seq node_at rb_find rb_put hev_rbtree_erase hev_rbtree_first
  "\<lambda>x y :: int. x - y"
  by unfold_locales (auto simp: sgn_if)

section \<open>Runs of operations\<close>

text \<open>The way the program uses the tree: a node is inserted unless one with its key is found, and
  removed by its address.\<close>

datatype tree_op = TreeInsert ptr | TreeErase ptr

fun tree_step :: "(ptr \<Rightarrow> int) \<Rightarrow> tree_op \<Rightarrow> rb_store \<Rightarrow> rb_store option" where
  "tree_step key (TreeInsert a) s = do {
     r \<leftarrow> rb_search s (\<lambda>b. Some (key b - key a)) (rb_root s) 0 Lft;
     case r of Inl _ \<Rightarrow> Some s
     | Inr (parent, d) \<Rightarrow> do { s \<leftarrow> hev_rbtree_node_link s a parent d; hev_rbtree_insert_color s a }
   }"
| "tree_step key (TreeErase a) s = hev_rbtree_erase s a"

fun tree_run :: "(ptr \<Rightarrow> int) \<Rightarrow> tree_op list \<Rightarrow> rb_store \<Rightarrow> rb_store option" where
  "tree_run key [] s = Some s"
| "tree_run key (p # ps) s = do { s \<leftarrow> tree_step key p s; tree_run key ps s }"

text \<open>The same run on a set of nodes; None when a node is removed that is not in the tree.\<close>

fun set_run :: "(ptr \<Rightarrow> int) \<Rightarrow> tree_op list \<Rightarrow> ptr set \<Rightarrow> ptr set option" where
  "set_run key [] A = Some A"
| "set_run key (TreeInsert a # ps) A =
     set_run key ps (if \<exists>b\<in>A. key b = key a then A else insert a A)"
| "set_run key (TreeErase a # ps) A = (if a \<in> A then set_run key ps (A - {a}) else None)"

fun op_node :: "tree_op \<Rightarrow> ptr" where
  "op_node (TreeInsert a) = a"
| "op_node (TreeErase a) = a"

definition nodes_ready :: "rb_store \<Rightarrow> ptr set \<Rightarrow> bool" where
  "nodes_ready s A \<longleftrightarrow> (\<forall>a\<in>A. node_at s a \<noteq> None \<and> aligned a)"

lemma tree_step_insert:
  assumes "rb_seq s xs" "keyed (-) (Some \<circ> key) xs" "node_at s a \<noteq> None" "aligned a"
  shows "\<exists>s' xs'. tree_step key (TreeInsert a) s = Some s' \<and> rb_seq s' xs' \<and> keyed (-) (Some \<circ> key) xs' \<and>
    set xs' = (if \<exists>b\<in>set xs. key b = key a then set xs else insert a (set xs)) \<and>
    (\<forall>b. b \<notin> set xs' \<longrightarrow> node_at s' b = node_at s b)"
proof -
  have cmp: "(\<lambda>b. Some (key b - key a)) = key_cmp (-) (Some \<circ> key) (key a)" by (simp add: key_cmp_def fun_eq_iff)
  have upd: "(Some \<circ> key)(a \<mapsto> key a) = Some \<circ> key" by (simp add: fun_eq_iff)
  have st: "tree_step key (TreeInsert a) s = do { r \<leftarrow> rb_find s (key_cmp (-) (Some \<circ> key) (key a));
      case r of Inl _ \<Rightarrow> Some s | Inr pd \<Rightarrow> rb_put s a pd }"
    by (simp add: rb_find_def rb_put_def cmp) (auto simp: rb_put_def intro!: Option.bind_cong split: sum.split)
  show ?thesis
  proof (cases "keymap (Some \<circ> key) xs (key a)")
    case None
    then have n: "\<not> (\<exists>b\<in>set xs. key b = key a)" by (auto simp: keymap_None)
    have "a \<noteq> 0" using assms(3) by auto
    then have "ptrs_ok (a # xs)" using n assms(4) rb_seq_ptrs [OF assms(1)] by (auto simp: ptrs_ok_def)
    with int_tree.find_absent [OF assms(1,2) None] assms(3) upd obtain pd s' xs' where
      "rb_find s (key_cmp (-) (Some \<circ> key) (key a)) = Some (Inr pd)" "rb_put s a pd = Some s'" "rb_seq s' xs'"
      "set xs' = insert a (set xs)" "keyed (-) (Some \<circ> key) xs'"
      "\<forall>b. b \<notin> set (a # xs) \<longrightarrow> node_at s' b = node_at s b" by metis
    then show ?thesis using st n by auto
  next
    case (Some b)
    then have "\<exists>b\<in>set xs. key b = key a" using keymap_Some [OF Some] by auto
    then show ?thesis using st int_tree.find_present [OF assms(1,2) Some] assms(1,2) by auto
  qed
qed

lemma tree_step_erase:
  assumes "rb_seq s xs" "keyed (-) (Some \<circ> key) xs" "a \<in> set xs"
  shows "\<exists>s' xs'. tree_step key (TreeErase a) s = Some s' \<and> rb_seq s' xs' \<and> keyed (-) (Some \<circ> key) xs' \<and>
    set xs' = set xs - {a} \<and> (\<forall>b. b \<notin> set xs' \<longrightarrow> node_at s' b = node_at s b)"
proof -
  have "distinct xs" using rb_seq_ptrs [OF assms(1)] by (simp add: ptrs_ok_def)
  moreover obtain s' where "hev_rbtree_erase s a = Some s'" "rb_seq s' (remove1 a xs)"
    "keyed (-) (Some \<circ> key) (remove1 a xs)" "\<forall>b. b \<notin> set (remove1 a xs) \<longrightarrow> node_at s' b = node_at s b"
    using int_tree.erase_present [OF assms, of "key a"] by auto
  ultimately show ?thesis by (intro exI [of _ s'] exI [of _ "remove1 a xs"]) simp
qed

text \<open>
  C3: From a store that represents a red-black tree, every run of insertions and removals of nodes
  succeeds with all memory accesses inside nodes, and its result again represents a red-black
  tree: no red node has a red child, all paths have as many black nodes, parent pointers are
  right, the nodes are in the order of their keys, and they are the ones that the same run on
  a set leaves.
\<close>

theorem tree_run_sorted_balanced:
  assumes "rb_seq s xs" "keyed (-) (Some \<circ> key) xs" "nodes_ready s (op_node ` set ps)"
    and "set_run key ps (set xs) = Some A"
  shows "\<exists>s' xs'. tree_run key ps s = Some s' \<and> rb_seq s' xs' \<and> keyed (-) (Some \<circ> key) xs' \<and> set xs' = A"
  using assms
proof (induction ps arbitrary: s xs)
  case (Cons p ps)
  have ready: "nodes_ready s' (op_node ` set ps)"
    if "rb_seq s' xs'" "\<forall>b. b \<notin> set xs' \<longrightarrow> node_at s' b = node_at s b" for s' xs'
    unfolding nodes_ready_def
  proof
    fix b
    assume "b \<in> op_node ` set ps"
    then have "node_at s b \<noteq> None" "aligned b" using Cons.prems(3) by (auto simp: nodes_ready_def)
    then show "node_at s' b \<noteq> None \<and> aligned b"
      using that(2) rb_seq_nodes [OF that(1), of b] by (cases "b \<in> set xs'") simp_all
  qed
  show ?case
  proof (cases p)
    case (TreeInsert a)
    have a: "node_at s a \<noteq> None" "aligned a" using Cons.prems(3) by (auto simp: TreeInsert nodes_ready_def)
    obtain s' xs' where s': "tree_step key p s = Some s'" "rb_seq s' xs'" "keyed (-) (Some \<circ> key) xs'"
      "set xs' = (if \<exists>b\<in>set xs. key b = key a then set xs else insert a (set xs))"
      "\<forall>b. b \<notin> set xs' \<longrightarrow> node_at s' b = node_at s b"
      using tree_step_insert [OF Cons.prems(1,2) a] unfolding TreeInsert by blast
    have "set_run key ps (set xs') = Some A" using Cons.prems(4) s'(4) by (simp add: TreeInsert)
    from Cons.IH [OF s'(2,3) ready [OF s'(2,5)] this] show ?thesis using s'(1) by simp
  next
    case (TreeErase a)
    then have a: "a \<in> set xs" using Cons.prems(4) by (auto split: if_splits)
    obtain s' xs' where s': "tree_step key p s = Some s'" "rb_seq s' xs'" "keyed (-) (Some \<circ> key) xs'"
      "set xs' = set xs - {a}" "\<forall>b. b \<notin> set xs' \<longrightarrow> node_at s' b = node_at s b"
      using tree_step_erase [OF Cons.prems(1,2) a] unfolding TreeErase by blast
    have "set_run key ps (set xs') = Some A" using Cons.prems(4) s'(4) a by (simp add: TreeErase)
    from Cons.IH [OF s'(2,3) ready [OF s'(2,5)] this] show ?thesis using s'(1) by simp
  qed
qed auto

definition example_nodes :: rb_store where
  "example_nodes = (let n = \<lparr>parent_color = 0, rb_right = 0, rb_left = 0\<rparr>
     in \<lparr>rb_root = 0, rb_heap = [4 \<mapsto> n, 8 \<mapsto> n, 12 \<mapsto> n]\<rparr>)"

lemma tree_run_sorted_balanced_witness:
  "\<exists>s' xs'. tree_run uint [TreeInsert 4, TreeInsert 8, TreeInsert 12, TreeErase 4] example_nodes = Some s' \<and>
     rb_seq s' xs' \<and> keyed (-) (Some \<circ> uint) xs' \<and> set xs' = {8, 12}"
proof (rule tree_run_sorted_balanced)
  show "rb_seq example_nodes []" "keyed (-) (Some \<circ> uint) []"
    by (simp_all add: example_nodes_def keyed_def Let_def)
  show "nodes_ready example_nodes (op_node ` set [TreeInsert 4, TreeInsert 8, TreeInsert 12, TreeErase 4])"
    by (simp add: nodes_ready_def example_nodes_def node_at_def deref_def aligned_def Let_def)
  show "set_run uint [TreeInsert 4, TreeInsert 8, TreeInsert 12, TreeErase 4] (set []) = Some {8, 12}"
    by auto
qed

text \<open>
  C24: A search in a red-black tree of \<open>n\<close> nodes depends on the comparison of at most
  \<open>k\<close> nodes with \<open>2 ^ (k div 2) \<le> n + 1\<close>, so it takes at most twice the logarithm of
  \<open>n + 1\<close> comparisons and one more.
\<close>

theorem rb_search_logarithmic:
  assumes "rb_seq s xs"
  shows "\<exists>A \<subseteq> set xs. 2 ^ (card A div 2) \<le> length xs + 1 \<and>
    (\<forall>cmp'. (\<forall>a\<in>A. cmp' a = cmp a) \<longrightarrow>
       rb_search s cmp' (rb_root s) 0 Lft = rb_search s cmp (rb_root s) 0 Lft)"
proof -
  obtain T where T: "srep s T" "rb_ok T" "inorder T = xs" using assms by (auto simp: rb_seq_def)
  then obtain A where A: "A \<subseteq> set xs" "card A \<le> depth T"
    "\<forall>cmp'. (\<forall>a\<in>A. cmp' a = cmp a) \<longrightarrow> rb_search s cmp' (rb_root s) 0 Lft = rb_search s cmp (rb_root s) 0 Lft"
    using rb_search_reads [of s 0 T cmp 0 Lft] by (auto simp: srep_def)
  have "(2::nat) ^ (card A div 2) \<le> 2 ^ (depth T div 2)" using A(2) by (simp add: div_le_mono)
  also have "\<dots> \<le> length xs + 1" using rb_ok_depth [OF T(2)] T(3) by simp
  finally show ?thesis using A by blast
qed

definition example_pair :: rb_store where
  "example_pair = \<lparr>rb_root = 8, rb_heap =
     [8 \<mapsto> \<lparr>parent_color = 1, rb_right = 0, rb_left = 4\<rparr>, 4 \<mapsto> \<lparr>parent_color = 8, rb_right = 0, rb_left = 0\<rparr>]\<rparr>"

lemma example_pair: "rb_seq example_pair [4, 8]"
  unfolding rb_seq_def
  by (rule exI [of _ "N Blk 8 (N Red 4 E E) E"])
    (simp add: srep_def example_pair_def node_at_def deref_def mknode_def enc_def HEV_RBTREE_BLACK_def
      HEV_RBTREE_RED_def rb_ok_def ptrs_ok_def aligned_def)

lemma rb_search_logarithmic_witness:
  "\<exists>A \<subseteq> set [4, 8]. 2 ^ (card A div 2) \<le> length [4, 8 :: ptr] + 1 \<and>
    (\<forall>cmp'. (\<forall>a\<in>A. cmp' a = Some (uint a - 4)) \<longrightarrow>
       rb_search example_pair cmp' (rb_root example_pair) 0 Lft =
       rb_search example_pair (\<lambda>a. Some (uint a - 4)) (rb_root example_pair) 0 Lft)"
  by (rule rb_search_logarithmic [OF example_pair])

text \<open>
  C25: The traversal functions walk through the nodes in order: first and last are the ends of the
  sequence, next and prev the neighbours of a node, and NULL is returned past the ends.
\<close>

theorem tree_traversal:
  assumes "rb_seq s (ls @ a # rs)"
  shows "hev_rbtree_node_next s a = Some (if rs = [] then 0 else hd rs) \<and>
    hev_rbtree_node_prev s a = Some (if ls = [] then 0 else last ls) \<and>
    hev_rbtree_first s = Some (hd (ls @ [a])) \<and> hev_rbtree_last s = Some (last (a # rs))"
  using rb_seq_neighbours [OF assms] rb_seq_first_last [OF assms] by (cases ls) auto

lemma tree_traversal_witness:
  "hev_rbtree_node_next example_pair 4 = Some 8 \<and> hev_rbtree_node_prev example_pair 4 = Some 0 \<and>
    hev_rbtree_first example_pair = Some 4 \<and> hev_rbtree_last example_pair = Some 8"
  using tree_traversal [of example_pair "[]" 4 "[8]"] example_pair by simp

end
