(* ===== verification/MappedDNSTable.thy ===== *)
theory MappedDNSTable
  imports MappedDNSFacts RBTreeIndex
begin

text \<open>
  The table of the mapped DNS refines a cache: a list of names with their indices, the least
  recently used first. Finding a name moves it to the end, or adds it there with a fresh index or
  with the index of the name it evicts; looking an index up moves its name to the end. The tree,
  the list and the array of the table are tied to that list by one invariant.
\<close>

section \<open>The cache\<close>

type_synonym cache = "(byte list \<times> int) list"

definition cache_find :: "nat \<Rightarrow> byte list \<Rightarrow> cache \<Rightarrow> int \<times> cache" where
  "cache_find mx n c = (case List.find (\<lambda>e. fst e = n) c of
     Some e \<Rightarrow> (snd e, remove1 e c @ [e])
   | None \<Rightarrow> if length c < mx then (int (length c), c @ [(n, int (length c))])
       else (snd (hd c), tl c @ [(n, snd (hd c))]))"

definition cache_lookup :: "int \<Rightarrow> cache \<Rightarrow> byte list option \<times> cache" where
  "cache_lookup i c = (case List.find (\<lambda>e. snd e = i) c of
     Some e \<Rightarrow> (Some (fst e), remove1 e c @ [e]) | None \<Rightarrow> (None, c))"

section \<open>The order of names\<close>

lemma c_strcmp_zero: "c_strcmp x y = 0 \<longleftrightarrow> x = y"
  by (induction x y rule: c_strcmp.induct) auto

lemma c_strcmp_anti: "c_strcmp y x = - c_strcmp x y"
  by (induction x y rule: c_strcmp.induct) auto

lemma c_strcmp_trans: "0 < c_strcmp x y \<Longrightarrow> 0 < c_strcmp y z \<Longrightarrow> 0 < c_strcmp x z"
proof (induction x y arbitrary: z rule: c_strcmp.induct)
  case (3 x xs)
  then show ?case by (cases z) auto
next
  case (4 x xs y ys)
  then show ?case by (cases z) (auto split: if_splits)
qed auto

interpretation names: keyed_index rb_seq node_at rb_find rb_put hev_rbtree_erase hev_rbtree_first c_strcmp
proof unfold_locales
  fix x y z
  show "c_strcmp x y = 0 \<longleftrightarrow> x = y" by (rule c_strcmp_zero)
  show "sgn (c_strcmp y x) = - sgn (c_strcmp x y)" using c_strcmp_anti [of x y] by (simp add: sgn_minus)
  show "0 < c_strcmp x y \<Longrightarrow> 0 < c_strcmp y z \<Longrightarrow> 0 < c_strcmp x z" by (rule c_strcmp_trans)
qed

definition dnames :: "HevMappedDNS \<Rightarrow> ptr \<Rightarrow> byte list option" where
  "dnames self a = Option.bind (deref (md_data self) a) dn_name"

lemma dns_cmp_eq: "dns_cmp self name = key_cmp c_strcmp (dnames self) name"
  by (auto simp: dns_cmp_def key_cmp_def dnames_def fun_eq_iff split: bind_splits)

section \<open>The invariant\<close>

definition dns_node :: "HevMappedDNS \<Rightarrow> ptr \<Rightarrow> byte list \<times> int" where
  "dns_node self a = (the (dn_name (the (md_data self a))), dn_idx (the (md_data self a)))"

definition dns_data_ok :: "HevMappedDNS \<Rightarrow> ptr list \<Rightarrow> bool" where
  "dns_data_ok self xs \<longleftrightarrow>
     (\<forall>a\<in>set xs. \<exists>nm i. md_data self a = Some \<lparr>dn_name = Some nm, dn_idx = int i\<rparr> \<and>
        i < length xs \<and> md_records self ! i = a) \<and>
     (\<forall>j<length (md_records self).
        if j < length xs then md_records self ! j \<in> set xs \<and> snd (dns_node self (md_records self ! j)) = int j
        else md_records self ! j = 0)"

definition dns_table :: "HevMappedDNS \<Rightarrow> ptr list \<Rightarrow> bool" where
  "dns_table self xs \<longleftrightarrow>
     list_rep (md_list self) (md_links self) xs \<and>
     (\<exists>ts. rb_seq (md_tree self) ts \<and> keyed c_strcmp (dnames self) ts \<and> set ts = set xs) \<and>
     md_use self = int (length xs) \<and> int (length (md_records self)) = md_max self \<and>
     length xs \<le> length (md_records self) \<and> dns_data_ok self xs"

lemma dns_table_ptrs:
  assumes "dns_table self xs"
  shows "distinct xs" "\<forall>a\<in>set xs. a \<noteq> 0 \<and> aligned a \<and> a \<in> dom (md_links self)"
proof -
  obtain ts where ts: "rb_seq (md_tree self) ts" "set ts = set xs" using assms by (auto simp: dns_table_def)
  have l: "list_rep (md_list self) (md_links self) xs" using assms by (simp add: dns_table_def)
  show "distinct xs" using hev.rep_distinct [OF l] .
  show "\<forall>a\<in>set xs. a \<noteq> 0 \<and> aligned a \<and> a \<in> dom (md_links self)"
    using hev.rep_live [OF l] rb_seq_ptrs [OF ts(1)] ts(2) by (auto simp: ptrs_ok_def)
qed

lemma dns_data:
  assumes "dns_table self xs" "a \<in> set xs"
  obtains nm i where "md_data self a = Some \<lparr>dn_name = Some nm, dn_idx = int i\<rparr>" "i < length xs"
    "md_records self ! i = a" "deref (md_data self) a = Some \<lparr>dn_name = Some nm, dn_idx = int i\<rparr>"
    "dns_node self a = (nm, int i)" "dnames self a = Some nm"
  using assms dns_table_ptrs(2) [OF assms(1)]
  by (fastforce simp: dns_table_def dns_data_ok_def deref_def dns_node_def dnames_def)

text \<open>Moving a node to the end of the list.\<close>

lemma dns_data_ok_perm:
  assumes "dns_data_ok self xs" "set ys = set xs" "length ys = length xs"
    "md_data self' = md_data self" "md_records self' = md_records self"
  shows "dns_data_ok self' ys"
proof -
  have "dns_node self' = dns_node self" using assms(4) by (simp add: dns_node_def fun_eq_iff)
  then show ?thesis using assms by (simp add: dns_data_ok_def)
qed

lemma dns_touch_table:
  assumes "dns_table self xs" "a \<in> set xs"
  shows "\<exists>self'. dns_touch self a = Some self' \<and> dns_table self' (remove1 a xs @ [a]) \<and>
    md_data self' = md_data self \<and> md_max self' = md_max self \<and> md_net self' = md_net self \<and>
    md_mask self' = md_mask self \<and> md_alloc self' = md_alloc self"
proof -
  have l: "list_rep (md_list self) (md_links self) xs" using assms by (simp add: dns_table_def)
  obtain l' h' where lh: "(do { (l, h) \<leftarrow> hev_list_del (md_list self) (md_links self) a; hev_list_add_tail l h a }) =
      Some (l', h')" "list_rep l' h' (remove1 a xs @ [a])"
    using hev.touch [OF l assms(2)] by blast
  let ?s = "self\<lparr>md_list := l', md_links := h'\<rparr>"
  have "dns_touch self a = Some ?s" using lh(1) by (auto simp: dns_touch_def split: bind_splits)
  moreover have "set (remove1 a xs @ [a]) = set xs" "length (remove1 a xs @ [a]) = length xs"
    using assms(2) dns_table_ptrs(1) [OF assms(1)] length_pos_if_in_set [OF assms(2)] by (auto simp: length_remove1)
  moreover have "dnames ?s = dnames self" by (simp add: dnames_def fun_eq_iff)
  ultimately show ?thesis
    using assms(1) lh(2) dns_data_ok_perm [of self xs "remove1 a xs @ [a]" ?s] by (simp add: dns_table_def)
qed

section \<open>The entries\<close>

definition dns_entries :: "HevMappedDNS \<Rightarrow> ptr list \<Rightarrow> cache" where
  "dns_entries self xs = map (dns_node self) xs"

lemma find_unique: "a \<in> set xs \<Longrightarrow> P a \<Longrightarrow> (\<And>b. b \<in> set xs \<Longrightarrow> P b \<Longrightarrow> b = a) \<Longrightarrow> List.find P xs = Some a"
proof -
  assume a: "a \<in> set xs" "P a" and u: "\<And>b. b \<in> set xs \<Longrightarrow> P b \<Longrightarrow> b = a"
  have "List.find P xs \<noteq> None" using a by (auto simp: find_None_iff)
  then obtain b where b: "List.find P xs = Some b" by blast
  then have "b = a" by (intro u) (auto simp: find_Some_iff)
  then show ?thesis using b by simp
qed

lemma map_remove1_inj: "inj_on f (set xs) \<Longrightarrow> a \<in> set xs \<Longrightarrow> map f (remove1 a xs) = remove1 (f a) (map f xs)"
proof (induction xs)
  case (Cons x xs)
  then show ?case by (cases "a = x") (auto simp: inj_on_def)
qed simp

lemma dns_idx_inj:
  assumes "dns_table self xs" "a \<in> set xs" "b \<in> set xs" "snd (dns_node self a) = snd (dns_node self b)"
  shows "a = b"
  using assms(4) dns_data [OF assms(1,2)] dns_data [OF assms(1,3)] by (metis of_nat_eq_iff snd_conv)

lemma dns_names:
  assumes "dns_table self xs" "a \<in> set xs"
  shows "dnames self a = Some (fst (dns_node self a))"
  using dns_data [OF assms] by (metis fst_conv)

lemma entries_touch:
  assumes "dns_table self xs" "a \<in> set xs" "md_data self' = md_data self"
  shows "dns_entries self' (remove1 a xs @ [a]) =
    remove1 (dns_node self a) (dns_entries self xs) @ [dns_node self a]"
proof -
  have "inj_on (dns_node self) (set xs)" using dns_idx_inj [OF assms(1)] by (auto intro: inj_onI)
  moreover have "dns_node self' = dns_node self" using assms(3) by (simp add: dns_node_def fun_eq_iff)
  ultimately show ?thesis using assms(2) by (simp add: dns_entries_def map_remove1_inj)
qed

text \<open>Whether a name is found in the tree and in the entries is the same.\<close>

lemma dns_find_entry:
  assumes "dns_table self xs"
  obtains ts where "rb_seq (md_tree self) ts" "keyed c_strcmp (dnames self) ts" "set ts = set xs"
    "List.find (\<lambda>e. fst e = name) (dns_entries self xs) =
       map_option (dns_node self) (keymap (dnames self) ts name)"
proof -
  obtain ts where ts: "rb_seq (md_tree self) ts" "keyed c_strcmp (dnames self) ts" "set ts = set xs"
    using assms by (auto simp: dns_table_def)
  have "List.find (\<lambda>e. fst e = name) (dns_entries self xs) =
      map_option (dns_node self) (keymap (dnames self) ts name)"
  proof (cases "keymap (dnames self) ts name")
    case None
    then have "\<forall>a\<in>set xs. fst (dns_node self a) \<noteq> name"
      using dns_names [OF assms] ts(3) by (auto simp: keymap_None)
    then show ?thesis using None by (auto simp: find_None_iff dns_entries_def)
  next
    case (Some a)
    then have a: "a \<in> set ts" "dnames self a = Some name" using names.keymap_eq_Some [OF ts(2)] by simp_all
    then have "fst (dns_node self a) = name" using dns_names [OF assms, of a] ts(3) by simp
    moreover have "dns_node self a \<in> set (dns_entries self xs)" using a(1) ts(3) by (simp add: dns_entries_def)
    moreover have "e = dns_node self a" if e: "e \<in> set (dns_entries self xs)" "fst e = name" for e
    proof -
      have "e \<in> dns_node self ` set xs" using e(1) by (simp add: dns_entries_def)
      then obtain b where b: "b \<in> set xs" "e = dns_node self b" by blast
      then have "b = a" using names.keyed_unique [OF ts(2), of b a] dns_names [OF assms b(1)] e(2) a ts(3) by simp
      then show ?thesis using b(2) by simp
    qed
    ultimately have "List.find (\<lambda>e. fst e = name) (dns_entries self xs) = Some (dns_node self a)"
      by (intro find_unique)
    then show ?thesis using Some by simp
  qed
  with ts show thesis by (rule that)
qed

section \<open>Finding a name\<close>

text \<open>What an operation leaves alone.\<close>

definition same_net :: "HevMappedDNS \<Rightarrow> HevMappedDNS \<Rightarrow> bool" where
  "same_net self self' \<longleftrightarrow> md_net self' = md_net self \<and> md_mask self' = md_mask self \<and> md_max self' = md_max self"

lemma dns_find_present:
  assumes t: "dns_table self xs" and e: "List.find (\<lambda>e. fst e = name) (dns_entries self xs) = Some e"
  shows "\<exists>self' xs'. hev_mapped_dns_find self name = Some (snd e, self') \<and> dns_table self' xs' \<and>
    dns_entries self' xs' = remove1 e (dns_entries self xs) @ [e] \<and> same_net self self' \<and>
    set xs' = set xs \<and> md_alloc self' = md_alloc self"
proof -
  obtain ts where ts: "rb_seq (md_tree self) ts" "keyed c_strcmp (dnames self) ts" "set ts = set xs"
    "List.find (\<lambda>e. fst e = name) (dns_entries self xs) = map_option (dns_node self) (keymap (dnames self) ts name)"
    using t by (rule dns_find_entry)
  then obtain a where a: "keymap (dnames self) ts name = Some a" "e = dns_node self a"
    using e by (cases "keymap (dnames self) ts name") auto
  have ax: "a \<in> set xs" using keymap_Some [OF a(1)] ts(3) by simp
  have f: "rb_search (md_tree self) (dns_cmp self name) (rb_root (md_tree self)) 0 Lft = Some (Inl a)"
    using names.find_present [OF ts(1,2) a(1)] by (simp add: rb_find_def dns_cmp_eq)
  obtain self' where s': "dns_touch self a = Some self'" "dns_table self' (remove1 a xs @ [a])"
    "md_data self' = md_data self" "same_net self self'" "md_alloc self' = md_alloc self"
    using dns_touch_table [OF t ax] by (auto simp: same_net_def)
  obtain nm i where d: "deref (md_data self) a = Some \<lparr>dn_name = Some nm, dn_idx = int i\<rparr>"
    "dns_node self a = (nm, int i)" using dns_data [OF t ax] by metis
  have "hev_mapped_dns_find self name = Some (snd e, self')"
    using f s'(1,3) d a(2) by (simp add: hev_mapped_dns_find_def)
  moreover have "dns_entries self' (remove1 a xs @ [a]) = remove1 e (dns_entries self xs) @ [e]"
    using entries_touch [OF t ax s'(3)] a(2) by simp
  moreover have "set (remove1 a xs @ [a]) = set xs" using ax dns_table_ptrs(1) [OF t] by auto
  ultimately show ?thesis using s'(2,4,5) by blast
qed

text \<open>The heaps after a node was allocated.\<close>

definition dns_grown :: "HevMappedDNS \<Rightarrow> ptr \<Rightarrow> byte list \<Rightarrow> (ptr \<times> bool) list \<Rightarrow> HevMappedDNS" where
  "dns_grown self a name rest = self\<lparr>md_alloc := rest,
     md_tree := (md_tree self)\<lparr>rb_heap := (rb_heap (md_tree self))(a \<mapsto>
       \<lparr>parent_color = 0, rb_right = 0, rb_left = 0\<rparr>)\<rparr>,
     md_links := (md_links self)(a \<mapsto> \<lparr>ln_next = 0, ln_prev = 0\<rparr>),
     md_data := (md_data self)(a \<mapsto> \<lparr>dn_name = Some name, dn_idx = 0\<rparr>)\<rparr>"

lemma node_alloc_grown:
  assumes "md_alloc self = (a, True) # rest" "a \<noteq> 0"
  shows "hev_mapped_dns_node_alloc self name = (a, dns_grown self a name rest)"
  using assms by (simp add: hev_mapped_dns_node_alloc_def dns_grown_def)

lemma dns_link:
  assumes t: "dns_table self xs" and e: "List.find (\<lambda>e. fst e = name) (dns_entries self xs) = None"
    and a: "a \<noteq> 0" "aligned a" "a \<notin> set xs"
  shows "\<exists>p d t s1 l h. rb_search (md_tree self) (dns_cmp self name) (rb_root (md_tree self)) 0 Lft = Some (Inr (p, d)) \<and>
    hev_rbtree_node_link (md_tree (dns_grown self a name rest)) a p d = Some s1 \<and>
    hev_rbtree_insert_color s1 a = Some t \<and>
    hev_list_add_tail (md_list self) (md_links (dns_grown self a name rest)) a = Some (l, h) \<and>
    list_rep l h (xs @ [a]) \<and>
    (\<exists>ts. rb_seq t ts \<and> keyed c_strcmp (dnames (dns_grown self a name rest)) ts \<and> set ts = insert a (set xs))"
proof -
  let ?g = "dns_grown self a name rest"
  obtain ts where ts: "rb_seq (md_tree self) ts" "keyed c_strcmp (dnames self) ts" "set ts = set xs"
    "List.find (\<lambda>e. fst e = name) (dns_entries self xs) = map_option (dns_node self) (keymap (dnames self) ts name)"
    using t by (rule dns_find_entry)
  have k: "keymap (dnames self) ts name = None" using e ts(4) by (cases "keymap (dnames self) ts name") auto
  have n: "node_at (md_tree ?g) b = node_at (md_tree self) b" if "b \<noteq> a" for b
    using that by (simp add: dns_grown_def node_at_def deref_def)
  have r: "rb_root (md_tree ?g) = rb_root (md_tree self)" by (simp add: dns_grown_def)
  have g: "rb_seq (md_tree ?g) ts" using a(3) ts(3) r by (intro rb_seq_cong [OF ts(1)] n) auto
  have f: "rb_find (md_tree ?g) cmp = rb_find (md_tree self) cmp" for cmp
    using a(3) ts(3) r by (intro rb_find_cong [OF ts(1)] n) auto
  have dn: "dnames ?g = (dnames self)(a \<mapsto> name)"
    using a(1) by (auto simp: dnames_def dns_grown_def deref_def fun_eq_iff)
  have "node_at (md_tree ?g) a \<noteq> None" using a(1) by (simp add: dns_grown_def node_at_def deref_def)
  moreover have "ptrs_ok (a # ts)" using a ts(3) rb_seq_ptrs [OF ts(1)] by (auto simp: ptrs_ok_def)
  ultimately have ready: "node_at (md_tree ?g) a \<noteq> None \<and> ptrs_ok (a # ts)" ..
  obtain pd where pd: "rb_find (md_tree ?g) (key_cmp c_strcmp (dnames self) name) = Some (Inr pd)"
    and put: "\<forall>b. node_at (md_tree ?g) b \<noteq> None \<and> ptrs_ok (b # ts) \<longrightarrow> (\<exists>s' xs'. rb_put (md_tree ?g) b pd = Some s' \<and>
        rb_seq s' xs' \<and> set xs' = insert b (set ts) \<and> keyed c_strcmp ((dnames self)(b \<mapsto> name)) xs' \<and>
        keymap ((dnames self)(b \<mapsto> name)) xs' = (keymap (dnames self) ts)(name \<mapsto> b) \<and>
        (\<forall>c. c \<notin> set (b # ts) \<longrightarrow> node_at s' c = node_at (md_tree ?g) c))"
    using names.find_absent [OF g ts(2) k] by (elim exE conjE) (rule that)
  obtain t ts' where t': "rb_put (md_tree ?g) a pd = Some t" "rb_seq t ts'" "set ts' = insert a (set ts)"
    "keyed c_strcmp ((dnames self)(a \<mapsto> name)) ts'"
    using put [THEN spec, THEN mp, OF ready] by (elim exE conjE) (rule that)
  obtain s1 where s1: "hev_rbtree_node_link (md_tree ?g) a (fst pd) (snd pd) = Some s1"
    "hev_rbtree_insert_color s1 a = Some t" using t'(1) by (auto simp: rb_put_def split: bind_splits)
  have "list_rep (md_list self) (md_links self) xs" using t by (simp add: dns_table_def)
  then have l: "list_rep (md_list self) (md_links ?g) xs"
    by (rule list_rep_frame) (use a(3) in \<open>auto simp: dns_grown_def\<close>)
  have "a \<in> dom (md_links ?g) - {0}" using a(1) by (simp add: dns_grown_def)
  then obtain l' h' where "hev_list_add_tail (md_list self) (md_links ?g) a = Some (l', h')" "list_rep l' h' (xs @ [a])"
    using hev.add_tail_law [OF l a(3)] by blast
  moreover have "rb_search (md_tree self) (dns_cmp self name) (rb_root (md_tree self)) 0 Lft = Some (Inr (fst pd, snd pd))"
    using pd f by (simp add: rb_find_def dns_cmp_eq)
  ultimately show ?thesis using s1 t'(2-4) ts(3) unfolding dn by metis
qed

text \<open>A free index is taken.\<close>

lemma dns_fill:
  assumes t: "dns_table self xs" and a: "a \<noteq> 0" "a \<notin> set xs" and mx: "length xs < length (md_records self)"
    and l: "list_rep l h (xs @ [a])" "rb_seq t ts" "keyed c_strcmp (dnames (dns_grown self a name rest)) ts"
      "set ts = insert a (set xs)"
    and s': "self' = (dns_grown self a name rest)\<lparr>md_tree := t, md_list := l, md_links := h,
      md_use := md_use self + 1, md_records := (md_records self)[length xs := a],
      md_data := (md_data self)(a \<mapsto> \<lparr>dn_name = Some name, dn_idx = int (length xs)\<rparr>)\<rparr>"
  shows "dns_table self' (xs @ [a]) \<and>
    dns_entries self' (xs @ [a]) = dns_entries self xs @ [(name, int (length xs))]"
proof -
  have n: "dns_node self' b = (if b = a then (name, int (length xs)) else dns_node self b)" for b
    by (simp add: dns_node_def s')
  have "dnames self' = dnames (dns_grown self a name rest)"
    by (auto simp: dnames_def s' dns_grown_def deref_def fun_eq_iff)
  moreover have "dns_data_ok self' (xs @ [a])"
    unfolding dns_data_ok_def
  proof (intro conjI ballI allI impI)
    fix b
    assume b: "b \<in> set (xs @ [a])"
    show "\<exists>nm i. md_data self' b = Some \<lparr>dn_name = Some nm, dn_idx = int i\<rparr> \<and> i < length (xs @ [a]) \<and> md_records self' ! i = b"
    proof (cases "b = a")
      case True
      then show ?thesis using mx by (auto simp: s')
    next
      case False
      then obtain nm i where "md_data self b = Some \<lparr>dn_name = Some nm, dn_idx = int i\<rparr>" "i < length xs" "md_records self ! i = b"
        using b dns_data [OF t, of b] by (metis Un_iff empty_iff empty_set insert_iff list.simps(15) set_append)
      then show ?thesis using False by (auto simp: s')
    qed
  next
    fix j
    assume "j < length (md_records self')"
    then have "if j < length xs then md_records self ! j \<in> set xs \<and> snd (dns_node self (md_records self ! j)) = int j
        else md_records self ! j = 0"
      using t by (simp add: dns_table_def dns_data_ok_def s')
    then show "if j < length (xs @ [a])
       then md_records self' ! j \<in> set (xs @ [a]) \<and> snd (dns_node self' (md_records self' ! j)) = int j
       else md_records self' ! j = 0"
      using a(2) mx unfolding n by (cases "j = length xs") (auto simp: s' split: if_splits)
  qed
  moreover have "map (dns_node self') xs = map (dns_node self) xs" using a(2) n by auto
  ultimately show ?thesis
    using t l mx n by (auto simp: dns_table_def dns_entries_def s' dns_grown_def)
qed

text \<open>The least recently used name is evicted, and its index is taken.\<close>

definition dns_evicted ::
  "HevMappedDNS \<Rightarrow> ptr \<Rightarrow> byte list \<Rightarrow> (ptr \<times> bool) list \<Rightarrow> ptr \<Rightarrow> nat \<Rightarrow> rb_store \<Rightarrow> HevList \<Rightarrow> list_heap \<Rightarrow> HevMappedDNS" where
  "dns_evicted self a name rest v i t l h =
     (dns_grown self a name rest)\<lparr>md_tree := t\<lparr>rb_heap := (rb_heap t)(v := None)\<rparr>, md_list := l,
       md_links := h(v := None), md_records := (md_records self)[i := a],
       md_data := ((md_data self)(v := None))(a \<mapsto> \<lparr>dn_name = Some name, dn_idx = int i\<rparr>)\<rparr>"

lemma dns_evict:
  assumes t: "dns_table self (v # ys)" and a: "a \<noteq> 0" "a \<notin> set (v # ys)" and mx: "length (v # ys) = length (md_records self)"
    and i: "dns_node self v = (nm, int i)" "i < length (v # ys)" "md_records self ! i = v"
    and l: "list_rep l h (ys @ [a])" "rb_seq tr ts" "keyed c_strcmp (dnames (dns_grown self a name rest)) ts"
      "set ts = insert a (set ys)"
    and s': "self' = dns_evicted self a name rest v i tr l h"
  shows "dns_table self' (ys @ [a]) \<and> dns_entries self' (ys @ [a]) = dns_entries self ys @ [(name, int i)]"
proof -
  have vy: "v \<notin> set ys" "v \<noteq> a" "v \<notin> set ts" using dns_table_ptrs(1) [OF t] a l(4) by auto
  have n: "dns_node self' b = (if b = a then (name, int i) else dns_node self b)" if "b \<noteq> v" for b
    using that by (simp add: dns_node_def s' dns_evicted_def)
  have "keyed c_strcmp (dnames self') ts"
    using l(3) vy(3) a(1) by (subst keyed_cong [where nm' = "dnames (dns_grown self a name rest)"])
      (auto simp: dnames_def s' dns_evicted_def dns_grown_def deref_def)
  moreover have "rb_seq (md_tree self') ts"
    using vy(3) by (intro rb_seq_cong [OF l(2)]) (auto simp: s' dns_evicted_def node_at_def deref_def)
  moreover have "list_rep (md_list self') (md_links self') (ys @ [a])"
    using l(1) vy by (auto simp: s' dns_evicted_def intro: list_rep_frame)
  moreover have "dns_data_ok self' (ys @ [a])"
    unfolding dns_data_ok_def
  proof (intro conjI ballI allI impI)
    fix b
    assume b: "b \<in> set (ys @ [a])"
    show "\<exists>nm i. md_data self' b = Some \<lparr>dn_name = Some nm, dn_idx = int i\<rparr> \<and> i < length (ys @ [a]) \<and> md_records self' ! i = b"
    proof (cases "b = a")
      case True
      then show ?thesis using i(2) mx by (auto simp: s' dns_evicted_def)
    next
      case False
      then have bv: "b \<in> set (v # ys)" "b \<noteq> v" using b vy by auto
      then obtain nm j where "md_data self b = Some \<lparr>dn_name = Some nm, dn_idx = int j\<rparr>" "j < length (v # ys)" "md_records self ! j = b"
        using dns_data [OF t bv(1)] by metis
      moreover from this have "i \<noteq> j" using bv(2) i(3) by auto
      ultimately show ?thesis using False bv(2) by (auto simp: s' dns_evicted_def)
    qed
  next
    fix j
    assume j: "j < length (md_records self')"
    then have rj: "md_records self ! j \<in> set (v # ys)" "snd (dns_node self (md_records self ! j)) = int j"
      using t mx by (auto simp: dns_table_def dns_data_ok_def s' dns_evicted_def)
    have r: "md_records self' = (md_records self)[i := a]" by (simp add: s' dns_evicted_def)
    show "if j < length (ys @ [a])
       then md_records self' ! j \<in> set (ys @ [a]) \<and> snd (dns_node self' (md_records self' ! j)) = int j
       else md_records self' ! j = 0"
    proof (cases "j = i")
      case True
      then show ?thesis using r i(2) mx n [of a] vy(2) by simp
    next
      case False
      have "md_records self ! j \<noteq> v" using rj(2) i(1) False by auto
      moreover from this have "md_records self ! j \<in> set ys" "md_records self ! j \<noteq> a" using rj(1) a(2) by auto
      ultimately show ?thesis using r j mx n [of "md_records self ! j"] False rj(2) by simp
    qed
  qed
  moreover have "map (dns_node self') ys = map (dns_node self) ys"
  proof (rule map_cong [OF refl])
    fix b
    assume "b \<in> set ys"
    then have "b \<noteq> v" "b \<noteq> a" using a(2) vy(1) by auto
    then show "dns_node self' b = dns_node self b" using n by simp
  qed
  moreover have "dns_node self' a = (name, int i)" using n vy by simp
  ultimately show ?thesis
    using t l(4) mx by (auto simp: dns_table_def dns_entries_def s' dns_evicted_def dns_grown_def)
qed

lemma dns_find_absent:
  assumes t: "dns_table self xs" and e: "List.find (\<lambda>e. fst e = name) (dns_entries self xs) = None"
    and mx: "0 < md_max self" and al: "md_alloc self = (a, True) # rest" "a \<noteq> 0" "aligned a" "a \<notin> set xs"
  shows "\<exists>self' xs'. hev_mapped_dns_find self name = Some (fst (cache_find (nat (md_max self)) name (dns_entries self xs)), self') \<and>
    dns_table self' xs' \<and> dns_entries self' xs' = snd (cache_find (nat (md_max self)) name (dns_entries self xs)) \<and>
    same_net self self' \<and> set xs' \<subseteq> insert a (set xs) \<and> md_alloc self' = rest"
proof -
  let ?g = "dns_grown self a name rest"
  obtain p d t1 s1 l h ts where st: "rb_search (md_tree self) (dns_cmp self name) (rb_root (md_tree self)) 0 Lft = Some (Inr (p, d))"
    "hev_rbtree_node_link (md_tree ?g) a p d = Some s1" "hev_rbtree_insert_color s1 a = Some t1"
    "hev_list_add_tail (md_list self) (md_links ?g) a = Some (l, h)" "list_rep l h (xs @ [a])"
    "rb_seq t1 ts" "keyed c_strcmp (dnames ?g) ts" "set ts = insert a (set xs)"
    using dns_link [OF t e al(2-4), of rest] by blast
  have u: "md_use self = int (length xs)" "int (length (md_records self)) = md_max self" "length xs \<le> length (md_records self)"
    using t by (simp_all add: dns_table_def)
  have g: "md_use ?g = md_use self" "md_max ?g = md_max self" "md_list ?g = md_list self" "md_records ?g = md_records self"
    "md_data ?g = (md_data self)(a \<mapsto> \<lparr>dn_name = Some name, dn_idx = 0\<rparr>)"
    by (simp_all add: dns_grown_def)
  have lc: "length (dns_entries self xs) = length xs" "nat (md_max self) = length (md_records self)"
    using u(2) by (simp_all add: dns_entries_def)
  show ?thesis
  proof (cases "length xs < length (md_records self)")
    case True
    define self' where "self' = ?g\<lparr>md_tree := t1, md_list := l, md_links := h, md_use := md_use self + 1,
      md_records := (md_records self)[length xs := a],
      md_data := (md_data self)(a \<mapsto> \<lparr>dn_name = Some name, dn_idx = int (length xs)\<rparr>)\<rparr>"
    have "hev_mapped_dns_find self name = Some (int (length xs), self')"
      using st(1-4) True u al(2) g
      by (simp add: hev_mapped_dns_find_def node_alloc_grown [OF al(1,2)] Let_def deref_def self'_def)
    moreover have "cache_find (nat (md_max self)) name (dns_entries self xs) =
        (int (length xs), dns_entries self xs @ [(name, int (length xs))])"
      using e True u lc by (simp add: cache_find_def)
    moreover have "dns_table self' (xs @ [a]) \<and> dns_entries self' (xs @ [a]) = dns_entries self xs @ [(name, int (length xs))]"
      using st(5-8) True t al(2,4) by (intro dns_fill [OF _ _ _ _ _ _ _ _ self'_def]) auto
    moreover have "same_net self self'" "md_alloc self' = rest" by (simp_all add: same_net_def self'_def dns_grown_def)
    ultimately show ?thesis by (intro exI [of _ self'] exI [of _ "xs @ [a]"]) auto
  next
    case False
    then obtain v ys where xs: "xs = v # ys" using u mx by (cases xs) auto
    have n: "length (v # ys) = length (md_records self)" using False u(3) by (simp add: xs)
    obtain nm i where v: "md_data self v = Some \<lparr>dn_name = Some nm, dn_idx = int i\<rparr>" "i < length (v # ys)"
      "md_records self ! i = v" "dns_node self v = (nm, int i)"
      using dns_data [OF t, of v] by (metis list.set_intros(1) xs)
    have va: "v \<noteq> a" "v \<noteq> 0" "v \<notin> set ys" using al(4) dns_table_ptrs [OF t] by (auto simp: xs)
    have "dnames ?g v = Some nm" using v(1) va by (simp add: dnames_def g(5) deref_def)
    moreover have "v \<in> set ts" by (simp add: st(8) xs)
    ultimately obtain t2 where t2: "hev_rbtree_erase t1 v = Some t2" "rb_seq t2 (remove1 v ts)"
      "keyed c_strcmp (dnames ?g) (remove1 v ts)" using names.erase_present [OF st(6,7)] by metis
    have "set (remove1 v ts) = insert a (set ys)" using rb_seq_ptrs [OF st(6)] st(8) va by (auto simp: ptrs_ok_def xs)
    moreover obtain l2 h2 where l2: "hev_list_first l = v" "hev_list_del l h v = Some (l2, h2)" "list_rep l2 h2 (ys @ [a])"
      using hev.pop_first [of l h v "ys @ [a]"] st(5) by (auto simp: xs)
    define self' where "self' = dns_evicted self a name rest v i t2 l2 h2"
    have upd: "(md_data self)(a \<mapsto> x, v := None, a \<mapsto> y) = (md_data self)(v := None, a \<mapsto> y)" for x y
      by (auto simp: fun_eq_iff)
    have "hev_mapped_dns_find self name = Some (int i, self')"
      using st(1-4) n u al(2) va v(1,2) g l2(1,2) t2(1) upd
      by (simp add: xs hev_mapped_dns_find_def node_alloc_grown [OF al(1,2)] Let_def deref_def
          hev_mapped_dns_node_free_def self'_def dns_evicted_def)
    moreover have "cache_find (nat (md_max self)) name (dns_entries self xs) =
        (int i, dns_entries self ys @ [(name, int i)])"
      using e lc n v(4) by (simp add: cache_find_def xs dns_entries_def)
    moreover have "dns_table self' (ys @ [a]) \<and> dns_entries self' (ys @ [a]) = dns_entries self ys @ [(name, int i)]"
      using t2(2,3) l2(3) t al(2,4) n v(2-4) calculation(1) unfolding xs by (intro dns_evict [OF _ _ _ _ _ _ _ _ _ _ _ self'_def]) auto
    moreover have "same_net self self'" "md_alloc self' = rest"
      by (simp_all add: same_net_def self'_def dns_evicted_def dns_grown_def)
    ultimately show ?thesis by (intro exI [of _ self'] exI [of _ "ys @ [a]"]) (auto simp: xs)
  qed
qed

section \<open>Looking an address up\<close>

lemma dns_find_index:
  assumes "dns_table self xs" "a \<in> set xs" "dns_node self a = e"
  shows "List.find (\<lambda>e'. snd e' = snd e) (dns_entries self xs) = Some e"
proof (intro find_unique)
  show "e \<in> set (dns_entries self xs)" using assms(2,3) by (auto simp: dns_entries_def)
  fix b
  assume "b \<in> set (dns_entries self xs)" and b: "snd b = snd e"
  then obtain c where "c \<in> set xs" "b = dns_node self c" by (auto simp: dns_entries_def)
  then show "b = e" using dns_idx_inj [OF assms(1), of c a] assms(2,3) b by simp
qed simp

lemma dns_lookup_cache:
  assumes t: "dns_table self xs" and i: "i = sint (ip AND NOT (md_mask self))" "0 \<le> i"
  shows "\<exists>self' xs'. hev_mapped_dns_lookup self ip = Some (fst (cache_lookup i (dns_entries self xs)), self') \<and>
    dns_table self' xs' \<and> dns_entries self' xs' = snd (cache_lookup i (dns_entries self xs)) \<and> same_net self self'"
proof (cases "i < int (length xs)")
  case False
  have "snd e < int (length xs)" if "e \<in> set (dns_entries self xs)" for e
  proof -
    obtain a where a: "a \<in> set xs" "e = dns_node self a" using \<open>e \<in> _\<close> by (auto simp: dns_entries_def)
    then obtain nm j where "dns_node self a = (nm, int j)" "j < length xs" using dns_data [OF t a(1)] by metis
    then show ?thesis using a(2) by simp
  qed
  then have "List.find (\<lambda>e. snd e = i) (dns_entries self xs) = None" using False by (fastforce simp: find_None_iff)
  then have c: "cache_lookup i (dns_entries self xs) = (None, dns_entries self xs)" by (simp add: cache_lookup_def)
  have "md_records self ! nat i = 0" if "nat i < length (md_records self)"
    using t False i(2) that by (simp add: dns_table_def dns_data_ok_def nat_less_iff)
  moreover have "int (length (md_records self)) = md_max self" using t by (simp add: dns_table_def)
  ultimately have "md_max self \<le> i \<or> nat i < length (md_records self) \<and> md_records self ! nat i = 0"
    using i(2) by linarith
  then have "hev_mapped_dns_lookup self ip = Some (None, self)"
    using i by (auto simp: hev_mapped_dns_lookup_def Let_def)
  then show ?thesis using t c by (auto simp: same_net_def)
next
  case True
  have l: "int (length (md_records self)) = md_max self" "length xs \<le> length (md_records self)"
    using t by (simp_all add: dns_table_def)
  define a where "a = md_records self ! nat i"
  have a: "a \<in> set xs" "snd (dns_node self a) = i"
    using t True i(2) l by (auto simp: dns_table_def dns_data_ok_def a_def nat_less_iff)
  obtain self' where s': "dns_touch self a = Some self'" "dns_table self' (remove1 a xs @ [a])"
    "md_data self' = md_data self" "same_net self self'"
    using dns_touch_table [OF t a(1)] by (auto simp: same_net_def)
  obtain nm j where d: "deref (md_data self) a = Some \<lparr>dn_name = Some nm, dn_idx = int j\<rparr>" "dns_node self a = (nm, int j)"
    using dns_data [OF t a(1)] by metis
  have "a \<noteq> 0" using dns_table_ptrs(2) [OF t] a(1) by simp
  moreover have "md_records self ! nat (sint (ip AND NOT (md_mask self))) = a"
    "\<not> length (md_records self) \<le> nat (sint (ip AND NOT (md_mask self)))" "sint (ip AND NOT (md_mask self)) < md_max self"
    using i True l by (auto simp: a_def)
  ultimately have "hev_mapped_dns_lookup self ip = Some (Some nm, self')"
    using i s'(1,3) d(1) by (simp add: hev_mapped_dns_lookup_def Let_def)
  moreover have "cache_lookup i (dns_entries self xs) = (Some nm, remove1 (nm, int j) (dns_entries self xs) @ [(nm, int j)])"
    using dns_find_index [OF t a(1) refl] a(2) d(2) by (simp add: cache_lookup_def)
  ultimately show ?thesis
    using entries_touch [OF t a(1) s'(3)] s'(2,4) d(2) by (intro exI [of _ self'] exI [of _ "remove1 a xs @ [a]"]) simp
qed

section \<open>Properties\<close>

lemma dns_new_table:
  assumes "hev_mapped_dns_new net msk mx got alloc = Some self"
  shows "dns_table self [] \<and> dns_entries self [] = [] \<and> md_alloc self = alloc \<and> md_max self = mx \<and> mx \<le> sint (NOT msk) \<and>
    md_net self = net \<and> md_mask self = msk"
  using assms list_rep_empty [of Map.empty]
  by (auto simp: hev_mapped_dns_new_def hev_mapped_dns_construct_def Let_def dns_table_def dns_data_ok_def keyed_def
      dns_entries_def intro!: exI [of _ "[]"] split: if_splits)

text \<open>The allocator has fresh memory for at least \<open>n\<close> more nodes.\<close>

definition allocs_ok :: "HevMappedDNS \<Rightarrow> ptr list \<Rightarrow> nat \<Rightarrow> bool" where
  "allocs_ok self xs n \<longleftrightarrow> n \<le> length (md_alloc self) \<and> distinct (map fst (md_alloc self)) \<and>
     (\<forall>(a, dup)\<in>set (md_alloc self). dup \<and> a \<noteq> 0 \<and> aligned a \<and> a \<notin> set xs)"

lemma dns_find_cache:
  assumes t: "dns_table self xs" and mx: "0 < md_max self" and al: "allocs_ok self xs (Suc n)"
  shows "\<exists>self' xs'. hev_mapped_dns_find self name = Some (fst (cache_find (nat (md_max self)) name (dns_entries self xs)), self') \<and>
    dns_table self' xs' \<and> dns_entries self' xs' = snd (cache_find (nat (md_max self)) name (dns_entries self xs)) \<and>
    same_net self self' \<and> allocs_ok self' xs' n"
proof (cases "List.find (\<lambda>e. fst e = name) (dns_entries self xs)")
  case None
  obtain a rest where a: "md_alloc self = (a, True) # rest" "a \<noteq> 0" "aligned a" "a \<notin> set xs"
    using al by (cases "md_alloc self") (auto simp: allocs_ok_def)
  obtain self' xs' where s': "hev_mapped_dns_find self name = Some (fst (cache_find (nat (md_max self)) name (dns_entries self xs)), self')"
    "dns_table self' xs'" "dns_entries self' xs' = snd (cache_find (nat (md_max self)) name (dns_entries self xs))"
    "same_net self self'" "set xs' \<subseteq> insert a (set xs)" "md_alloc self' = rest"
    using dns_find_absent [OF t None mx a] by blast
  moreover have r: "n \<le> length rest" "a \<notin> fst ` set rest" "distinct (map fst rest)"
    "\<forall>(b, dup)\<in>set rest. dup \<and> b \<noteq> 0 \<and> aligned b \<and> b \<notin> set xs"
    using al a(1) by (simp_all add: allocs_ok_def)
  have "dup \<and> b \<noteq> 0 \<and> aligned b \<and> b \<notin> set xs'" if "(b, dup) \<in> set rest" for b dup
  proof -
    have "b \<noteq> a" using that r(2) by (metis fst_conv image_eqI)
    then show ?thesis using that r(4) s'(5) by blast
  qed
  then have "allocs_ok self' xs' n" unfolding allocs_ok_def s'(6) using r(1,3) by blast
  ultimately show ?thesis by blast
next
  case (Some e)
  then have "cache_find (nat (md_max self)) name (dns_entries self xs) = (snd e, remove1 e (dns_entries self xs) @ [e])"
    by (simp add: cache_find_def)
  moreover obtain self' xs' where "hev_mapped_dns_find self name = Some (snd e, self')" "dns_table self' xs'"
    "dns_entries self' xs' = remove1 e (dns_entries self xs) @ [e]" "same_net self self'"
    "set xs' = set xs" "md_alloc self' = md_alloc self"
    using dns_find_present [OF t Some] by blast
  moreover from this al have "allocs_ok self' xs' n" by (simp add: allocs_ok_def)
  ultimately show ?thesis by auto
qed

fun dns_finds :: "HevMappedDNS \<Rightarrow> byte list list \<Rightarrow> HevMappedDNS option" where
  "dns_finds self [] = Some self"
| "dns_finds self (n # ns) = do { (i, self) \<leftarrow> hev_mapped_dns_find self n; dns_finds self ns }"

text \<open>An entry with fewer than \<open>mx\<close> entries and finds behind it survives a find.\<close>

lemma cache_find_keeps:
  assumes c: "c = c1 @ e # c2" "distinct c" "length c \<le> mx" and n: "length c2 + 1 < mx"
  shows "\<exists>c1' c2'. snd (cache_find mx name c) = c1' @ e # c2' \<and> length c2' \<le> length c2 + 1"
proof (cases "List.find (\<lambda>e. fst e = name) c")
  case None
  show ?thesis
  proof (cases "length c < mx")
    case True
    then show ?thesis using None
      by (intro exI [of _ c1] exI [of _ "c2 @ [(name, int (length c))]"]) (simp add: cache_find_def c(1))
  next
    case False
    then obtain b d where "c1 = b # d" using n c by (cases c1) auto
    then show ?thesis using None False
      by (intro exI [of _ d] exI [of _ "c2 @ [(name, snd b)]"]) (simp add: cache_find_def c(1))
  qed
next
  case (Some f)
  then have "f \<in> set c" by (auto simp: find_Some_iff)
  then consider "f = e" | "f \<in> set c1" "f \<noteq> e" | "f \<notin> set c1" "f \<in> set c2" "f \<noteq> e" using c(1) by auto
  then show ?thesis
  proof cases
    case 1
    then have "snd (cache_find mx name c) = (c1 @ c2) @ e # []"
      using Some c(1,2) by (simp add: cache_find_def remove1_append)
    then show ?thesis by (metis le0 list.size(3))
  next
    case 2
    then have "snd (cache_find mx name c) = remove1 f c1 @ e # (c2 @ [f])"
      using Some c(1) by (simp add: cache_find_def remove1_append)
    then show ?thesis by (metis length_append_singleton Suc_eq_plus1 order_refl)
  next
    case 3
    then have "snd (cache_find mx name c) = c1 @ e # (remove1 f c2 @ [f])"
      using Some c(1) by (simp add: cache_find_def remove1_append)
    moreover have "length (remove1 f c2 @ [f]) \<le> length c2 + 1" by (simp add: length_remove1)
    ultimately show ?thesis by blast
  qed
qed

lemma entries_distinct:
  assumes "dns_table self xs"
  shows "distinct (dns_entries self xs)" "length (dns_entries self xs) \<le> nat (md_max self)"
proof -
  have "inj_on (dns_node self) (set xs)" using dns_idx_inj [OF assms] by (auto intro: inj_onI)
  then show "distinct (dns_entries self xs)"
    using dns_table_ptrs(1) [OF assms] by (simp add: dns_entries_def distinct_map)
  show "length (dns_entries self xs) \<le> nat (md_max self)"
    using assms unfolding dns_table_def dns_entries_def length_map by linarith
qed

lemma dns_finds_keep:
  assumes "dns_table self xs" "dns_entries self xs = c1 @ e # c2" "length c2 + length ns < nat (md_max self)"
    "allocs_ok self xs (length ns)"
  shows "\<exists>self' xs'. dns_finds self ns = Some self' \<and> dns_table self' xs' \<and> e \<in> set (dns_entries self' xs') \<and>
    same_net self self'"
  using assms
proof (induction ns arbitrary: self xs c1 c2)
  case (Cons n ns)
  have mx: "0 < md_max self" using Cons.prems(3) by linarith
  obtain s1 xs1 where s1: "hev_mapped_dns_find self n = Some (fst (cache_find (nat (md_max self)) n (dns_entries self xs)), s1)"
    "dns_table s1 xs1" "dns_entries s1 xs1 = snd (cache_find (nat (md_max self)) n (dns_entries self xs))"
    "same_net self s1" "allocs_ok s1 xs1 (length ns)"
    using dns_find_cache [OF Cons.prems(1) mx, of "length ns" n] Cons.prems(4) by auto
  obtain d1 d2 where d: "dns_entries s1 xs1 = d1 @ e # d2" "length d2 \<le> length c2 + 1"
    using cache_find_keeps [OF Cons.prems(2), of "nat (md_max self)" n] entries_distinct [OF Cons.prems(1)] Cons.prems(3) s1(3)
    by auto
  have "length d2 + length ns < nat (md_max s1)" using d(2) Cons.prems(3) s1(4) by (simp add: same_net_def)
  from Cons.IH [OF s1(2) d(1) this s1(5)] s1(1,4) show ?case by (auto simp: same_net_def)
qed (auto simp: same_net_def)

lemma cache_find_last:
  assumes "distinct (dns_entries self xs)"
  shows "\<exists>c. snd (cache_find mx n (dns_entries self xs)) = c @ [(n, fst (cache_find mx n (dns_entries self xs)))]"
proof (cases "List.find (\<lambda>e. fst e = n) (dns_entries self xs)")
  case (Some e)
  then have "fst e = n" by (auto simp: find_Some_iff)
  then show ?thesis using Some by (auto simp: cache_find_def)
qed (auto simp: cache_find_def)

lemma masked_index:
  assumes "net AND NOT msk = 0" "NOT msk = mask k" "k < 32" "0 \<le> i" "i < sint (NOT msk :: u32)"
  shows "sint ((net OR word_of_int i) AND NOT msk) = i"
proof -
  have "(NOT msk :: u32) = word_of_int (2 ^ k - 1)" by (simp add: assms(2) mask_eq_exp_minus_1)
  moreover have "2 ^ k \<le> (2 ^ 31 :: int)" using assms(3) by (intro power_increasing) simp_all
  moreover have "signed_take_bit 31 (2 ^ k - 1 :: int) = 2 ^ k - 1"
  proof (rule signed_take_bit_int_eq_self)
    have "0 < (2 ^ k :: int)" "- (2 ^ 31) \<le> (0 :: int)" by simp_all
    then show "- (2 ^ 31) \<le> (2 ^ k - 1 :: int)" by linarith
    show "2 ^ k - 1 < (2 ^ 31 :: int)" using calculation(2) by simp
  qed
  ultimately have "sint (NOT msk) = 2 ^ k - 1"
    by (simp only: sint_sbintrunc') simp
  then have i: "i < 2 ^ k" "2 ^ k \<le> (2 ^ 31 :: int)" using assms(5) \<open>2 ^ k \<le> _\<close> by simp_all
  have "(net OR word_of_int i) AND NOT msk = (net AND NOT msk) OR (word_of_int i AND NOT msk)"
    by (simp only: bit.conj_disj_distrib2)
  also have "\<dots> = word_of_int i AND mask k" using assms(1) unfolding assms(2) by simp
  also have "\<dots> = word_of_int i"
  proof -
    have "word_of_int i AND mask k = (word_of_int (i AND mask k) :: u32)"
      by (simp only: of_int_and_eq of_int_mask_eq)
    also have "i AND mask k = i" using i(1) assms(4) by (simp add: take_bit_eq_mask [symmetric] take_bit_int_eq_self)
    finally show ?thesis .
  qed
  finally show ?thesis using i assms(4) by (simp add: sint_sbintrunc' signed_take_bit_int_eq_self)
qed

text \<open>
  C6: The table of the mapped DNS refines a cache with least-recently-used eviction. Finding a name
  returns the index that the cache gives it (the one it had, the first free one, or the one of
  the name it evicts) and leaves a table that represents the cache afterwards; every memory
  access of the tree, the list and the array of records is inside live objects.
\<close>

theorem mapped_dns_find_refines_cache:
  assumes "dns_table self xs" "0 < md_max self" "allocs_ok self xs 1"
  shows "\<exists>self' xs'. hev_mapped_dns_find self name =
      Some (fst (cache_find (nat (md_max self)) name (dns_entries self xs)), self') \<and>
    dns_table self' xs' \<and> dns_entries self' xs' = snd (cache_find (nat (md_max self)) name (dns_entries self xs))"
  using dns_find_cache [OF assms(1,2), of 0 name] assms(3) by auto

text \<open>A new table for two names in 198.18.0.0/15.\<close>

definition dns_example :: HevMappedDNS where
  "dns_example = the (hev_mapped_dns_new 0xC6120000 0xFFFE0000 2 True [(8, True), (16, True), (24, True)])"

lemma dns_example:
  "dns_table dns_example []" "dns_entries dns_example [] = []" "md_max dns_example = 2" "md_net dns_example = 0xC6120000"
  "md_mask dns_example = 0xFFFE0000" "md_alloc dns_example = [(8, True), (16, True), (24, True)]"
proof -
  have "hev_mapped_dns_new 0xC6120000 0xFFFE0000 2 True [(8, True), (16, True), (24, True)] = Some dns_example"
    by (simp add: dns_example_def hev_mapped_dns_new_def hev_mapped_dns_construct_def Let_def)
  from dns_new_table [OF this] show "dns_table dns_example []" "dns_entries dns_example [] = []" "md_max dns_example = 2"
    "md_net dns_example = 0xC6120000" "md_mask dns_example = 0xFFFE0000"
    "md_alloc dns_example = [(8, True), (16, True), (24, True)]" by simp_all
qed

lemma example_allocs: "n \<le> 3 \<Longrightarrow> allocs_ok dns_example [] n"
  by (simp add: allocs_ok_def dns_example(6) aligned_def)

lemma mapped_dns_find_refines_cache_witness:
  "\<exists>self' xs'. hev_mapped_dns_find dns_example [97] = Some (0, self') \<and> dns_table self' xs' \<and>
    dns_entries self' xs' = [([97], 0)]"
proof -
  have "cache_find (nat (md_max dns_example)) [97] (dns_entries dns_example []) = (0, [([97], 0)])"
    by (simp add: dns_example(2,3) cache_find_def)
  moreover have "0 < md_max dns_example" by (simp add: dns_example(3))
  ultimately show ?thesis
    using mapped_dns_find_refines_cache [OF dns_example(1) _ example_allocs [of 1], of "[97]"] by simp
qed

text \<open>
  C20: Looking an address up returns the name that the cache has for its index, or NULL when there
  is none, for every address whose host part is not negative as an \<open>int\<close>, and makes that
  name the most recently used one.
\<close>

theorem mapped_dns_lookup_refines_cache:
  assumes "dns_table self xs" "i = sint (ip AND NOT (md_mask self))" "0 \<le> i"
  shows "\<exists>self' xs'. hev_mapped_dns_lookup self ip = Some (fst (cache_lookup i (dns_entries self xs)), self') \<and>
    dns_table self' xs' \<and> dns_entries self' xs' = snd (cache_lookup i (dns_entries self xs))"
  using dns_lookup_cache [OF assms] by blast

lemma mapped_dns_lookup_refines_cache_witness:
  "\<exists>self'. hev_mapped_dns_lookup dns_example 0xC6120001 = Some (None, self')"
proof -
  have "(1 :: int) = sint (0xC6120001 AND NOT (md_mask dns_example))" by (simp add: dns_example(5))
  moreover have "cache_lookup 1 (dns_entries dns_example []) = (None, [])"
    by (simp add: dns_example(2) cache_lookup_def)
  ultimately show ?thesis
    using mapped_dns_lookup_refines_cache [OF dns_example(1), of 1 "0xC6120001"] by auto
qed

text \<open>
  C4: An address handed out for a name leads back to that name, also after any
  \<open>max - 1\<close> further queries for other names: only a name with \<open>max - 1\<close> more recent
  ones is evicted.
\<close>

theorem mapped_dns_address_stays_valid:
  assumes t: "dns_table self xs" and n: "length ns < nat (md_max self)" and al: "allocs_ok self xs (Suc (length ns))"
    and m: "NOT (md_mask self) = mask k" "k < 32" "md_net self AND NOT (md_mask self) = 0" "md_max self \<le> sint (NOT (md_mask self))"
  shows "\<exists>i self1 self2 self3. hev_mapped_dns_find self name = Some (i, self1) \<and> 0 \<le> i \<and> i < md_max self \<and>
    dns_finds self1 ns = Some self2 \<and>
    hev_mapped_dns_lookup self2 (md_net self OR word_of_int i) = Some (Some name, self3)"
proof -
  have mx: "0 < md_max self" using n by linarith
  let ?i = "fst (cache_find (nat (md_max self)) name (dns_entries self xs))"
  obtain s1 xs1 where s1: "hev_mapped_dns_find self name = Some (?i, s1)" "dns_table s1 xs1"
    "dns_entries s1 xs1 = snd (cache_find (nat (md_max self)) name (dns_entries self xs))"
    "same_net self s1" "allocs_ok s1 xs1 (length ns)"
    using dns_find_cache [OF t mx al] by blast
  obtain c where c: "dns_entries s1 xs1 = c @ (name, ?i) # []"
    using cache_find_last [OF entries_distinct(1) [OF t]] s1(3) by auto
  obtain s2 xs2 where s2: "dns_finds s1 ns = Some s2" "dns_table s2 xs2" "(name, ?i) \<in> set (dns_entries s2 xs2)"
    "same_net s1 s2"
    using dns_finds_keep [OF s1(2) c _ s1(5)] n s1(4) by (auto simp: same_net_def)
  then obtain a where a: "a \<in> set xs2" "dns_node s2 a = (name, ?i)" by (auto simp: dns_entries_def)
  obtain j where "j < length xs2" "?i = int j" using dns_data [OF s2(2) a(1)] a(2) by (metis prod.inject)
  then have i: "0 \<le> ?i" "?i < md_max self"
    using s2(2,4) s1(4) by (auto simp: dns_table_def same_net_def)
  have ip: "?i = sint ((md_net self OR word_of_int ?i) AND NOT (md_mask s2))"
    using masked_index [OF m(3,1,2) i(1)] i(2) m(4) s1(4) s2(4) by (simp add: same_net_def)
  have "cache_lookup ?i (dns_entries s2 xs2) = (Some name, remove1 (name, ?i) (dns_entries s2 xs2) @ [(name, ?i)])"
    using dns_find_index [OF s2(2) a] by (simp add: cache_lookup_def)
  with dns_lookup_cache [OF s2(2) ip i(1)] s1(1) s2(1) i show ?thesis by auto
qed

lemma mapped_dns_address_stays_valid_witness:
  "\<exists>i self1 self2 self3. hev_mapped_dns_find dns_example [97] = Some (i, self1) \<and>
    dns_finds self1 [[98]] = Some self2 \<and>
    hev_mapped_dns_lookup self2 (0xC6120000 OR word_of_int i) = Some (Some [97], self3)"
proof -
  have "NOT (md_mask dns_example) = mask 17" "md_net dns_example AND NOT (md_mask dns_example) = 0"
    "md_max dns_example \<le> sint (NOT (md_mask dns_example))"
    by (simp_all add: dns_example mask_eq_exp_minus_1)
  with mapped_dns_address_stays_valid [OF dns_example(1), of "[[98]]" 17 "[97]"]
  show ?thesis by (auto simp: dns_example(3,4) example_allocs)
qed

end
