(* ===== verification/Lifecycle.thy ===== *)
theory Lifecycle
  imports TunnelFacts MappedDNSTable
begin

text \<open>
  What the tunnel takes when it starts and gives back when it stops: its descriptors, and the blocks
  of its tasks and of its mapped DNS with all nodes of its table.
\<close>

section \<open>The nodes of the mapped DNS\<close>

lemma dns_free_nodes_all:
  assumes "seg (md_links self) p xs 0" "distinct xs" "set xs \<subseteq> dom (md_data self)" "length xs \<le> fuel"
  shows "\<exists>self'. dns_free_nodes fuel self (first_or xs 0) = Some self' \<and>
    md_data self' = md_data self |` (- set xs) \<and> md_links self' = md_links self |` (- set xs)"
  using assms
proof (induction xs arbitrary: self p fuel)
  case Nil
  then show ?case by (subst dns_free_nodes.simps) (simp add: restrict_map_def)
next
  case (Cons x xs)
  then obtain f where f: "fuel = Suc f" by (cases fuel) auto
  obtain n where n: "x \<noteq> 0" "md_data self x = Some n" using Cons.prems(1,3) by auto
  define self2 where "self2 = self\<lparr>md_tree := (md_tree self)\<lparr>rb_heap := (rb_heap (md_tree self))(x := None)\<rparr>,
    md_links := (md_links self)(x := None), md_data := (md_data self)(x := None)\<rparr>"
  have free: "hev_mapped_dns_node_free self x = Some self2"
    using n by (simp add: hev_mapped_dns_node_free_def deref_def self2_def)
  have nxt: "hev_list_node_next (md_links self) x = Some (first_or xs 0)"
    using Cons.prems(1) by (simp add: hev_list_node_next_def deref_def)
  have "seg (md_links self2) x xs 0" "set xs \<subseteq> dom (md_data self2)"
    using Cons.prems(1-3) by (auto simp: self2_def)
  then obtain self' where s': "dns_free_nodes f self2 (first_or xs 0) = Some self'"
    "md_data self' = md_data self2 |` (- set xs)" "md_links self' = md_links self2 |` (- set xs)"
    using Cons.IH [of self2 x f] Cons.prems(2,4) f by auto
  have "dns_free_nodes fuel self (first_or (x # xs) 0) = Some self'"
    using n(1) free nxt s'(1) f by (subst dns_free_nodes.simps) simp
  moreover have "md_data self' = md_data self |` (- set (x # xs))" "md_links self' = md_links self |` (- set (x # xs))"
    unfolding s'(2,3) self2_def by (simp_all add: restrict_map_def fun_eq_iff)
  ultimately show ?case by blast
qed

lemma dns_table_destruct:
  assumes "dns_table self xs" "length xs \<le> fuel"
  shows "\<exists>self'. hev_mapped_dns_destruct fuel self = Some self' \<and>
    md_data self' = md_data self |` (- set xs) \<and> md_links self' = md_links self |` (- set xs)"
proof -
  have l: "list_rep (md_list self) (md_links self) xs" using assms(1) by (simp add: dns_table_def)
  have "set xs \<subseteq> dom (md_data self)" using assms(1) by (auto simp: dns_table_def dns_data_ok_def)
  with l assms(2) have "\<exists>self'. dns_free_nodes fuel self (first_or xs 0) = Some self' \<and>
      md_data self' = md_data self |` (- set xs) \<and> md_links self' = md_links self |` (- set xs)"
    by (intro dns_free_nodes_all) (auto simp: list_rep_def)
  then show ?thesis by (simp only: hev_mapped_dns_destruct_def list_rep_first [OF l])
qed

text \<open>
  C21: Destroying the mapped DNS ends, without access to a node that was freed: it frees each node
  of the table, however the table was used, and no other.
\<close>

theorem mapped_dns_destruct_frees:
  assumes "dns_table self xs" "length xs \<le> fuel"
  shows "\<exists>self'. hev_mapped_dns_destruct fuel self = Some self' \<and>
    md_data self' = md_data self |` (- set xs) \<and> md_links self' = md_links self |` (- set xs)"
  using assms by (rule dns_table_destruct)

lemma mapped_dns_destruct_frees_witness:
  "\<exists>self self'. hev_mapped_dns_find dns_example [97] = Some (0, self) \<and> md_data self \<noteq> Map.empty \<and>
    hev_mapped_dns_destruct 1 self = Some self'"
proof -
  have c: "cache_find (nat (md_max dns_example)) [97] (dns_entries dns_example []) = (0, [([97], 0)])"
    by (simp add: dns_example(2,3) cache_find_def)
  have "0 < md_max dns_example" by (simp add: dns_example(3))
  from dns_find_cache [OF dns_example(1) this, of 0 "[97]"] example_allocs [of 1] c
  obtain self xs where f: "hev_mapped_dns_find dns_example [97] = Some (0, self)" "dns_table self xs"
    "dns_entries self xs = [([97], 0)]" by auto
  then obtain a where a: "xs = [a]" by (auto simp: dns_entries_def)
  have "md_data self \<noteq> Map.empty" using f(2) a by (auto simp: dns_table_def dns_data_ok_def)
  moreover have "length xs \<le> 1" using a by simp
  ultimately show ?thesis using mapped_dns_destruct_frees [OF f(2), of 1] f(1) by blast
qed

section \<open>Starting up and shutting down\<close>

text \<open>What the tunnel owns: its descriptors, and the blocks of its tasks and its mapped DNS.\<close>

definition tn_fds :: "tunnel \<Rightarrow> int set" where
  "tn_fds t = {fd. 0 \<le> fd \<and> (fd = tn_event_fd0 t \<or> fd = tn_event_fd1 t)}"

definition tn_blocks :: "tunnel \<Rightarrow> int" where
  "tn_blocks t = of_bool (tn_task_event t) + of_bool (tn_task_lwip_io t) + of_bool (tn_task_lwip_timer t) +
     of_bool (tn_dns t \<noteq> None)"

text \<open>\<open>D\<close> is the device's descriptor, or nothing.\<close>

definition owns :: "int set \<Rightarrow> tunnel \<Rightarrow> world \<Rightarrow> world \<Rightarrow> bool" where
  "owns D t w0 w \<longleftrightarrow>
     w_open w = w_open w0 \<union> tn_fds t \<union> D \<and> tn_fds t \<inter> (w_open w0 \<union> D) = {} \<and> D \<inter> w_open w0 = {} \<and>
     w_live w = w_live w0 + tn_blocks t \<and> fds_ok w \<and>
     (tn_fd_local t \<longrightarrow> D = {tn_fd t})"

lemma event_task_fini_result:
  assumes "event_task_fini t w = (t', w')"
  shows "w_open w' = w_open w - tn_fds t" "w_live w' = w_live w - of_bool (tn_task_event t)"
    "t' = t\<lparr>tn_task_event := False, tn_event_fd0 := tn_event_fd0 t', tn_event_fd1 := tn_event_fd1 t'\<rparr>"
    "tn_fds t' = {}"
proof -
  let ?w1 = "if tn_task_event t then sys_free w else w"
  let ?w2 = "if tn_event_fd0 t \<ge> 0 then sys_close (tn_event_fd0 t) ?w1 else ?w1"
  have w: "w' = (if tn_event_fd1 t \<ge> 0 then sys_close (tn_event_fd1 t) ?w2 else ?w2)"
    and t: "t' = t\<lparr>tn_task_event := False,
            tn_event_fd0 := (if tn_event_fd0 t \<ge> 0 then -1 else tn_event_fd0 t),
            tn_event_fd1 := (if tn_event_fd1 t \<ge> 0 then -1 else tn_event_fd1 t)\<rparr>"
    using assms by (simp_all only: event_task_fini_def Let_def prod.inject)
  show "w_open w' = w_open w - tn_fds t" unfolding w tn_fds_def by (auto simp: sys_free_def)
  show "w_live w' = w_live w - of_bool (tn_task_event t)" unfolding w by (simp add: sys_free_def)
  show "tn_fds t' = {}" unfolding t tn_fds_def by auto
  show "t' = t\<lparr>tn_task_event := False, tn_event_fd0 := tn_event_fd0 t', tn_event_fd1 := tn_event_fd1 t'\<rparr>"
    unfolding t by simp
qed

lemma mapped_dns_fini_result:
  assumes "mapped_dns_fini fuel t w = Some (t', w')"
  shows "t' = t\<lparr>tn_dns := None\<rparr>" "w_open w' = w_open w" "w_live w' = w_live w - of_bool (tn_dns t \<noteq> None)"
  using assms by (auto simp: mapped_dns_fini_def sys_free_def split: option.splits bind_splits)

lemma tunnel_fini_result:
  assumes "tunnel_fini t w = (t', w')"
  shows "w_open w' = w_open w - (if tn_fd_local t then {tn_fd t} else {})" "w_live w' = w_live w"
    "\<not> tn_fd_local t'" "tn_fds t' = tn_fds t" "tn_blocks t' = tn_blocks t" "tn_gateway t' = tn_gateway t"
  using assms by (auto simp: tunnel_fini_def tn_fds_def tn_blocks_def split: if_splits)

lemma fini_returns:
  assumes "owns D t w0 w" "mapped_dns_fini fuel t w = Some (t1, w1)"
  shows "\<exists>t' w'. hev_socks5_tunnel_fini fuel t w = Some (t', w') \<and>
    w_open w' = w_open w0 \<union> (if tn_fd_local t then {} else D) \<and> w_live w' = w_live w0 \<and>
    tn_fds t' = {} \<and> tn_blocks t' = 0 \<and> \<not> tn_gateway t' \<and> \<not> tn_fd_local t' \<and> hev_socks5_tunnel_stats t' = (0, 0, 0, 0)"
proof -
  note m = mapped_dns_fini_result [OF assms(2)]
  let ?t3 = "t\<lparr>tn_dns := None, tn_task_lwip_timer := False, tn_task_lwip_io := False\<rparr>"
  let ?w2 = "if tn_task_lwip_timer t then sys_free w1 else w1"
  let ?w3 = "if tn_task_lwip_io t then sys_free ?w2 else ?w2"
  obtain t4 w4 where e: "event_task_fini ?t3 ?w3 = (t4, w4)" by force
  note e' = event_task_fini_result [OF e]
  let ?t5 = "t4\<lparr>tn_gateway := False\<rparr>"
  obtain t6 w6 where f: "tunnel_fini ?t5 w4 = (t6, w6)" by force
  note f' = tunnel_fini_result [OF f]
  let ?t' = "t6\<lparr>tn_tx_packets := 0, tn_rx_packets := 0, tn_tx_bytes := 0, tn_rx_bytes := 0\<rparr>"
  have "hev_socks5_tunnel_fini fuel t w = Some (?t', w6)"
    using assms(2) m(1) e f
    by (simp split del: if_split cong del: if_weak_cong add: hev_socks5_tunnel_fini_def lwip_timer_task_fini_def lwip_io_task_fini_def gateway_fini_def Let_def)
  moreover have "w_open w6 = w_open w0 \<union> (if tn_fd_local t then {} else D)"
  proof -
    have "w_open ?w3 = w_open w" using m(2) by (simp add: sys_free_def)
    moreover have "tn_fds ?t3 = tn_fds t" by (simp add: tn_fds_def)
    ultimately have "w_open w4 = w_open w0 \<union> D" using e'(1) assms(1) by (auto simp: owns_def)
    moreover have "tn_fd ?t5 = tn_fd t" "tn_fd_local ?t5 = tn_fd_local t" by (subst e'(3), simp)+
    ultimately show ?thesis using f'(1) assms(1) by (auto simp: owns_def)
  qed
  moreover have "w_live w6 = w_live w0"
  proof -
    have "w_live ?w3 = w_live w1 - of_bool (tn_task_lwip_timer t) - of_bool (tn_task_lwip_io t)" by (simp add: sys_free_def)
    then show ?thesis using m(3) e'(2) f'(2) assms(1) by (simp add: owns_def tn_blocks_def)
  qed
  moreover have "tn_fds ?t' = {}" using e'(4) f'(4) by (simp add: tn_fds_def)
  moreover have "tn_blocks ?t' = 0"
  proof -
    have "tn_blocks ?t5 = 0" by (subst e'(3)) (simp add: tn_blocks_def)
    then show ?thesis using f'(5) by (simp add: tn_blocks_def)
  qed
  ultimately show ?thesis using f'(3,6) by (simp add: hev_socks5_tunnel_stats_def)
qed

lemma owns_result: "owns D t w0 w \<Longrightarrow> sys_result w = (r, w') \<Longrightarrow> owns D t w0 w'"
  using sys_result_frame [of w r w'] by (simp add: owns_def fds_ok_def)

lemma owns_malloc:
  assumes "owns D t w0 w" "sys_malloc w = (got, w')"
  shows "\<not> got \<Longrightarrow> owns D t w0 w'"
    and "got \<Longrightarrow> owns D t w0 (sys_free w')"
proof -
  obtain r w1 where r: "sys_result w = (r, w1)" by force
  note ow = owns_result [OF assms(1) r]
  show "owns D t w0 w'" if "\<not> got" using that ow assms(2) r by (auto simp: sys_malloc_def split: if_splits)
  show "owns D t w0 (sys_free w')" if "got"
    using that ow assms(2) r by (auto simp: sys_malloc_def sys_free_def owns_def fds_ok_def split: if_splits)
qed


lemma owns_same:
  assumes "owns D t w0 w" "tn_fds t' = tn_fds t" "tn_fd_local t' = tn_fd_local t" "tn_fd t' = tn_fd t"
    "tn_blocks t' = tn_blocks t"
  shows "owns D t' w0 w"
  using assms by (simp add: owns_def)

lemma owns_block:
  assumes "owns D t w0 w" "sys_malloc w = (True, w')" "tn_fds t' = tn_fds t" "tn_fd_local t' = tn_fd_local t"
    "tn_fd t' = tn_fd t" "tn_blocks t' = tn_blocks t + 1"
  shows "owns D t' w0 w'"
  using owns_malloc(2) [OF assms(1,2)] assms(3-6) by (simp add: owns_def sys_free_def fds_ok_def)

lemma event_task_init_owns:
  assumes "owns D t w0 w" "tn_fds t = {}" "\<not> tn_task_event t" "event_task_init t w = (r, t', w')"
  shows "owns D t' w0 w' \<and> (r = 0 \<or> r = -1) \<and>
    t' = t\<lparr>tn_task_event := tn_task_event t', tn_event_fd0 := tn_event_fd0 t', tn_event_fd1 := tn_event_fd1 t'\<rparr>"
proof -
  obtain r1 w1 where r1: "sys_result w = (r1, w1)" by force
  note o1 = owns_result [OF assms(1) r1]
  show ?thesis
  proof (cases "r1 < 0")
    case True
    then show ?thesis using assms(4) r1 o1 by (auto simp: event_task_init_def sys_socketpair_def)
  next
    case False
    define t2 where "t2 = t\<lparr>tn_event_fd0 := w_next_fd w1, tn_event_fd1 := w_next_fd w1 + 1\<rparr>"
    define w2 where "w2 = w1\<lparr>w_next_fd := w_next_fd w1 + 1 + 1,
      w_open := insert (w_next_fd w1 + 1) (insert (w_next_fd w1) (w_open w1))\<rparr>"
    have p: "sys_socketpair w = (0, w_next_fd w1, w_next_fd w1 + 1, w2)"
      using r1 False by (simp add: sys_socketpair_def Let_def w2_def)
    have f: "0 \<le> w_next_fd w1" "\<forall>fd\<in>w_open w1. fd < w_next_fd w1" "w_open w1 = w_open w0 \<union> D"
      using o1 assms(2) by (auto simp: owns_def fds_ok_def)
    have fds: "tn_fds t2 = {w_next_fd w1, w_next_fd w1 + 1}" using f(1) by (auto simp: tn_fds_def t2_def)
    have "w_next_fd w1 \<notin> w_open w1" "w_next_fd w1 + 1 \<notin> w_open w1"
      using bspec [OF f(2), of "w_next_fd w1"] bspec [OF f(2), of "w_next_fd w1 + 1"] by auto
    then have "tn_fds t2 \<inter> (w_open w0 \<union> D) = {}" unfolding fds f(3) [symmetric] by simp
    moreover have "w_open w2 = w_open w0 \<union> tn_fds t2 \<union> D" unfolding fds w2_def using f(3) by auto
    moreover have "fds_ok w2" unfolding w2_def by (rule fds_ok_grow(2)) (use o1 in \<open>simp add: owns_def\<close>)
    moreover have "w_live w2 = w_live w1" "tn_blocks t2 = tn_blocks t" "tn_fd t2 = tn_fd t" "tn_fd_local t2 = tn_fd_local t"
      by (simp_all add: w2_def t2_def tn_blocks_def)
    ultimately have o2: "owns D t2 w0 w2" using o1 by (simp add: owns_def)
    obtain r3 w3 where r3: "sys_result w2 = (r3, w3)" by force
    note o3 = owns_result [OF o2 r3]
    obtain got w4 where m: "sys_malloc w3 = (got, w4)" by force
    have b: "tn_blocks (t2\<lparr>tn_task_event := True\<rparr>) = tn_blocks t2 + 1" "tn_fds (t2\<lparr>tn_task_event := True\<rparr>) = tn_fds t2"
      using assms(3) by (simp_all add: tn_blocks_def t2_def tn_fds_def)
    have o4: "if got then owns D (t2\<lparr>tn_task_event := True\<rparr>) w0 w4 else owns D t2 w0 w4"
      using owns_malloc(1) [OF o3 m] owns_block [OF o3, of w4 "t2\<lparr>tn_task_event := True\<rparr>"] m b by auto
    have eq: "(r, t', w') = (if r3 < 0 then (-1, t2, w3)
        else if \<not> got then (-1, t2, w4) else (0, t2\<lparr>tn_task_event := True\<rparr>, w4))"
      using assms(4) p r3 m by (simp add: event_task_init_def Let_def t2_def split: if_splits)
    have fr: "t2 = t\<lparr>tn_task_event := tn_task_event t2, tn_event_fd0 := tn_event_fd0 t2, tn_event_fd1 := tn_event_fd1 t2\<rparr>"
      "t2\<lparr>tn_task_event := True\<rparr> = t\<lparr>tn_task_event := tn_task_event (t2\<lparr>tn_task_event := True\<rparr>),
        tn_event_fd0 := tn_event_fd0 (t2\<lparr>tn_task_event := True\<rparr>), tn_event_fd1 := tn_event_fd1 (t2\<lparr>tn_task_event := True\<rparr>)\<rparr>"
      by (simp_all add: t2_def)
    show ?thesis
    proof (cases "r3 < 0")
      case True
      then have "r = -1" "t' = t2" "w' = w3" using eq by simp_all
      then show ?thesis using o3 fr(1) by metis
    next
      case ok3: False
      show ?thesis
      proof (cases got)
        case True
        then have "r = 0" "t' = t2\<lparr>tn_task_event := True\<rparr>" "w' = w4" using eq ok3 by simp_all
        then show ?thesis using o4 True fr(2) by metis
      next
        case False
        then have "r = -1" "t' = t2" "w' = w4" using eq ok3 by simp_all
        then show ?thesis using o4 False fr(1) by metis
      qed
    qed
  qed
qed

lemma task_init_owns:
  assumes "owns D t w0 w" "sys_malloc w = (got, w')" "tn_fds t2 = tn_fds t" "tn_fd_local t2 = tn_fd_local t"
    "tn_fd t2 = tn_fd t" "tn_blocks t2 = tn_blocks t + 1"
  shows "if got then owns D t2 w0 w' else owns D t w0 w'"
  using owns_malloc(1) [OF assms(1,2)] owns_block [OF assms(1) _ assms(3-6)] assms(2) by auto

lemma tunnel_init_owns:
  assumes "owns {} t w0 w" "\<not> tn_fd_local t" "tn_fds t = {}" "tunnel_init cf efd t w = (r, t', w')"
  shows "\<exists>D. owns D t' w0 w' \<and> (0 \<le> efd \<longrightarrow> D = {}) \<and> D \<subseteq> {w_next_fd w} \<and> (r = 0 \<or> r = -1) \<and>
    (r = 0 \<longrightarrow> D = {} \<or> tn_fd_local t') \<and> (r \<noteq> 0 \<longrightarrow> \<not> tn_fd_local t') \<and>
    t' = t\<lparr>tn_fd := tn_fd t', tn_fd_local := tn_fd_local t'\<rparr>"
proof (cases "0 \<le> efd")
  case True
  obtain r1 w1 where r1: "sys_result w = (r1, w1)" by force
  from owns_result [OF assms(1) this] have "owns {} (t\<lparr>tn_fd := x\<rparr>) w0 w1" "owns {} t w0 w1" for x
    using assms(2) by (simp_all add: owns_def tn_fds_def tn_blocks_def)
  then show ?thesis using assms(2,4) True r1 by (auto simp: tunnel_init_def split: if_splits intro!: exI [of _ "{}"])
next
  case False
  obtain fd w1 where s: "sys_socket w = (fd, w1)" by force
  let ?t1 = "t\<lparr>tn_fd := fd\<rparr>" and ?t2 = "t\<lparr>tn_fd := fd, tn_fd_local := True\<rparr>"
  obtain r0 w00 where r0: "sys_result w = (r0, w00)" by force
  note o0 = owns_result [OF assms(1) r0]
  show ?thesis
  proof (cases "r0 < 0")
    case True
    then have "r = -1" "t' = t\<lparr>tn_fd := -1\<rparr>" "w' = w00"
      using False assms(4) r0 by (auto simp add: tunnel_init_def sys_socket_def)
    moreover have "owns {} (t\<lparr>tn_fd := -1\<rparr>) w0 w00" using o0 assms(2) by (simp add: owns_def tn_fds_def tn_blocks_def)
    ultimately show ?thesis using assms(2) by (intro exI [of _ "{}"]) simp
  next
    case ok: False
    have fd: "fd = w_next_fd w" and w1: "w1 = w00\<lparr>w_next_fd := w_next_fd w + 1, w_open := insert fd (w_open w00)\<rparr>"
      using ok s r0 sys_result_frame(6) [OF r0] by (auto simp: sys_socket_def)
    have nn: "0 \<le> fd" and fresh: "fd \<notin> w_open w0"
      using o0 fd sys_result_frame(6) [OF r0] by (auto simp: owns_def fds_ok_def)
    have o1: "owns {fd} ?t1 w0 w1" "owns {fd} ?t2 w0 w1"
    proof -
      have g: "fds_ok w1" using fds_ok_grow(1) [of w00] o0 fd sys_result_frame(6) [OF r0] by (simp add: w1 owns_def)
      have e: "tn_fds u = {}" "tn_blocks u = tn_blocks t" "tn_fd u = fd" if "u \<in> {?t1, ?t2}" for u
        using that assms(3) by (auto simp: tn_fds_def tn_blocks_def)
      have "w_open w1 = w_open w0 \<union> {} \<union> {fd}" "w_live w1 = w_live w0 + tn_blocks t"
        using o0 assms(3) by (auto simp: w1 owns_def)
      then have "owns {fd} u w0 w1" if "u \<in> {?t1, ?t2}" for u unfolding owns_def e [OF that] using g fresh by simp
      then show "owns {fd} ?t1 w0 w1" "owns {fd} ?t2 w0 w1" by simp_all
    qed
    obtain r2 w2 where r2: "sys_result w1 = (r2, w2)" by force
    obtain r3 w3 where r3: "(if hev_config_get_tunnel_ipv4_address cf \<noteq> None then sys_result w2 else (0, w2)) = (r3, w3)" by force
    obtain r4 w4 where r4: "(if hev_config_get_tunnel_ipv6_address cf \<noteq> None then sys_result w3 else (0, w3)) = (r4, w4)" by force
    obtain r5 w5 where r5: "sys_result w4 = (r5, w5)" by force
    have keep: "owns {fd} u w0 w2" "owns {fd} u w0 w3" "owns {fd} u w0 w4" "owns {fd} u w0 w5" if "owns {fd} u w0 w1" for u
    proof -
      show 2: "owns {fd} u w0 w2" using owns_result [OF that r2] .
      show 3: "owns {fd} u w0 w3" using 2 owns_result [OF 2] r3 by (auto split: if_splits)
      show 4: "owns {fd} u w0 w4" using 3 owns_result [OF 3] r4 by (auto split: if_splits)
      show "owns {fd} u w0 w5" using owns_result [OF 4 r5] .
    qed
    have "(r, t', w') = (if r2 < 0 then (-1, ?t1, w2) else if r3 < 0 then (-1, ?t1, w3) else if r4 < 0 then (-1, ?t1, w4)
        else if r5 < 0 then (-1, ?t1, w5) else (0, ?t2, w5))"
      using assms(4) False s nn r2 r3 r4 r5 by (simp only: tunnel_init_def Let_def prod.case if_False not_less simp_thms) simp
    then show ?thesis
      using keep [OF o1(1)] keep [OF o1(2)] assms(2) fd False by (intro exI [of _ "{fd}"]) (auto split: if_splits)
  qed
qed


text \<open>The first steps take the tunnel from its start to one that owns what it has taken.\<close>

definition started :: "int \<Rightarrow> world \<Rightarrow> int \<Rightarrow> tunnel \<Rightarrow> world \<Rightarrow> bool" where
  "started efd w0 r t w \<longleftrightarrow> (r = 0 \<or> r = -1) \<and> (\<exists>D. owns D t w0 w \<and> (0 \<le> efd \<longrightarrow> D = {}) \<and> D \<subseteq> {w_next_fd w0} \<and>
     (r = 0 \<longrightarrow> D = {} \<or> tn_fd_local t) \<and> (r \<noteq> 0 \<longrightarrow> tn_dns t = None))"

lemma started_step:
  assumes "started efd w0 0 t w" "\<And>D. owns D t w0 w \<Longrightarrow> owns D t' w0 w'"
    "tn_fd_local t' = tn_fd_local t" "r = 0 \<or> r = -1" "r \<noteq> 0 \<Longrightarrow> tn_dns t' = None"
  shows "started efd w0 r t' w'"
proof -
  obtain D where D: "owns D t w0 w" "0 \<le> efd \<longrightarrow> D = {}" "D \<subseteq> {w_next_fd w0}" "D = {} \<or> tn_fd_local t"
    using assms(1) by (auto simp: started_def)
  then show ?thesis unfolding started_def using assms(2) [OF D(1)] assms(3-5) by blast
qed

lemma tunnel_start_owned: "\<not> tn_fd_local tunnel_start" "tn_fds tunnel_start = {}" "tn_blocks tunnel_start = 0"
  by (auto simp: tunnel_start_def tn_fds_def tn_blocks_def)

lemma init_steps_started:
  assumes "fds_ok w" "tunnel_init_steps cf alloc efd tunnel_start w = (r, t, w')"
  shows "started efd w r t w'"
proof -
  obtain r1 t1 w1 where 1: "tunnel_init cf efd tunnel_start w = (r1, t1, w1)" by (rule prod_cases3)
  have "owns {} tunnel_start w w" using assms(1) by (simp add: owns_def tunnel_start_owned)
  from this tunnel_start_owned(1,2) have ex: "\<exists>D. owns D t1 w w1 \<and> (0 \<le> efd \<longrightarrow> D = {}) \<and> D \<subseteq> {w_next_fd w} \<and> (r1 = 0 \<or> r1 = -1) \<and>
    (r1 = 0 \<longrightarrow> D = {} \<or> tn_fd_local t1) \<and> (r1 \<noteq> 0 \<longrightarrow> \<not> tn_fd_local t1) \<and>
    t1 = tunnel_start\<lparr>tn_fd := tn_fd t1, tn_fd_local := tn_fd_local t1\<rparr>"
    by (rule tunnel_init_owns [OF _ _ _ 1])
  obtain D where D: "owns D t1 w w1" "0 \<le> efd \<longrightarrow> D = {}" "D \<subseteq> {w_next_fd w}" "r1 = 0 \<or> r1 = -1"
    "r1 = 0 \<longrightarrow> D = {} \<or> tn_fd_local t1"
    and t1: "t1 = tunnel_start\<lparr>tn_fd := tn_fd t1, tn_fd_local := tn_fd_local t1\<rparr>"
    using ex by (elim exE conjE) (rule that)
  have "tn_dns t1 = None" by (subst t1) (simp add: tunnel_start_def)
  with D have s1: "started efd w r1 t1 w1" unfolding started_def by blast
  show ?thesis
  proof (cases "r1 < 0")
    case True
    then show ?thesis using assms(2) s1 by (simp add: tunnel_init_steps_def 1)
  next
    case False
    then have r1: "r1 = 0" using s1 by (auto simp: started_def)
    let ?t2 = "t1\<lparr>tn_gateway := True\<rparr>"
    have s2: "started efd w 0 ?t2 w1"
      using s1 unfolding r1 by (rule started_step) (auto elim!: owns_same simp: tn_fds_def tn_blocks_def)
    have f2: "tn_fds ?t2 = {}" "\<not> tn_task_event ?t2" "\<not> tn_task_lwip_io ?t2" "\<not> tn_task_lwip_timer ?t2" "tn_dns ?t2 = None"
      by (subst t1; simp add: tunnel_start_def tn_fds_def)+
    obtain r3 t3 w3 where 3: "event_task_init ?t2 w1 = (r3, t3, w3)" by (rule prod_cases3)
    have e: "owns D ?t2 w w1 \<Longrightarrow> owns D t3 w w3 \<and> (r3 = 0 \<or> r3 = -1) \<and>
      t3 = ?t2\<lparr>tn_task_event := tn_task_event t3, tn_event_fd0 := tn_event_fd0 t3, tn_event_fd1 := tn_event_fd1 t3\<rparr>" for D
      using event_task_init_owns [OF _ f2(1,2) 3] by blast
    obtain D where "owns D ?t2 w w1" using s2 by (auto simp: started_def)
    note e3 = e [OF this]
    have t3: "tn_fd_local t3 = tn_fd_local ?t2" "tn_dns t3 = None" "\<not> tn_task_lwip_io t3" "\<not> tn_task_lwip_timer t3"
      using f2 by (subst conjunct2 [OF conjunct2 [OF e3]]; simp)+
    have s3: "started efd w r3 t3 w3"
      using s2 by (rule started_step) (use e e3 t3 in blast)+
    show ?thesis
    proof (cases "r3 < 0")
      case True
      then show ?thesis using assms(2) s3 r1 3 by (simp add: tunnel_init_steps_def 1 gateway_init_def)
    next
      case False
      then have r3: "r3 = 0" using e3 by auto
      obtain g4 w4 where 4: "sys_malloc w3 = (g4, w4)" by force
      let ?t4 = "t3\<lparr>tn_task_lwip_io := True\<rparr>"
      have o4: "if g4 then owns D ?t4 w w4 else owns D t3 w w4" if "owns D t3 w w3" for D
        using that 4 by (rule task_init_owns) (use t3 in \<open>auto simp: tn_fds_def tn_blocks_def\<close>)
      obtain g5 w5 where 5: "sys_malloc w4 = (g5, w5)" by force
      let ?t5 = "?t4\<lparr>tn_task_lwip_timer := True\<rparr>"
      have o5: "if g5 then owns D ?t5 w w5 else owns D ?t4 w w5" if "owns D ?t4 w w4" for D
        using that 5 by (rule task_init_owns) (use t3 in \<open>auto simp: tn_fds_def tn_blocks_def\<close>)
      obtain r6 t6 w6 where 6: "mapped_dns_init cf alloc ?t5 w5 = (r6, t6, w6)" by (rule prod_cases3)
      have o6: "owns D t6 w w6 \<and> (r6 = 0 \<or> r6 = -1) \<and> (r6 \<noteq> 0 \<longrightarrow> t6 = ?t5) \<and> tn_fd_local t6 = tn_fd_local ?t5"
        if "owns D ?t5 w w5" for D
      proof -
        obtain got v where m: "sys_malloc w5 = (got, v)" by force
        note a = owns_malloc [OF that m]
        have b: "owns D (?t5\<lparr>tn_dns := Some dns\<rparr>) w v" if got for dns
          using owns_block [OF \<open>owns D ?t5 w w5\<close>, of v "?t5\<lparr>tn_dns := Some dns\<rparr>"] m that t3(2)
          by (simp add: tn_fds_def tn_blocks_def)
        have n: "\<not> got \<Longrightarrow> hev_mapped_dns_new net msk mx got alloc = None" for net msk mx
          by (simp add: hev_mapped_dns_new_def)
        show ?thesis
          using 6 m a b n that by (cases got) (auto simp: mapped_dns_init_def Let_def split: if_splits option.splits)
      qed
      have st: "tunnel_init_steps cf alloc efd tunnel_start w =
          (if \<not> g4 then (-1, t3, w4) else if \<not> g5 then (-1, ?t4, w5) else (r6, t6, w6))"
        using r1 r3 3 4 5 6
        by (simp add: tunnel_init_steps_def 1 gateway_init_def lwip_io_task_init_def lwip_timer_task_init_def)
      show ?thesis
      proof (cases g4)
        case False
        have "started efd w (-1) t3 w4" using s3 unfolding r3 by (rule started_step) (use o4 t3 False in auto)
        then show ?thesis using assms(2) st False by simp
      next
        case g4: True
        have s4: "started efd w 0 ?t4 w4" using s3 unfolding r3 by (rule started_step) (use o4 t3 g4 in auto)
        show ?thesis
        proof (cases g5)
          case False
          have "started efd w (-1) ?t4 w5" using s4 by (rule started_step) (use o5 t3 False in auto)
          then show ?thesis using assms(2) st g4 False by simp
        next
          case g5: True
          have s5: "started efd w 0 ?t5 w5" using s4 by (rule started_step) (use o5 t3 g5 in auto)
          then obtain D where "owns D ?t5 w w5" by (auto simp: started_def)
          note f6 = o6 [OF this]
          have "started efd w r6 t6 w6" using s5 by (rule started_step) (use o6 f6 t3 in auto)
          then show ?thesis using assms(2) st g4 g5 by simp
        qed
      qed
    qed
  qed
qed

text \<open>What the tunnel is to give back, which running it does not change, and the table it kept.\<close>

definition owned :: "tunnel \<Rightarrow> int \<times> bool \<times> int \<times> int \<times> bool \<times> bool \<times> bool \<times> bool" where
  "owned t = (tn_fd t, tn_fd_local t, tn_event_fd0 t, tn_event_fd1 t, tn_task_event t, tn_task_lwip_io t,
     tn_task_lwip_timer t, tn_dns t = None)"

definition dns_closable :: "nat \<Rightarrow> tunnel \<Rightarrow> bool" where
  "dns_closable fuel t \<longleftrightarrow> (case tn_dns t of None \<Rightarrow> True | Some dns \<Rightarrow> \<exists>xs. dns_table dns xs \<and> length xs \<le> fuel)"

lemma mapped_dns_fini_closes:
  assumes "dns_closable fuel t"
  shows "\<exists>t' w'. mapped_dns_fini fuel t w = Some (t', w')"
proof (cases "tn_dns t")
  case (Some dns)
  then obtain xs where "dns_table dns xs" "length xs \<le> fuel" using assms by (auto simp: dns_closable_def)
  from dns_table_destruct [OF this] Some show ?thesis by (auto simp: mapped_dns_fini_def)
qed (simp add: mapped_dns_fini_def)

lemma owns_owned: "owns D t w0 w \<Longrightarrow> owned t' = owned t \<Longrightarrow> owns D t' w0 w"
  by (rule owns_same) (auto simp: owned_def tn_fds_def tn_blocks_def)


definition example_boot :: world where
  "example_boot = \<lparr>w_rx = [], w_txs = [], w_tx = [], w_errno = EAGAIN, w_script = replicate 6 0, w_names = [],
     w_next_fd = 3, w_open = {0}, w_live = 0, w_junk = []\<rparr>"


end
