(* ===== verification/Logger.thy ===== *)
theory Logger
  imports Config SockIO
begin

text \<open>
  The loggers of \<open>misc/hev-logger.c\<close> and \<open>core/src/hev-socks5-logger.c\<close>, which differ
  in their names only. A logger is its file scope variables. Of the C library, \<open>snprintf\<close> is
  modelled by what it promises: the length of the whole text as its result, and as much of the
  text as fits in the buffer. What a call writes is the concatenation of the four parts of
  its \<open>writev\<close>.
\<close>

section \<open>Formatting\<close>

fun level_num :: "HevLoggerLevel \<Rightarrow> nat" where
  "level_num HEV_LOGGER_DEBUG = 0"
| "level_num HEV_LOGGER_INFO = 1"
| "level_num HEV_LOGGER_WARN = 2"
| "level_num HEV_LOGGER_ERROR = 3"
| "level_num HEV_LOGGER_UNSET = 4"

text \<open>The decimal digits of a number, and \<open>%0wu\<close>.\<close>

fun dec_digits :: "nat \<Rightarrow> byte list" where
  "dec_digits n = (if n < 10 then [48 + word_of_nat n]
     else dec_digits (n div 10) @ [48 + word_of_nat (n mod 10)])"

declare dec_digits.simps [simp del]

definition fmt_u :: "nat \<Rightarrow> u32 \<Rightarrow> byte list" where
  "fmt_u w v = (let ds = dec_digits (unat v) in replicate (w - length ds) 48 @ ds)"

text \<open>The result of \<open>snprintf\<close> and the buffer of \<open>size\<close> bytes, which held \<open>old\<close>.\<close>

definition c_snprintf :: "byte list \<Rightarrow> byte list \<Rightarrow> int \<times> byte list" where
  "c_snprintf old line =
     (let out = take (length old - 1) line @ [0] in (int (length line), out @ drop (length out) old))"

text \<open>The fields of \<open>struct tm\<close> that are used.\<close>

record tm =
  tm_year :: u32
  tm_mon :: u32
  tm_mday :: u32
  tm_hour :: u32
  tm_min :: u32
  tm_sec :: u32

text \<open>\<open>"[%04u-%02u-%02u %02u:%02u:%02u] "\<close>\<close>

definition time_text :: "tm \<Rightarrow> byte list" where
  "time_text ti = [91] @ fmt_u 4 (1900 + tm_year ti) @ [45] @ fmt_u 2 (1 + tm_mon ti) @ [45] @ fmt_u 2 (tm_mday ti) @
     [32] @ fmt_u 2 (tm_hour ti) @ [58] @ fmt_u 2 (tm_min ti) @ [58] @ fmt_u 2 (tm_sec ti) @ [93, 32]"

fun level_tag :: "HevLoggerLevel \<Rightarrow> byte list" where
  "level_tag HEV_LOGGER_DEBUG = [91, 68, 93, 32]"
| "level_tag HEV_LOGGER_INFO = [91, 73, 93, 32]"
| "level_tag HEV_LOGGER_WARN = [91, 87, 93, 32]"
| "level_tag HEV_LOGGER_ERROR = [91, 69, 93, 32]"
| "level_tag HEV_LOGGER_UNSET = [91, 63, 93, 32]"

section \<open>The logger of the program\<close>

record hev_logger =
  lg_fd :: int
  lg_req_level :: HevLoggerLevel

definition hev_logger_zero :: hev_logger where
  "hev_logger_zero = \<lparr>lg_fd = -1, lg_req_level = HEV_LOGGER_DEBUG\<rparr>"

text \<open>\<open>dup\<close> and \<open>open\<close> return a fresh descriptor or fail.\<close>

definition hev_logger_init :: "HevLoggerLevel \<Rightarrow> byte list \<Rightarrow> hev_logger \<Rightarrow> world \<Rightarrow> int \<times> hev_logger \<times> world" where
  "hev_logger_init level path lg w =
     (let lg = lg\<lparr>lg_req_level := level\<rparr>;
          (fd, w) = (if path = cs ''stdout'' then sys_socket w
             else if path = cs ''stderr'' then sys_socket w
             else sys_socket w);
          lg = lg\<lparr>lg_fd := fd\<rparr>
      in if lg_fd lg < 0 then (-1, lg, w) else (0, lg, w))"

definition hev_logger_fini :: "hev_logger \<Rightarrow> world \<Rightarrow> world" where
  "hev_logger_fini lg w = sys_close (lg_fd lg) w"

definition hev_logger_enabled :: "hev_logger \<Rightarrow> HevLoggerLevel \<Rightarrow> int" where
  "hev_logger_enabled lg level =
     (if level_num (lg_req_level lg) \<le> level_num level \<and> 0 \<le> lg_fd lg then 1 else 0)"

text \<open>\<open>line\<close> is what formatting the arguments gives; \<open>ts\<close> and \<open>msg\<close> what the arrays on the
  stack held. The result is what is written: nothing, or a line to a descriptor.\<close>

definition hev_logger_log ::
  "hev_logger \<Rightarrow> HevLoggerLevel \<Rightarrow> byte list \<Rightarrow> tm \<Rightarrow> byte list \<Rightarrow> byte list \<Rightarrow> (int \<times> byte list) option option" where
  "hev_logger_log lg level line ti ts msg =
     (if level_num level < level_num (lg_req_level lg) \<or> lg_fd lg < 0 then Some None
      else do {
        let (len, ts) = c_snprintf ts (time_text ti);
        iov0 \<leftarrow> mem_read ts 0 (nat len);
        let iov1 = level_tag level;
        let (len, msg) = c_snprintf msg line;
        iov2 \<leftarrow> mem_read msg 0 (nat len);
        let iov3 = [10];
        Some (Some (lg_fd lg, iov0 @ iov1 @ iov2 @ iov3))
      })"

section \<open>The logger of the SOCKS5 library\<close>

record hev_socks5_logger =
  slg_fd :: int
  slg_req_level :: HevLoggerLevel

definition hev_socks5_logger_zero :: hev_socks5_logger where
  "hev_socks5_logger_zero = \<lparr>slg_fd = -1, slg_req_level = HEV_LOGGER_DEBUG\<rparr>"

definition hev_socks5_logger_init ::
  "HevLoggerLevel \<Rightarrow> byte list \<Rightarrow> hev_socks5_logger \<Rightarrow> world \<Rightarrow> int \<times> hev_socks5_logger \<times> world" where
  "hev_socks5_logger_init level path lg w =
     (let lg = lg\<lparr>slg_req_level := level\<rparr>;
          (fd, w) = (if path = cs ''stdout'' then sys_socket w
             else if path = cs ''stderr'' then sys_socket w
             else sys_socket w);
          lg = lg\<lparr>slg_fd := fd\<rparr>
      in if slg_fd lg < 0 then (-1, lg, w) else (0, lg, w))"

definition hev_socks5_logger_fini :: "hev_socks5_logger \<Rightarrow> world \<Rightarrow> world" where
  "hev_socks5_logger_fini lg w = sys_close (slg_fd lg) w"

definition hev_socks5_logger_enabled :: "hev_socks5_logger \<Rightarrow> HevLoggerLevel \<Rightarrow> int" where
  "hev_socks5_logger_enabled lg level =
     (if level_num (slg_req_level lg) \<le> level_num level \<and> 0 \<le> slg_fd lg then 1 else 0)"

definition hev_socks5_logger_log ::
  "hev_socks5_logger \<Rightarrow> HevLoggerLevel \<Rightarrow> byte list \<Rightarrow> tm \<Rightarrow> byte list \<Rightarrow> byte list \<Rightarrow>
   (int \<times> byte list) option option" where
  "hev_socks5_logger_log lg level line ti ts msg =
     (if level_num level < level_num (slg_req_level lg) \<or> slg_fd lg < 0 then Some None
      else do {
        let (len, ts) = c_snprintf ts (time_text ti);
        iov0 \<leftarrow> mem_read ts 0 (nat len);
        let iov1 = level_tag level;
        let (len, msg) = c_snprintf msg line;
        iov2 \<leftarrow> mem_read msg 0 (nat len);
        let iov3 = [10];
        Some (Some (slg_fd lg, iov0 @ iov1 @ iov2 @ iov3))
      })"

section \<open>The lines\<close>

lemma length_dec_digits: "n < 10 ^ Suc k \<Longrightarrow> length (dec_digits n) \<le> Suc k"
proof (induction k arbitrary: n)
  case 0
  then show ?case by (subst dec_digits.simps) simp
next
  case (Suc k)
  then show ?case by (subst dec_digits.simps) auto
qed

lemma length_fmt_u: "unat v < 10 ^ Suc k \<Longrightarrow> Suc k \<le> w \<Longrightarrow> length (fmt_u w v) = w"
  using length_dec_digits [of "unat v" k] by (simp add: fmt_u_def Let_def)

lemma length_fmt_any: "w \<le> 10 \<Longrightarrow> length (fmt_u w v) \<le> 10"
proof -
  have "unat v < 2 ^ 32" using unsigned_less [of v, where ?'a = nat] by simp
  then have "length (dec_digits (unat v)) \<le> 10" using length_dec_digits [of "unat v" 9] by simp
  then show "w \<le> 10 \<Longrightarrow> length (fmt_u w v) \<le> 10" by (simp add: fmt_u_def Let_def)
qed

lemma snprintf_read:
  assumes "length line < length old"
  shows "mem_read (snd (c_snprintf old line)) 0 (length line) = Some line"
  using assms by (simp add: c_snprintf_def Let_def mem_read_def)

text \<open>The fields of a time of day before the year 10000.\<close>

definition tm_ok :: "tm \<Rightarrow> bool" where
  "tm_ok ti \<longleftrightarrow> unat (1900 + tm_year ti) < 10000 \<and> unat (1 + tm_mon ti) < 100 \<and> unat (tm_mday ti) < 100 \<and>
     unat (tm_hour ti) < 100 \<and> unat (tm_min ti) < 100 \<and> unat (tm_sec ti) < 100"

lemma length_time_text: "tm_ok ti \<Longrightarrow> length (time_text ti) = 22"
  by (simp add: tm_ok_def time_text_def length_fmt_u [where k = 3] length_fmt_u [where k = 1])

lemma log_parts:
  assumes "length ts = 32" "tm_ok ti" "level_num (lg_req_level lg) \<le> level_num level" "0 \<le> lg_fd lg"
  shows "hev_logger_log lg level line ti ts msg = do {
    iov2 \<leftarrow> mem_read (snd (c_snprintf msg line)) 0 (length line);
    Some (Some (lg_fd lg, time_text ti @ level_tag level @ iov2 @ [10]))
  }"
proof -
  have "length (time_text ti) = 22" using assms(2) by (rule length_time_text)
  then have "mem_read (snd (c_snprintf ts (time_text ti))) 0 22 = Some (time_text ti)" "length (time_text ti) = 22"
    using snprintf_read [of "time_text ti" ts] assms(1) by simp_all
  moreover have "fst (c_snprintf old line) = int (length line)" for old line
    by (simp add: c_snprintf_def Let_def)
  ultimately show ?thesis using assms(3,4) by (simp add: hev_logger_log_def Let_def split_beta)
qed

lemma log_overread:
  assumes "length ts = 32" "tm_ok ti" "hev_logger_enabled lg level = 1" "length msg < length line" "msg \<noteq> []"
  shows "hev_logger_log lg level line ti ts msg = None"
proof -
  have "level_num (lg_req_level lg) \<le> level_num level" "0 \<le> lg_fd lg"
    using assms(3) by (auto simp: hev_logger_enabled_def split: if_splits)
  moreover have "mem_read (snd (c_snprintf msg line)) 0 (length line) = None"
    using assms(4,5) by (cases msg) (auto simp: c_snprintf_def Let_def mem_read_def)
  ultimately show ?thesis by (simp add: log_parts [OF assms(1,2)])
qed

text \<open>
  C38: A line of the log is exactly the time, the level, the formatted text and a newline, written to
  the descriptor of the logger, when the level is enabled and the text has at most 1023 bytes;
  nothing is written when the level is not enabled. A text of more than 1024 bytes is
  undefined behaviour: the length that \<open>vsnprintf\<close> returns is the one of the whole text, so
  \<open>writev\<close> reads past the end of the array on the stack.
\<close>

theorem logger_line:
  assumes "length ts = 32" "length msg = 1024" "tm_ok ti"
  shows "if hev_logger_enabled lg level = 0 then hev_logger_log lg level line ti ts msg = Some None
    else (length line < 1024 \<longrightarrow> hev_logger_log lg level line ti ts msg =
          Some (Some (lg_fd lg, time_text ti @ level_tag level @ line @ [10]))) \<and>
         (1024 < length line \<longrightarrow> hev_logger_log lg level line ti ts msg = None)"
proof (cases "hev_logger_enabled lg level = 0")
  case True
  then show ?thesis by (auto simp: hev_logger_log_def hev_logger_enabled_def split: if_splits)
next
  case False
  then have e: "hev_logger_enabled lg level = 1" "level_num (lg_req_level lg) \<le> level_num level" "0 \<le> lg_fd lg"
    by (auto simp: hev_logger_enabled_def split: if_splits)
  have "hev_logger_log lg level line ti ts msg = Some (Some (lg_fd lg, time_text ti @ level_tag level @ line @ [10]))"
    if "length line < 1024"
    using log_parts [OF assms(1,3) e(2,3), of line msg] snprintf_read [of line msg] assms(2) that by simp
  then show ?thesis using False log_overread [OF assms(1,3) e(1), of msg line] assms(2) by force
qed

definition example_tm :: tm where
  "example_tm = \<lparr>tm_year = 124, tm_mon = 0, tm_mday = 2, tm_hour = 3, tm_min = 4, tm_sec = 5\<rparr>"

lemma example_tm_ok: "tm_ok example_tm"
  by (simp add: tm_ok_def example_tm_def)

lemma logger_line_witness:
  "hev_logger_log \<lparr>lg_fd = 7, lg_req_level = HEV_LOGGER_WARN\<rparr> HEV_LOGGER_ERROR [104, 105] example_tm
     (replicate 32 0) (replicate 1024 0) =
   Some (Some (7, time_text example_tm @ [91, 69, 93, 32] @ [104, 105] @ [10])) \<and>
   hev_logger_log \<lparr>lg_fd = 7, lg_req_level = HEV_LOGGER_WARN\<rparr> HEV_LOGGER_ERROR (replicate 1025 65) example_tm
     (replicate 32 0) (replicate 1024 0) = None"
  using logger_line [of "replicate 32 0" "replicate 1024 0" example_tm "\<lparr>lg_fd = 7, lg_req_level = HEV_LOGGER_WARN\<rparr>"
      HEV_LOGGER_ERROR "[104, 105]"]
    logger_line [of "replicate 32 0" "replicate 1024 0" example_tm "\<lparr>lg_fd = 7, lg_req_level = HEV_LOGGER_WARN\<rparr>"
      HEV_LOGGER_ERROR "replicate 1025 65"] example_tm_ok
  by (simp add: hev_logger_enabled_def)

end
