(* ===== verification/Program.thy ===== *)
theory Program
  imports Tunnel Logger
begin

text \<open>
  The program of \<open>hev-main.c\<close>: it takes the configuration over into the SOCKS5 core, opens
  the two loggers, becomes a daemon when it is asked to, and runs the tunnel. Results of the task
  system and of the other calls come from the world.
\<close>

record program =
  pg_cfg :: socks5_settings
  pg_tunnel :: tunnel
  pg_log :: hev_logger
  pg_slog :: hev_socks5_logger

definition main_settings :: "hev_config \<Rightarrow> socks5_settings \<Rightarrow> socks5_settings" where
  "main_settings cf cfg =
     hev_socks5_set_udp_recv_buffer_size (hev_config_get_misc_udp_recv_buffer_size cf)
       (hev_socks5_set_udp_timeout (hev_config_get_misc_udp_read_write_timeout cf)
         (hev_socks5_set_tcp_timeout (hev_config_get_misc_tcp_read_write_timeout cf)
           (hev_socks5_set_connect_timeout (hev_config_get_misc_connect_timeout cf) cfg)))"

text \<open>What a call of the logger depends on: the time and what the arrays on its stack held.\<close>

type_synonym log_frame = "tm \<times> byte list \<times> byte list"

text \<open>\<open>daemon\<close> has a result that is ignored; what is written to the file is its output.\<close>

definition run_as_daemon :: "byte list \<Rightarrow> hev_logger \<Rightarrow> log_frame \<Rightarrow> world \<Rightarrow> world option" where
  "run_as_daemon pid_file lg lf w = (case lf of (ti, ts, msg) \<Rightarrow>
     let (fp, w) = sys_socket w
     in if fp < 0 then do {
          _ \<leftarrow> hev_logger_log lg HEV_LOGGER_ERROR (cs ''open pid file '' @ pid_file) ti ts msg;
          Some w
        }
        else let (_, w) = sys_result w in Some (sys_close fp w))"

definition hev_socks5_tunnel_main_inner ::
  "hev_config \<Rightarrow> (ptr \<times> bool) list \<Rightarrow> nat \<Rightarrow> (tunnel \<Rightarrow> tunnel option) \<Rightarrow> log_frame \<Rightarrow> int \<Rightarrow> program \<Rightarrow>
   world \<Rightarrow> (int \<times> program \<times> world) option" where
  "hev_socks5_tunnel_main_inner cf alloc fuel system_run lf tun_fd p w = do {
     let log_file = hev_config_get_misc_log_file cf;
     let log_level = hev_config_get_misc_log_level cf;
     let p = p\<lparr>pg_cfg := main_settings cf (pg_cfg p)\<rparr>;
     let (res, lg, w) = hev_logger_init log_level log_file (pg_log p) w;
     let p = p\<lparr>pg_log := lg\<rparr>;
     if res < 0 then Some (-2, p, w)
     else do {
       let (res, slg, w) = hev_socks5_logger_init log_level log_file (pg_slog p) w;
       let p = p\<lparr>pg_slog := slg\<rparr>;
       if res < 0 then Some (-3, p, w)
       else do {
         let (res, w) = set_limit_nofile (hev_config_get_misc_limit_nofile cf) w;
         _ \<leftarrow> (if res < 0 then (case lf of (ti, ts, msg) \<Rightarrow>
                  hev_logger_log lg HEV_LOGGER_INFO (cs ''set limit nofile'') ti ts msg)
               else Some None);
         w \<leftarrow> (case hev_config_get_misc_pid_file cf of None \<Rightarrow> Some w
               | Some pid_file \<Rightarrow> run_as_daemon pid_file lg lf w);
         let (res, w) = sys_result w;
         if res < 0 then Some (-4, p, w)
         else do {
           (res, t, w) \<leftarrow> hev_socks5_tunnel_init cf alloc fuel tun_fd (pg_tunnel p) w;
           let p = p\<lparr>pg_tunnel := t\<rparr>;
           if res < 0 then Some (-5, p, w)
           else do {
             (_, t) \<leftarrow> hev_socks5_tunnel_run system_run t;
             (t, w) \<leftarrow> hev_socks5_tunnel_fini fuel t w;
             let w = hev_socks5_logger_fini slg w;
             let w = hev_logger_fini lg w;
             Some (0, p\<lparr>pg_tunnel := t\<rparr>, w)
           }
         }
       }
     }
   }"

definition hev_socks5_tunnel_main_from_file where
  "hev_socks5_tunnel_main_from_file pton4 snd_buf parser_ok fopen load config_path cf alloc fuel system_run
     lf tun_fd p w = do {
     (res, cf) \<leftarrow> hev_config_init_from_file pton4 snd_buf parser_ok fopen load config_path cf;
     if res < 0 then Some (-1, p, w)
     else hev_socks5_tunnel_main_inner cf alloc fuel system_run lf tun_fd p w
   }"

definition hev_socks5_tunnel_main_from_str where
  "hev_socks5_tunnel_main_from_str pton4 snd_buf parser_ok load config_str cf alloc fuel system_run
     lf tun_fd p w = do {
     (res, cf) \<leftarrow> hev_config_init_from_str pton4 snd_buf parser_ok load config_str cf;
     if res < 0 then Some (-1, p, w)
     else hev_socks5_tunnel_main_inner cf alloc fuel system_run lf tun_fd p w
   }"

definition hev_socks5_tunnel_main where
  "hev_socks5_tunnel_main pton4 snd_buf parser_ok fopen load config_path cf alloc fuel system_run lf tun_fd p w =
     hev_socks5_tunnel_main_from_file pton4 snd_buf parser_ok fopen load config_path cf alloc fuel system_run
       lf tun_fd p w"

definition hev_socks5_tunnel_quit :: "int list \<Rightarrow> int option" where
  "hev_socks5_tunnel_quit fds = hev_socks5_tunnel_stop fds"

text \<open>The handler of SIGINT stops the tunnel. The help text is output only.\<close>

definition sigint_handler :: "int \<Rightarrow> int list \<Rightarrow> int option" where
  "sigint_handler signum fds = hev_socks5_tunnel_stop fds"

definition program_main where
  "program_main pton4 snd_buf parser_ok fopen load argv cf alloc fuel system_run lf p w =
     (if length argv < 2 \<or> argv ! 1 = cs ''--version'' then Some (-1, p, w)
      else do {
        (res, p, w) \<leftarrow> hev_socks5_tunnel_main pton4 snd_buf parser_ok fopen load (argv ! 1) cf alloc fuel system_run
          lf (-1) p w;
        Some (if res < 0 then -2 else 0, p, w)
      })"

section \<open>Failing to start\<close>

lemma sys_socket_result:
  assumes "sys_socket w = (fd, w')"
  shows "w_next_fd w \<le> w_next_fd w' \<and>
    (fd = -1 \<and> w_open w' = w_open w \<and> w_next_fd w' = w_next_fd w \<or>
     fd = w_next_fd w \<and> w_open w' = insert fd (w_open w) \<and> w_next_fd w' = w_next_fd w + 1)"
proof -
  obtain r w1 where "sys_result w = (r, w1)" by force
  with sys_result_frame [OF this] assms show ?thesis by (auto simp: sys_socket_def split: if_splits)
qed

lemma logger_init_result:
  assumes "hev_logger_init level path lg w = (r, lg', w')" "fds_ok w"
  shows "fds_ok w' \<and> (r = -1 \<and> w_open w' = w_open w \<or>
    r = 0 \<and> lg_fd lg' = w_next_fd w \<and> w_open w' = insert (w_next_fd w) (w_open w) \<and> w_next_fd w' = w_next_fd w + 1)"
proof -
  obtain fd w1 where s: "sys_socket w = (fd, w1)" by force
  show ?thesis using sys_socket_result [OF s] assms s
    by (auto simp: hev_logger_init_def Let_def fds_ok_def split: if_splits)
qed

lemma socks5_logger_init_result:
  assumes "hev_socks5_logger_init level path lg w = (r, lg', w')" "fds_ok w"
  shows "fds_ok w' \<and> (r = -1 \<and> w_open w' = w_open w \<or>
    r = 0 \<and> slg_fd lg' = w_next_fd w \<and> w_open w' = insert (w_next_fd w) (w_open w) \<and> w_next_fd w' = w_next_fd w + 1)"
proof -
  obtain fd w1 where s: "sys_socket w = (fd, w1)" by force
  show ?thesis using sys_socket_result [OF s] assms s
    by (auto simp: hev_socks5_logger_init_def Let_def fds_ok_def split: if_splits)
qed

lemma run_as_daemon_open:
  assumes "run_as_daemon path lg lf w = Some w'" "fds_ok w"
  shows "w_open w' = w_open w"
proof -
  obtain fd w1 where s: "sys_socket w = (fd, w1)" by force
  obtain ti ts msg where lf: "lf = (ti, ts, msg)" by (rule prod_cases3)
  obtain r w2 where r: "sys_result w1 = (r, w2)" by force
  show ?thesis
  proof (cases "fd < 0")
    case True
    then have "(do { _ \<leftarrow> hev_logger_log lg HEV_LOGGER_ERROR (cs ''open pid file '' @ path) ti ts msg; Some w1 }) = Some w'"
      using assms(1) True by (simp only: run_as_daemon_def lf s prod.case Let_def if_True)
    then have "w' = w1"
      by (cases "hev_logger_log lg HEV_LOGGER_ERROR (cs ''open pid file '' @ path) ti ts msg") simp_all
    then show ?thesis using sys_socket_result [OF s] True assms(2) by (auto simp: fds_ok_def)
  next
    case False
    then have "w' = sys_close fd w2" using assms(1) s r by (simp add: run_as_daemon_def lf)
    then show ?thesis
      using sys_socket_result [OF s] sys_result_frame(5) [OF r] False assms(2) by (auto simp: fds_ok_def sys_close_def)
  qed
qed

text \<open>
  C39: When the second logger cannot be opened, starting up returns with the descriptor of the first
  one still open, and when the task system cannot be initialised with both. Nothing keeps these
  descriptors, so every such start of a process that goes on, as the Android application
  does, loses them.
\<close>

theorem failed_start_leaks_loggers:
  assumes "hev_socks5_tunnel_main_inner cf alloc fuel system_run lf tun_fd p w = Some (r, p', w')" "fds_ok w"
  shows "(r = -3 \<longrightarrow> w_open w' = insert (w_next_fd w) (w_open w) \<and> w_next_fd w \<notin> w_open w) \<and>
    (r = -4 \<longrightarrow> w_open w' = {w_next_fd w, w_next_fd w + 1} \<union> w_open w \<and>
       {w_next_fd w, w_next_fd w + 1} \<inter> w_open w = {})"
proof -
  let ?path = "hev_config_get_misc_log_file cf" and ?level = "hev_config_get_misc_log_level cf"
  have "fd < w_next_fd w" if "fd \<in> w_open w" for fd using assms(2) that by (simp add: fds_ok_def)
  from this [of "w_next_fd w"] this [of "w_next_fd w + 1"]
  have fresh: "w_next_fd w \<notin> w_open w" "w_next_fd w + 1 \<notin> w_open w" by auto
  obtain r1 lg w1 where 1: "hev_logger_init ?level ?path (pg_log p) w = (r1, lg, w1)" by (rule prod_cases3)
  obtain r2 slg w2 where 2: "hev_socks5_logger_init ?level ?path (pg_slog p) w1 = (r2, slg, w2)" by (rule prod_cases3)
  obtain r3 w3 where 3: "set_limit_nofile (hev_config_get_misc_limit_nofile cf) w2 = (r3, w3)" by force
  note l1 = logger_init_result [OF 1 assms(2)]
  then have l2: "fds_ok w2 \<and> (r2 = -1 \<and> w_open w2 = w_open w1 \<or> r2 = 0 \<and> w_open w2 = insert (w_next_fd w1) (w_open w1))"
    using socks5_logger_init_result [OF 2] by auto
  have c: "r1 = -1 \<or> r1 = 0" "r2 = -1 \<or> r2 = 0" using l1 l2 by blast+
  have f3: "w_open w3 = w_open w2" "fds_ok w3"
    using 3 sys_result_frame [of w2 r3 w3] l2 by (auto simp: set_limit_nofile_def fds_ok_def)
  have d: "w_open w4 = w_open w3" if "(case hev_config_get_misc_pid_file cf of None \<Rightarrow> Some w3
       | Some pid_file \<Rightarrow> run_as_daemon pid_file lg lf w3) = Some w4" for w4
    using that run_as_daemon_open [OF _ f3(2)] by (auto split: option.splits)
  have "r = -3 \<and> r1 = 0 \<and> r2 = -1 \<and> w' = w2 \<or> r = -4 \<and> r1 = 0 \<and> r2 = 0 \<and> w_open w' = w_open w3 \<or> r \<noteq> -3 \<and> r \<noteq> -4"
  proof (cases "r1 < 0 \<or> r2 < 0")
    case True
    then show ?thesis using assms(1) l1 l2 by (auto simp: hev_socks5_tunnel_main_inner_def 1 2 Let_def split: if_splits)
  next
    case False
    let ?L = "if r3 < 0 then (case lf of (ti, ts, msg) \<Rightarrow>
      hev_logger_log lg HEV_LOGGER_INFO (cs ''set limit nofile'') ti ts msg) else Some None"
    let ?D = "case hev_config_get_misc_pid_file cf of None \<Rightarrow> Some w3 | Some pid_file \<Rightarrow> run_as_daemon pid_file lg lf w3"
    note M = assms(1) [unfolded hev_socks5_tunnel_main_inner_def Let_def]
    have n: "\<not> r1 < 0" "\<not> r2 < 0" using False by simp_all
    obtain x where x: "?L = Some x" using M n by (cases ?L) (simp_all add: 1 2 3)
    obtain w4 where w4: "?D = Some w4" using M n x by (cases ?D) (simp_all add: 1 2 3)
    obtain r5 w5 where r5: "sys_result w4 = (r5, w5)" by force
    have e: "r5 < 0 \<Longrightarrow> r = -4 \<and> w' = w5" using M n x w4 r5 by (simp add: 1 2 3)
    have g: "r = -5 \<or> r = 0" if g: "\<not> r5 < 0"
    proof -
      obtain r6 t w6 where i: "hev_socks5_tunnel_init cf alloc fuel tun_fd (pg_tunnel p) w5 = Some (r6, t, w6)"
        using M n x w4 r5 g
        by (cases "hev_socks5_tunnel_init cf alloc fuel tun_fd (pg_tunnel p) w5") (auto simp add: 1 2 3)
      show ?thesis
      proof (cases "r6 < 0")
        case False
        obtain u t2 where ru: "hev_socks5_tunnel_run system_run t = Some (u, t2)"
          using M n x w4 r5 g i False by (cases "hev_socks5_tunnel_run system_run t") (auto simp add: 1 2 3)
        obtain t3 w7 where fi: "hev_socks5_tunnel_fini fuel t2 w6 = Some (t3, w7)"
          using M n x w4 r5 g i False ru by (cases "hev_socks5_tunnel_fini fuel t2 w6") (auto simp add: 1 2 3)
        show ?thesis using M n x w4 r5 g i False ru fi by (simp add: 1 2 3)
      qed (use M n x w4 r5 g i in \<open>simp add: 1 2 3\<close>)
    qed
    have z: "r1 = 0" "r2 = 0" using c n by auto
    have o5: "w_open w5 = w_open w3" using d [OF w4] sys_result_frame(5) [OF r5] by simp
    show ?thesis
    proof (cases "r5 < 0")
      case True
      then show ?thesis using e z o5 by simp
    next
      case False
      from g [OF this] show ?thesis by auto
    qed
  qed
  then consider "r = -3" "r1 = 0" "r2 = -1" "w' = w2" | "r = -4" "r1 = 0" "r2 = 0" "w_open w' = w_open w3"
    | "r \<noteq> -3" "r \<noteq> -4" by blast
  then show ?thesis
  proof cases
    case 1
    then have "w_open w' = insert (w_next_fd w) (w_open w)" using l1 l2 by simp
    then show ?thesis using 1(1) fresh(1) by simp
  next
    case 2
    have "w_open w' = insert (w_next_fd w1) (w_open w1)" using 2 l2 f3(1) by simp
    moreover have "w_next_fd w1 = w_next_fd w + 1" "w_open w1 = insert (w_next_fd w) (w_open w)"
      using 2(2) l1 by simp_all
    ultimately have "w_open w' = {w_next_fd w, w_next_fd w + 1} \<union> w_open w" by auto
    then show ?thesis using 2(1) fresh by simp
  qed simp
qed

definition program_start :: program where
  "program_start = \<lparr>pg_cfg = socks5_settings_init, pg_tunnel = tunnel_start, pg_log = hev_logger_zero,
     pg_slog = hev_socks5_logger_zero\<rparr>"

definition boot_world :: "int list \<Rightarrow> world" where
  "boot_world rs = \<lparr>w_rx = [], w_txs = [], w_tx = [], w_errno = EOTHER, w_script = rs, w_names = [],
     w_next_fd = 3, w_open = {}, w_live = 0, w_junk = []\<rparr>"

lemma failed_start_leaks_loggers_witness:
  "\<exists>p' w'. hev_socks5_tunnel_main_inner hev_config_default [] 9 Some (example_tm, [], []) 5 program_start
     (boot_world [0]) = Some (-3, p', w') \<and> w_open w' = {3}"
proof -
  let ?w = "boot_world [0]"
  let ?w1 = "?w\<lparr>w_script := [], w_next_fd := 4, w_open := {3}\<rparr>"
  have 1: "hev_logger_init level path lg ?w = (0, lg\<lparr>lg_fd := 3, lg_req_level := level\<rparr>, ?w1)" for level path lg
    by (simp add: hev_logger_init_def sys_socket_def sys_result_def boot_world_def)
  have 2: "hev_socks5_logger_init level path lg ?w1 = (-1, lg\<lparr>slg_fd := -1, slg_req_level := level\<rparr>, ?w1)"
    for level path lg by (simp add: hev_socks5_logger_init_def sys_socket_def sys_result_def)
  obtain p' w' where r: "hev_socks5_tunnel_main_inner hev_config_default [] 9 Some (example_tm, [], []) 5 program_start
      ?w = Some (-3, p', w')" by (simp add: hev_socks5_tunnel_main_inner_def Let_def 1 2)
  have "fds_ok ?w" by (simp add: fds_ok_def boot_world_def)
  from failed_start_leaks_loggers [OF r this] have "w_open w' = {3}" by (simp add: boot_world_def)
  with r show ?thesis by blast
qed

text \<open>
  Becoming a daemon with a name of the pid file that the configuration accepts, but of more than
  1010 bytes, is undefined behaviour when the file cannot be opened: the message about it is
  longer than the logger's array, and the logger reads past its end.
\<close>

theorem long_pid_file_overread:
  assumes "sys_socket w = (-1, w')" "hev_logger_enabled lg HEV_LOGGER_ERROR = 1" "1010 < length pid_file"
    and "length ts = 32" "length msg = 1024" "tm_ok ti"
  shows "run_as_daemon pid_file lg (ti, ts, msg) w = None"
proof -
  have "length (cs ''open pid file '') = 14" by (simp add: cs_def)
  then have "hev_logger_log lg HEV_LOGGER_ERROR (cs ''open pid file '' @ pid_file) ti ts msg = None"
    using assms by (intro log_overread) auto
  then show ?thesis using assms(1) by (simp add: run_as_daemon_def)
qed

lemma long_pid_file_overread_witness:
  "run_as_daemon (replicate 1011 97) \<lparr>lg_fd = 3, lg_req_level = HEV_LOGGER_WARN\<rparr>
     (example_tm, replicate 32 0, replicate 1024 0) (boot_world []) = None"
  by (rule long_pid_file_overread [of _ "boot_world []"])
    (simp_all add: sys_socket_def sys_result_def boot_world_def hev_logger_enabled_def example_tm_ok)

end
