(* ===== verification/Service.thy ===== *)
theory Service
  imports Program Lifecycle
begin

text \<open>
  The bridge of \<open>hev-jni.c\<close> between the service of the Android application and the program: starting
  it in a thread, stopping it, and its statistics. A mutex makes each call a single step, but the
  thread runs beside them. What Java passes and the results of the calls of the C library are
  arguments.
\<close>

text \<open>The file scope variables; \<open>sv_thread\<close> is the thread that was created and not joined, with what it
  was given, and \<open>sv_blocks\<close> counts the blocks of memory for that.\<close>

type_synonym ThreadData = "byte list option \<times> int"

record service =
  sv_is_working :: bool
  sv_thread :: "ThreadData option"
  sv_blocks :: int

definition service_zero :: service where
  "service_zero = \<lparr>sv_is_working = False, sv_thread = None, sv_blocks = 0\<rparr>"

text \<open>\<open>got\<close> and \<open>dup\<close> are whether \<open>malloc\<close> and \<open>strdup\<close> succeed. The result of \<open>pthread_create\<close> is 0
  when there is a thread, and a positive error number when there is none.\<close>

definition native_start_service ::
  "bool \<Rightarrow> bool \<Rightarrow> int \<Rightarrow> byte list \<Rightarrow> int \<Rightarrow> service \<Rightarrow> service option" where
  "native_start_service got dup created config_path fd s =
     (if sv_is_working s then Some s
      else if \<not> got then None
      else
        let tdata = (if dup then Some config_path else None, fd);
            s = s\<lparr>sv_blocks := sv_blocks s + 1 + of_bool dup\<rparr>;
            s = s\<lparr>sv_thread := (if created = 0 then Some tdata else None)\<rparr>
        in if created < 0 then Some (s\<lparr>sv_blocks := sv_blocks s - 1 - of_bool dup\<rparr>)
           else Some (s\<lparr>sv_is_working := True\<rparr>))"

text \<open>The thread; without a path it passes a null pointer on.\<close>

definition thread_handler where
  "thread_handler pton4 snd_buf parser_ok fopen load cf alloc fuel system_run lf tdata p w s = (case tdata of
     (None, fd) \<Rightarrow> None
   | (Some path, fd) \<Rightarrow> do {
       (_, p, w) \<leftarrow> hev_socks5_tunnel_main pton4 snd_buf parser_ok fopen load path cf alloc fuel system_run lf fd p w;
       Some (p, w, s\<lparr>sv_blocks := sv_blocks s - 2\<rparr>)
     })"

text \<open>\<open>fds\<close> are the values of the event socket that stopping reads until there is one; \<open>None\<close> while it
  goes on reading, and when the thread to be joined does not exist.\<close>

definition native_stop_service :: "int list \<Rightarrow> service \<Rightarrow> service option" where
  "native_stop_service fds s =
     (if \<not> sv_is_working s then Some s
      else do {
        _ \<leftarrow> hev_socks5_tunnel_quit fds;
        _ \<leftarrow> sv_thread s;
        Some (s\<lparr>sv_thread := None, sv_is_working := False\<rparr>)
      })"

text \<open>A \<open>jlong\<close> is signed.\<close>

definition native_get_stats :: "tunnel \<Rightarrow> int list" where
  "native_get_stats t =
     (case hev_socks5_tunnel_stats t of (txp, txb, rxp, rxb) \<Rightarrow>
        [sint txp, sint txb, sint rxp, sint rxb])"

section \<open>The event socket when the program has ended\<close>

lemma stop_waits: "fd < 0 \<Longrightarrow> hev_socks5_tunnel_stop (replicate n fd) = None"
  by (induction n) simp_all

lemma no_event_fd: "tn_fds t = {} \<Longrightarrow> tn_event_fd1 t < 0"
  unfolding tn_fds_def by (rule ccontr) (metis (mono_tags, lifting) empty_iff linorder_not_less mem_Collect_eq)

lemma fini_event_fd:
  assumes "hev_socks5_tunnel_fini fuel t w = Some (t', w')"
  shows "tn_event_fd1 t' < 0"
proof -
  obtain t1 w1 where m: "mapped_dns_fini fuel t w = Some (t1, w1)"
    using assms by (auto simp: hev_socks5_tunnel_fini_def split: bind_splits)
  obtain t2 w2 where 2: "lwip_timer_task_fini t1 w1 = (t2, w2)" by force
  obtain t3 w3 where 3: "lwip_io_task_fini t2 w2 = (t3, w3)" by force
  obtain t4 w4 where 4: "event_task_fini t3 w3 = (t4, w4)" by force
  obtain t5 w5 where 5: "tunnel_fini (gateway_fini t4) w4 = (t5, w5)" by force
  have "t' = t5\<lparr>tn_tx_packets := 0, tn_rx_packets := 0, tn_tx_bytes := 0, tn_rx_bytes := 0\<rparr>"
    using assms m 2 3 4 5 by (simp add: hev_socks5_tunnel_fini_def)
  moreover have "tn_fds t5 = {}"
    using tunnel_fini_result(4) [OF 5] event_task_fini_result(4) [OF 4] by (simp add: gateway_fini_def tn_fds_def)
  ultimately show ?thesis using no_event_fd [of t5] by simp
qed

lemma init_event_fd:
  assumes "hev_socks5_tunnel_init cf alloc fuel efd t w = Some (r, t', w')" "r < 0"
  shows "tn_event_fd1 t' < 0"
proof -
  obtain q u v where i: "tunnel_init_steps cf alloc efd t w = (q, u, v)" by (rule prod_cases3)
  then have "q < 0" using assms by (auto simp: hev_socks5_tunnel_init_def split: if_splits)
  then obtain y where "hev_socks5_tunnel_fini fuel u v = Some (t', y)"
    using assms i by (auto simp: hev_socks5_tunnel_init_def split: bind_splits)
  then show ?thesis by (rule fini_event_fd)
qed

lemma main_inner_event_fd:
  assumes "hev_socks5_tunnel_main_inner cf alloc fuel system_run lf tun_fd p w = Some (r, p', w')"
    "tn_event_fd1 (pg_tunnel p) < 0"
  shows "tn_event_fd1 (pg_tunnel p') < 0"
proof -
  let ?path = "hev_config_get_misc_log_file cf" and ?level = "hev_config_get_misc_log_level cf"
  obtain r1 lg w1 where 1: "hev_logger_init ?level ?path (pg_log p) w = (r1, lg, w1)" by (rule prod_cases3)
  obtain r2 slg w2 where 2: "hev_socks5_logger_init ?level ?path (pg_slog p) w1 = (r2, slg, w2)" by (rule prod_cases3)
  obtain r3 w3 where 3: "set_limit_nofile (hev_config_get_misc_limit_nofile cf) w2 = (r3, w3)" by force
  note M = assms(1) [unfolded hev_socks5_tunnel_main_inner_def Let_def]
  show ?thesis
  proof (cases "r1 < 0 \<or> r2 < 0")
    case True
    then have "pg_tunnel p' = pg_tunnel p" using M by (auto simp: 1 2 split: if_splits)
    then show ?thesis using assms(2) by simp
  next
    case False
    let ?L = "if r3 < 0 then (case lf of (ti, ts, msg) \<Rightarrow>
      hev_logger_log lg HEV_LOGGER_INFO (cs ''set limit nofile'') ti ts msg) else Some None"
    let ?D = "case hev_config_get_misc_pid_file cf of None \<Rightarrow> Some w3 | Some pid_file \<Rightarrow> run_as_daemon pid_file lg lf w3"
    have n: "\<not> r1 < 0" "\<not> r2 < 0" using False by simp_all
    obtain x where x: "?L = Some x" using M n by (cases ?L) (simp_all add: 1 2 3)
    obtain w4 where w4: "?D = Some w4" using M n x by (cases ?D) (simp_all add: 1 2 3)
    obtain r5 w5 where r5: "sys_result w4 = (r5, w5)" by force
    show ?thesis
    proof (cases "r5 < 0")
      case True
      then have "pg_tunnel p' = pg_tunnel p" using M n x w4 r5 by (auto simp: 1 2 3)
      then show ?thesis using assms(2) by simp
    next
      case g: False
      obtain r6 t w6 where i: "hev_socks5_tunnel_init cf alloc fuel tun_fd (pg_tunnel p) w5 = Some (r6, t, w6)"
        using M n x w4 r5 g
        by (cases "hev_socks5_tunnel_init cf alloc fuel tun_fd (pg_tunnel p) w5") (auto simp add: 1 2 3)
      show ?thesis
      proof (cases "r6 < 0")
        case True
        then have "pg_tunnel p' = t" using M n x w4 r5 g i by (auto simp: 1 2 3)
        then show ?thesis using init_event_fd [OF i True] by simp
      next
        case False
        obtain u t2 where ru: "hev_socks5_tunnel_run system_run t = Some (u, t2)"
          using M n x w4 r5 g i False by (cases "hev_socks5_tunnel_run system_run t") (auto simp add: 1 2 3)
        obtain t3 w7 where fi: "hev_socks5_tunnel_fini fuel t2 w6 = Some (t3, w7)"
          using M n x w4 r5 g i False ru by (cases "hev_socks5_tunnel_fini fuel t2 w6") (auto simp add: 1 2 3)
        have "pg_tunnel p' = t3" using M n x w4 r5 g i False ru fi by (auto simp: 1 2 3)
        then show ?thesis using fini_event_fd [OF fi] by simp
      qed
    qed
  qed
qed

lemma thread_event_fd:
  assumes "thread_handler pton4 snd_buf parser_ok fopen load cf alloc fuel system_run lf tdata p w s = Some (p', w', s')"
    "tn_event_fd1 (pg_tunnel p) < 0"
  shows "tn_event_fd1 (pg_tunnel p') < 0" "s' = s\<lparr>sv_blocks := sv_blocks s - 2\<rparr>"
proof -
  obtain path fd where td: "tdata = (Some path, fd)" using assms(1) by (cases tdata) (auto simp: thread_handler_def split: option.splits)
  obtain r where m: "hev_socks5_tunnel_main pton4 snd_buf parser_ok fopen load path cf alloc fuel system_run lf fd p w =
      Some (r, p', w')" and s': "s' = s\<lparr>sv_blocks := sv_blocks s - 2\<rparr>"
    using assms(1) td by (auto simp: thread_handler_def split: bind_splits)
  show "s' = s\<lparr>sv_blocks := sv_blocks s - 2\<rparr>" by (fact s')
  obtain q cf' where c: "hev_config_init_from_file pton4 snd_buf parser_ok fopen load path cf = Some (q, cf')"
    using m by (auto simp: hev_socks5_tunnel_main_def hev_socks5_tunnel_main_from_file_def split: bind_splits)
  show "tn_event_fd1 (pg_tunnel p') < 0"
  proof (cases "q < 0")
    case True
    then show ?thesis using m c assms(2)
      by (simp add: hev_socks5_tunnel_main_def hev_socks5_tunnel_main_from_file_def)
  next
    case False
    then have "hev_socks5_tunnel_main_inner cf' alloc fuel system_run lf fd p w = Some (r, p', w')"
      using m c by (simp add: hev_socks5_tunnel_main_def hev_socks5_tunnel_main_from_file_def)
    then show ?thesis using assms(2) by (rule main_inner_event_fd)
  qed
qed

section \<open>Stopping\<close>

text \<open>
  C40: Stopping the service never returns when the program is not running any more, or never was: after
  a start whose thread could not be created, because the error number is positive where the
  check is for a negative one, and after the program has ended in the thread by itself, as it
  does when the configuration is not accepted. In both cases the service counts as working, and
  stopping reads the event socket for ever, with the mutex held. While the thread runs and has opened the
  event socket, stopping leaves the service as it was before the start.
\<close>

theorem service_stop:
  assumes "\<not> sv_is_working s" "sv_thread s = None" "tn_event_fd1 (pg_tunnel p) < 0"
    "native_start_service True True created path fd s = Some s1"
  shows "(0 < created \<longrightarrow> (\<forall>n. native_stop_service (replicate n (tn_event_fd1 (pg_tunnel p))) s1 = None)) \<and>
    (created = 0 \<longrightarrow> (\<forall>p' w w' s2.
       thread_handler pton4 snd_buf parser_ok fopen load cf alloc fuel system_run lf (the (sv_thread s1)) p w s1 =
         Some (p', w', s2) \<longrightarrow> sv_blocks s2 = sv_blocks s \<and>
         (\<forall>n. native_stop_service (replicate n (tn_event_fd1 (pg_tunnel p'))) s2 = None))) \<and>
    (created = 0 \<longrightarrow> (\<forall>n efd. 0 \<le> efd \<longrightarrow>
       native_stop_service (replicate n (tn_event_fd1 (pg_tunnel p)) @ [efd]) s1 =
         Some (s\<lparr>sv_blocks := sv_blocks s1\<rparr>)))"
proof (intro conjI impI allI)
  have s1: "s1 = (if created < 0 then s
      else s\<lparr>sv_blocks := sv_blocks s + 2, sv_is_working := True,
        sv_thread := (if created = 0 then Some (Some path, fd) else None)\<rparr>)"
    using assms(1,2,4) by (auto simp: native_start_service_def Let_def)
  have w: "sv_is_working s1" if "0 \<le> created" using s1 that by simp
  show "native_stop_service (replicate n (tn_event_fd1 (pg_tunnel p))) s1 = None" if "0 < created" for n
    using w that stop_waits [OF assms(3)] by (simp add: native_stop_service_def hev_socks5_tunnel_quit_def)
  { fix p' w w' s2
    assume c: "created = 0" and h: "thread_handler pton4 snd_buf parser_ok fopen load cf alloc fuel system_run lf
      (the (sv_thread s1)) p w s1 = Some (p', w', s2)"
    note t = thread_event_fd [OF h assms(3)]
    show "sv_blocks s2 = sv_blocks s" using t(2) s1 c by simp
    show "native_stop_service (replicate n (tn_event_fd1 (pg_tunnel p'))) s2 = None" for n
      using t(2) w c stop_waits [OF t(1)] by (simp add: native_stop_service_def hev_socks5_tunnel_quit_def) }
  show "native_stop_service (replicate n (tn_event_fd1 (pg_tunnel p)) @ [efd]) s1 = Some (s\<lparr>sv_blocks := sv_blocks s1\<rparr>)"
    if "created = 0" "0 \<le> efd" for n efd
  proof -
    have "hev_socks5_tunnel_stop (replicate n (tn_event_fd1 (pg_tunnel p)) @ [efd]) = Some efd"
      using assms(3) that(2) by (induction n) simp_all
    then show ?thesis using s1 that(1) assms(1,2)
      by (simp add: native_stop_service_def hev_socks5_tunnel_quit_def)
  qed
qed

text \<open>A service whose configuration file cannot be opened, and one whose thread cannot be created.\<close>

lemma service_stop_witness:
  "(\<exists>s1 p' w' s2. native_start_service True True 0 [99] 5 service_zero = Some s1 \<and>
     thread_handler (\<lambda>_. None) 0 True (\<lambda>_. None) (\<lambda>_. None) hev_config_default [] 9 Some (example_tm, [], [])
       (the (sv_thread s1)) program_start (boot_world []) s1 = Some (p', w', s2) \<and>
     (\<forall>n. native_stop_service (replicate n (tn_event_fd1 (pg_tunnel p'))) s2 = None)) \<and>
   (\<exists>s1. native_start_service True True 11 [99] 5 service_zero = Some s1 \<and>
     (\<forall>n. native_stop_service (replicate n (-1)) s1 = None))"
proof (rule conjI)
  have z: "\<not> sv_is_working service_zero" "sv_thread service_zero = None" "tn_event_fd1 (pg_tunnel program_start) < 0"
    by (simp_all add: service_zero_def program_start_def tunnel_start_def)
  let ?s = "\<lparr>sv_is_working = True, sv_thread = Some (Some [99], 5), sv_blocks = 2\<rparr>"
  let ?h = "thread_handler (\<lambda>_. None) 0 True (\<lambda>_. None) (\<lambda>_. None) hev_config_default [] 9 Some (example_tm, [], [])
      (the (sv_thread ?s)) program_start (boot_world []) ?s"
  have 1: "native_start_service True True 0 [99] 5 service_zero = Some ?s"
    by (simp add: native_start_service_def service_zero_def)
  have h: "?h = Some (program_start, boot_world [], ?s\<lparr>sv_blocks := 0\<rparr>)"
    by (simp add: thread_handler_def hev_socks5_tunnel_main_def hev_socks5_tunnel_main_from_file_def
        hev_config_init_from_file_def)
  from service_stop [OF z 1, THEN conjunct2, THEN conjunct1] h
  have "\<forall>n. native_stop_service (replicate n (tn_event_fd1 (pg_tunnel program_start))) (?s\<lparr>sv_blocks := 0\<rparr>) = None"
    by blast
  with 1 h show "\<exists>s1 p' w' s2. native_start_service True True 0 [99] 5 service_zero = Some s1 \<and>
     thread_handler (\<lambda>_. None) 0 True (\<lambda>_. None) (\<lambda>_. None) hev_config_default [] 9 Some (example_tm, [], [])
       (the (sv_thread s1)) program_start (boot_world []) s1 = Some (p', w', s2) \<and>
     (\<forall>n. native_stop_service (replicate n (tn_event_fd1 (pg_tunnel p'))) s2 = None)" by blast
  have 2: "native_start_service True True 11 [99] 5 service_zero = Some \<lparr>sv_is_working = True, sv_thread = None, sv_blocks = 2\<rparr>"
    by (simp add: native_start_service_def service_zero_def)
  from service_stop [OF z 2, THEN conjunct1] 2
  show "\<exists>s1. native_start_service True True 11 [99] 5 service_zero = Some s1 \<and>
     (\<forall>n. native_stop_service (replicate n (-1)) s1 = None)" by (simp add: program_start_def tunnel_start_def)
qed

end
