(* ===== verification/CircularBuffer.thy ===== *)
theory CircularBuffer
  imports RingBuffer
begin

text \<open>
  The circular buffer of \<open>third-part/hev-task-system/src/lib/io/buffer/hev-circular-buffer.c\<close>, in
  which the copy loop of the task system keeps the bytes of one direction. It is the ring buffer
  of a session without acknowledgements, so its lemmas come from the one by a simulation.
\<close>

record HevCircularBuffer =
  cb_rp :: size_t
  cb_use_size :: size_t
  cb_max_size :: size_t
  cb_ref_count :: u32
  cb_data :: "byte list"

text \<open>\<open>got\<close> is whether the memory was available, \<open>junk\<close> what it held.\<close>

definition hev_circular_buffer_new :: "bool \<Rightarrow> byte list \<Rightarrow> size_t \<Rightarrow> HevCircularBuffer option" where
  "hev_circular_buffer_new got junk sz =
     (if \<not> got then None
      else Some \<lparr>cb_rp = 0, cb_use_size = 0, cb_max_size = sz, cb_ref_count = 1, cb_data = junk\<rparr>)"

definition hev_circular_buffer_ref :: "HevCircularBuffer \<Rightarrow> HevCircularBuffer" where
  "hev_circular_buffer_ref self = self\<lparr>cb_ref_count := cb_ref_count self + 1\<rparr>"

text \<open>\<open>None\<close> when the buffer has been freed.\<close>

definition hev_circular_buffer_unref :: "HevCircularBuffer \<Rightarrow> HevCircularBuffer option" where
  "hev_circular_buffer_unref self =
     (let self = self\<lparr>cb_ref_count := cb_ref_count self - 1\<rparr>
      in if cb_ref_count self \<noteq> 0 then Some self else None)"

definition hev_circular_buffer_get_max_size :: "HevCircularBuffer \<Rightarrow> size_t" where
  "hev_circular_buffer_get_max_size self = cb_max_size self"

definition hev_circular_buffer_get_use_size :: "HevCircularBuffer \<Rightarrow> size_t" where
  "hev_circular_buffer_get_use_size self = cb_use_size self"

definition hev_circular_buffer_reading :: "HevCircularBuffer \<Rightarrow> iovec list" where
  "hev_circular_buffer_reading self =
     (let upper_size = cb_max_size self - cb_rp self
      in if cb_use_size self = 0 then []
         else if cb_use_size self \<le> upper_size
         then [\<lparr>iov_base = cb_rp self, iov_len = cb_use_size self\<rparr>]
         else [\<lparr>iov_base = cb_rp self, iov_len = upper_size\<rparr>,
               \<lparr>iov_base = 0, iov_len = cb_use_size self - upper_size\<rparr>])"

definition hev_circular_buffer_read_finish :: "HevCircularBuffer \<Rightarrow> size_t \<Rightarrow> HevCircularBuffer" where
  "hev_circular_buffer_read_finish self sz =
     self\<lparr>cb_rp := (cb_rp self + sz) mod cb_max_size self, cb_use_size := cb_use_size self - sz\<rparr>"

definition hev_circular_buffer_writing :: "HevCircularBuffer \<Rightarrow> iovec list" where
  "hev_circular_buffer_writing self =
     (let wpos = (cb_rp self + cb_use_size self) mod cb_max_size self;
          upper_size = cb_max_size self - wpos;
          spc_size = cb_max_size self - cb_use_size self
      in if cb_use_size self = cb_max_size self then []
         else if spc_size \<le> upper_size
         then [\<lparr>iov_base = wpos, iov_len = spc_size\<rparr>]
         else [\<lparr>iov_base = wpos, iov_len = upper_size\<rparr>,
               \<lparr>iov_base = 0, iov_len = spc_size - upper_size\<rparr>])"

definition hev_circular_buffer_write_finish :: "HevCircularBuffer \<Rightarrow> size_t \<Rightarrow> HevCircularBuffer" where
  "hev_circular_buffer_write_finish self sz = self\<lparr>cb_use_size := cb_use_size self + sz\<rparr>"

section \<open>The queue\<close>

text \<open>The ring buffer with the same bytes, all of them still to be read.\<close>

definition cb_ring :: "HevCircularBuffer \<Rightarrow> HevRingBuffer" where
  "cb_ring self =
     \<lparr>rp = cb_rp self, wp = (cb_rp self + cb_use_size self) mod cb_max_size self,
      rda_size = cb_use_size self, use_size = cb_use_size self, max_size = cb_max_size self,
      rb_data = cb_data self\<rparr>"

definition cb_ok :: "HevCircularBuffer \<Rightarrow> bool" where
  "cb_ok self \<longleftrightarrow>
     0 < unat (cb_max_size self) \<and> unat (cb_max_size self) < 2 ^ 62 \<and>
     length (cb_data self) = unat (cb_max_size self) \<and> unat (cb_rp self) < unat (cb_max_size self) \<and>
     unat (cb_use_size self) \<le> unat (cb_max_size self)"

definition cb_bytes :: "HevCircularBuffer \<Rightarrow> byte list" where
  "cb_bytes self = ring (cb_data self) (unat (cb_rp self)) (unat (cb_use_size self))"

definition cb_space :: "HevCircularBuffer \<Rightarrow> nat" where
  "cb_space self = unat (cb_max_size self) - unat (cb_use_size self)"

lemma cb_ring_ok [simp]: "rb_ok (cb_ring self) \<longleftrightarrow> cb_ok self"
  by (auto simp: rb_ok_def cb_ok_def cb_ring_def unat_mod unat_add_size)

lemma cb_ring_reading: "hev_circular_buffer_reading self = hev_ring_buffer_reading (cb_ring self)"
  by (simp add: hev_circular_buffer_reading_def hev_ring_buffer_reading_def cb_ring_def Let_def)

lemma cb_ring_writing: "hev_circular_buffer_writing self = hev_ring_buffer_writing (cb_ring self)"
  by (simp add: hev_circular_buffer_writing_def hev_ring_buffer_writing_def cb_ring_def Let_def)

lemma cb_ring_space [simp]: "rb_space (cb_ring self) = cb_space self"
  by (simp add: rb_space_def cb_space_def cb_ring_def)

lemma cb_ring_pending: "cb_ok self \<Longrightarrow> rb_pending (cb_ring self) = cb_bytes self"
  by (simp add: rb_pending_ring cb_bytes_def) (simp add: cb_ring_def)

lemma length_cb_bytes [simp]: "length (cb_bytes self) = unat (cb_use_size self)"
  by (simp add: cb_bytes_def)

lemma cb_bytes_Nil: "cb_bytes self = [] \<longleftrightarrow> unat (cb_use_size self) = 0"
  by (metis length_cb_bytes length_0_conv)

lemma cb_gather: "cb_ok self \<Longrightarrow> iov_gather (hev_circular_buffer_reading self) (cb_data self) = cb_bytes self"
  using gather_reading [of "cb_ring self"] by (simp add: cb_ring_reading cb_ring_pending) (simp add: cb_ring_def)

lemma cb_room: "cb_ok self \<Longrightarrow> iov_size (hev_circular_buffer_writing self) = cb_space self"
  using writing_size [of "cb_ring self"] by (simp add: cb_ring_writing)

lemma cb_reading_empty: "hev_circular_buffer_reading self = [] \<longleftrightarrow> cb_bytes self = []"
  by (auto simp: cb_bytes_Nil hev_circular_buffer_reading_def Let_def word_unat_eq_iff)

lemma cb_writing_empty: "cb_ok self \<Longrightarrow> hev_circular_buffer_writing self = [] \<longleftrightarrow> cb_space self = 0"
  using writing_empty_iff [of "cb_ring self"] by (simp add: cb_ring_writing)

text \<open>Reading \<open>bs\<close> from a descriptor into the free room.\<close>

definition cb_fill :: "byte list \<Rightarrow> HevCircularBuffer \<Rightarrow> HevCircularBuffer" where
  "cb_fill bs self =
     hev_circular_buffer_write_finish
       (self\<lparr>cb_data := iov_scatter (hev_circular_buffer_writing self) bs (cb_data self)\<rparr>) (of_nat (length bs))"

lemma cb_fill_ok:
  assumes "cb_ok self" "length bs \<le> cb_space self"
  shows "cb_ok (cb_fill bs self)" "cb_bytes (cb_fill bs self) = cb_bytes self @ bs"
proof -
  have ok: "rb_ok (cb_ring self)" and le: "length bs \<le> rb_space (cb_ring self)" using assms by simp_all
  note f = fill_fields [OF ok le]
  have eq: "cb_ring (cb_fill bs self) = rb_fill bs (cb_ring self)"
  proof -
    have "unat (wp (cb_ring (cb_fill bs self))) = unat (wp (rb_fill bs (cb_ring self)))"
    proof -
      have n: "unat (of_nat (length bs) :: size_t) = length bs"
        using assms by (intro unat_of_nat_size) (auto simp: cb_ok_def cb_space_def)
      have u: "unat (cb_use_size self + of_nat (length bs)) = unat (cb_use_size self) + length bs"
        using assms n by (subst unat_add_size) (auto simp: cb_ok_def cb_space_def)
      have "unat (cb_rp self + (cb_use_size self + of_nat (length bs))) =
          unat (cb_rp self) + (unat (cb_use_size self) + length bs)"
        using assms u by (subst unat_add_size) (auto simp: cb_ok_def cb_space_def)
      moreover have "unat (cb_rp self + cb_use_size self) = unat (cb_rp self) + unat (cb_use_size self)"
        using assms by (subst unat_add_size) (auto simp: cb_ok_def)
      ultimately show ?thesis unfolding f(5)
        by (simp add: cb_ring_def cb_fill_def hev_circular_buffer_write_finish_def unat_mod mod_simps add.assoc)
    qed
    then have "wp (cb_ring (cb_fill bs self)) = wp (rb_fill bs (cb_ring self))" by (simp only: word_unat_eq_iff)
    then show ?thesis
      by (simp add: cb_ring_def cb_fill_def rb_fill_def hev_circular_buffer_write_finish_def
          hev_ring_buffer_write_finish_def cb_ring_writing)
  qed
  have ok': "rb_ok (cb_ring (cb_fill bs self))" using fill_ok [OF ok le] eq by simp
  then show "cb_ok (cb_fill bs self)" by simp
  have "rb_allowed (Fill bs) (cb_ring self)" using ok le by (simp add: rb_allowed_def writing_size)
  from rb.step_Fill [OF ok this] have "rb_pending (cb_ring (cb_fill bs self)) = rb_pending (cb_ring self) @ bs"
    by (simp add: rb_step_def eq)
  then show "cb_bytes (cb_fill bs self) = cb_bytes self @ bs" using ok' assms(1) by (simp add: cb_ring_pending)
qed

lemma cb_read_finish_ok:
  assumes "cb_ok self" "n \<le> unat (cb_use_size self)"
  shows "cb_ok (hev_circular_buffer_read_finish self (of_nat n))"
    "cb_bytes (hev_circular_buffer_read_finish self (of_nat n)) = drop n (cb_bytes self)"
proof -
  have n: "unat (of_nat n :: size_t) = n" using assms by (intro unat_of_nat_size) (auto simp: cb_ok_def)
  have rp': "unat ((cb_rp self + of_nat n) mod cb_max_size self) = (unat (cb_rp self) + n) mod unat (cb_max_size self)"
    using assms n by (subst unat_mod, subst unat_add_size) (auto simp: cb_ok_def)
  have use': "unat (cb_use_size self - of_nat n) = unat (cb_use_size self) - n"
    using assms n by (simp add: unat_sub_size')
  show "cb_ok (hev_circular_buffer_read_finish self (of_nat n))"
    using assms by (auto simp: cb_ok_def hev_circular_buffer_read_finish_def rp' use')
  have "ring (cb_data self) (unat (cb_rp self)) (n + (unat (cb_use_size self) - n)) =
      ring (cb_data self) (unat (cb_rp self)) n @ ring (cb_data self) (unat (cb_rp self) + n) (unat (cb_use_size self) - n)"
    by (rule ring_append)
  then have "drop n (cb_bytes self) = ring (cb_data self) (unat (cb_rp self) + n) (unat (cb_use_size self) - n)"
    using assms(2) by (simp add: cb_bytes_def)
  also have "\<dots> = ring (cb_data self) ((unat (cb_rp self) + n) mod unat (cb_max_size self)) (unat (cb_use_size self) - n)"
    using assms(1) by (intro ring_cong_mod) (simp add: cb_ok_def)
  finally show "cb_bytes (hev_circular_buffer_read_finish self (of_nat n)) = drop n (cb_bytes self)"
    by (simp add: cb_bytes_def hev_circular_buffer_read_finish_def rp' use')
qed

end
