(* ===== verification/TaskIO.thy ===== *)
theory TaskIO
  imports CircularBuffer Socks5Base
begin

text \<open>
  The calls of \<open>third-part/hev-task-system/src/lib/io/basic/hev-task-io.c\<close>: reading and writing
  until there is something, and the copy loop \<open>hev_task_io_splice\<close> that a TCP relay runs on, in its
  two builds, with a circular buffer and with the pipe of \<open>splice\<close> for each direction. An
  endpoint is one connection: what arrives, what its peer takes, what was sent and whether sending
  was shut down. The scripts have the events of the theory on sockets.
\<close>

section \<open>Reading and writing\<close>

fun io_read_loop :: "rx_event list \<Rightarrow> nat \<Rightarrow> int \<times> byte list \<times> rx_event list" where
  "io_read_loop [] n = (-2, [], [])"
| "io_read_loop (RxAgain stop # es) n = (if stop then (-2, [], es) else io_read_loop es n)"
| "io_read_loop (RxEnd r # es) n = (r, [], RxEnd r # es)"
| "io_read_loop (RxData bs # es) n =
     (int (length (take n bs)), take n bs, if drop n bs = [] then es else RxData (drop n bs) # es)"

definition hev_task_io_read :: "nat \<Rightarrow> world \<Rightarrow> int \<times> byte list \<times> world" where
  "hev_task_io_read count w =
     (let (s, bs, rx) = io_read_loop (w_rx w) count in (s, bs, w\<lparr>w_rx := rx\<rparr>))"

definition hev_task_io_readv :: "iovec list \<Rightarrow> world \<Rightarrow> int \<times> byte list \<times> world" where
  "hev_task_io_readv iov w =
     (let (s, bs, rx) = io_read_loop (w_rx w) (iov_size iov) in (s, bs, w\<lparr>w_rx := rx\<rparr>))"

fun io_write_loop :: "tx_event list \<Rightarrow> byte list \<Rightarrow> int \<times> nat \<times> tx_event list" where
  "io_write_loop [] bs = (int (length bs), length bs, [])"
| "io_write_loop (TxAgain stop # es) bs = (if stop then (-2, 0, es) else io_write_loop es bs)"
| "io_write_loop (TxErr r # es) bs = (r, 0, es)"
| "io_write_loop (TxAccept k # es) bs = (int (min k (length bs)), min k (length bs), es)"

definition hev_task_io_write :: "byte list \<Rightarrow> world \<Rightarrow> int \<times> world" where
  "hev_task_io_write bs w =
     (let (s, n, txs) = io_write_loop (w_txs w) bs in (s, w\<lparr>w_txs := txs, w_tx := w_tx w @ take n bs\<rparr>))"

definition hev_task_io_writev :: "byte list list \<Rightarrow> world \<Rightarrow> int \<times> world" where
  "hev_task_io_writev iov w =
     (let (s, n, txs) = io_write_loop (w_txs w) (concat iov)
      in (s, w\<lparr>w_txs := txs, w_tx := w_tx w @ take n (concat iov)\<rparr>))"

section \<open>Opening and duplicating\<close>

definition hev_task_io_open :: "world \<Rightarrow> int \<times> world" where
  "hev_task_io_open w = sys_socket w"

definition hev_task_io_creat :: "world \<Rightarrow> int \<times> world" where
  "hev_task_io_creat w = hev_task_io_open w"

definition hev_task_io_openat :: "world \<Rightarrow> int \<times> world" where
  "hev_task_io_openat w = sys_socket w"

definition hev_task_io_dup :: "world \<Rightarrow> int \<times> world" where
  "hev_task_io_dup w =
     (let (newfd, w) = sys_socket w
      in if 0 > newfd then (-1, w)
         else let (res, w) = sys_result w
              in if 0 > res then (-2, sys_close newfd w) else (newfd, w))"

section \<open>One direction of the copy loop\<close>

record endpoint =
  ep_rx :: "rx_event list"
  ep_txs :: "tx_event list"
  ep_tx :: "byte list"
  ep_shut :: bool

text \<open>The system calls on descriptors that do not block.\<close>

fun sys_read :: "nat \<Rightarrow> rx_event list \<Rightarrow> int \<times> byte list \<times> rx_event list \<times> errno" where
  "sys_read n [] = (-1, [], [], EAGAIN)"
| "sys_read n (RxAgain stop # es) = (-1, [], es, EAGAIN)"
| "sys_read n (RxEnd r # es) = (r, [], RxEnd r # es, EOTHER)"
| "sys_read n (RxData bs # es) =
     (int (length (take n bs)), take n bs, if drop n bs = [] then es else RxData (drop n bs) # es, EOTHER)"

fun sys_write :: "byte list \<Rightarrow> tx_event list \<Rightarrow> int \<times> nat \<times> tx_event list \<times> errno" where
  "sys_write bs [] = (int (length bs), length bs, [], EOTHER)"
| "sys_write bs (TxAgain stop # es) = (-1, 0, es, EAGAIN)"
| "sys_write bs (TxErr r # es) = (r, 0, es, EOTHER)"
| "sys_write bs (TxAccept k # es) = (int (min k (length bs)), min k (length bs), es, EOTHER)"

definition io_again :: "int \<Rightarrow> errno \<Rightarrow> int" where
  "io_again s e = (if s < 0 \<and> e = EAGAIN then 0 else -1)"

text \<open>With a circular buffer.\<close>

definition task_io_splicer_init :: "bool \<Rightarrow> byte list \<Rightarrow> size_t \<Rightarrow> HevCircularBuffer option" where
  "task_io_splicer_init got junk buf_size = hev_circular_buffer_new got junk buf_size"

definition task_io_splicer_fini :: "HevCircularBuffer \<Rightarrow> HevCircularBuffer option" where
  "task_io_splicer_fini self = hev_circular_buffer_unref self"

definition task_io_splice ::
  "HevCircularBuffer \<Rightarrow> endpoint \<Rightarrow> endpoint \<Rightarrow> int \<times> HevCircularBuffer \<times> endpoint \<times> endpoint" where
  "task_io_splice buf src dst =
     (let iov = hev_circular_buffer_writing buf;
          (res, buf, src) =
            (if iov = [] then (1, buf, src)
             else let (s, bs, rx, e) = sys_read (iov_size iov) (ep_rx src);
                      buf' = buf\<lparr>cb_data := iov_scatter iov bs (cb_data buf)\<rparr>;
                      src = src\<lparr>ep_rx := rx\<rparr>
                  in if 0 \<ge> s then (io_again s e, buf', src)
                     else (1, hev_circular_buffer_write_finish buf' (of_int s), src));
          iov = hev_circular_buffer_reading buf
      in if iov \<noteq> [] then
           let bs = iov_gather iov (cb_data buf);
               (s, n, txs, e) = sys_write bs (ep_txs dst);
               dst = dst\<lparr>ep_txs := txs, ep_tx := ep_tx dst @ take n bs\<rparr>
           in if 0 \<ge> s then (io_again s e, buf, src, dst)
              else (1, hev_circular_buffer_read_finish buf (of_int s), src, dst)
         else (res, buf, src, if res < 0 then dst\<lparr>ep_shut := True\<rparr> else dst))"

text \<open>With a pipe, whose bytes \<open>ps_pipe\<close> the kernel keeps: it takes as much as the pipe has room
  for, and none when it is full. The descriptors of the pipe are closed in the end.\<close>

record pipe_splicer =
  ps_fd0 :: int
  ps_fd1 :: int
  ps_wlen :: size_t
  ps_blen :: size_t
  ps_pipe :: "byte list"

definition sys_pipe :: "world \<Rightarrow> int \<times> int \<times> int \<times> world" where
  "sys_pipe w =
     (let (r, w) = sys_result w
      in if r < 0 then (r, -1, -1, w)
         else let a = w_next_fd w; b = a + 1
              in (0, a, b, w\<lparr>w_next_fd := b + 1, w_open := insert b (insert a (w_open w))\<rparr>))"

text \<open>\<open>pipe_size\<close> is the answer to \<open>F_GETPIPE_SZ\<close>.\<close>

definition task_io_splicer_init_pipe :: "size_t \<Rightarrow> world \<Rightarrow> int \<times> pipe_splicer option \<times> world" where
  "task_io_splicer_init_pipe pipe_size w =
     (let (res, fd0, fd1, w) = sys_pipe w
      in if res < 0 then (res, None, w)
         else
           let (res, w) = sys_result w
           in if res < 0 then (res, None, sys_close fd1 (sys_close fd0 w))
              else
                let (res, w) = sys_result w
                in if res < 0 then (res, None, sys_close fd1 (sys_close fd0 w))
                   else (0, Some \<lparr>ps_fd0 = fd0, ps_fd1 = fd1, ps_wlen = 0, ps_blen = pipe_size, ps_pipe = []\<rparr>, w))"

definition task_io_splicer_fini_pipe :: "pipe_splicer \<Rightarrow> world \<Rightarrow> world" where
  "task_io_splicer_fini_pipe self w = sys_close (ps_fd1 self) (sys_close (ps_fd0 self) w)"

definition pipe_room :: "pipe_splicer \<Rightarrow> nat" where
  "pipe_room self = unat (ps_blen self) - length (ps_pipe self)"

definition task_io_splice_pipe ::
  "pipe_splicer \<Rightarrow> endpoint \<Rightarrow> endpoint \<Rightarrow> int \<times> pipe_splicer \<times> endpoint \<times> endpoint" where
  "task_io_splice_pipe self src dst =
     (let (s, bs, rx, e) =
            (if pipe_room self = 0 then (-1, [], ep_rx src, EAGAIN)
             else sys_read (min (unat (ps_blen self)) (pipe_room self)) (ep_rx src));
          src = src\<lparr>ep_rx := rx\<rparr>;
          (res, self) =
            (if 0 \<ge> s then (io_again s e, self)
             else (1, self\<lparr>ps_pipe := ps_pipe self @ bs, ps_wlen := ps_wlen self + of_int s\<rparr>))
      in if ps_wlen self \<noteq> 0 then
           let bs = take (unat (ps_blen self)) (ps_pipe self);
               (s, n, txs, e) = sys_write bs (ep_txs dst);
               dst = dst\<lparr>ep_txs := txs, ep_tx := ep_tx dst @ take n bs\<rparr>;
               self = self\<lparr>ps_pipe := drop n (ps_pipe self)\<rparr>
           in if 0 \<ge> s then (io_again s e, self, src, dst)
              else (1, self\<lparr>ps_wlen := ps_wlen self - of_int s\<rparr>, src, dst)
         else (res, self, src, if res < 0 then dst\<lparr>ep_shut := True\<rparr> else dst))"

section \<open>The loop\<close>

record 's splicing =
  sl_res_f :: int
  sl_res_b :: int
  sl_f :: 's
  sl_b :: 's
  sl_a_end :: endpoint
  sl_b_end :: endpoint

text \<open>How to yield after a round, or \<open>None\<close> to leave the loop.\<close>

definition splice_yield :: "int \<Rightarrow> int \<Rightarrow> HevTaskYieldType option" where
  "splice_yield res_f res_b =
     (if res_f > 0 \<or> res_b > 0 then Some HEV_TASK_YIELD
      else if res_f AND res_b = 0 then Some HEV_TASK_WAITIO else None)"

definition splice_round ::
  "('s \<Rightarrow> endpoint \<Rightarrow> endpoint \<Rightarrow> int \<times> 's \<times> endpoint \<times> endpoint) \<Rightarrow> 's splicing \<Rightarrow> 's splicing" where
  "splice_round sp st =
     (let st = (if sl_res_f st \<ge> 0
                then let (res, s, a, b) = sp (sl_f st) (sl_a_end st) (sl_b_end st)
                     in st\<lparr>sl_res_f := res, sl_f := s, sl_a_end := a, sl_b_end := b\<rparr>
                else st)
      in if sl_res_b st \<ge> 0
         then let (res, s, b, a) = sp (sl_b st) (sl_b_end st) (sl_a_end st)
              in st\<lparr>sl_res_b := res, sl_b := s, sl_a_end := a, sl_b_end := b\<rparr>
         else st)"

text \<open>The yielder may stop the loop. \<open>ys\<close> is what it meets each time, such as the time left when
  it wakes up; when it has run out, the relay is given up.\<close>

fun splice_loop ::
  "(HevTaskYieldType \<Rightarrow> 'y \<Rightarrow> bool) \<Rightarrow> ('s \<Rightarrow> endpoint \<Rightarrow> endpoint \<Rightarrow> int \<times> 's \<times> endpoint \<times> endpoint) \<Rightarrow> 'y list \<Rightarrow>
   's splicing \<Rightarrow> 's splicing" where
  "splice_loop yielder sp [] st = splice_round sp st"
| "splice_loop yielder sp (y # ys) st =
     (let st = splice_round sp st
      in case splice_yield (sl_res_f st) (sl_res_b st) of
           None \<Rightarrow> st
         | Some ty \<Rightarrow> if yielder ty y then st else splice_loop yielder sp ys st)"

definition splice_start :: "'s \<Rightarrow> 's \<Rightarrow> endpoint \<Rightarrow> endpoint \<Rightarrow> 's splicing" where
  "splice_start f b a_end b_end =
     \<lparr>sl_res_f = 1, sl_res_b = 1, sl_f = f, sl_b = b, sl_a_end = a_end, sl_b_end = b_end\<rparr>"

text \<open>The two builds. \<open>mem_f\<close> and \<open>mem_b\<close> are the memory of the buffers, if there was any.\<close>

definition hev_task_io_splice ::
  "(HevTaskYieldType \<Rightarrow> 'y \<Rightarrow> bool) \<Rightarrow> byte list option \<Rightarrow> byte list option \<Rightarrow> size_t \<Rightarrow> 'y list \<Rightarrow>
   endpoint \<Rightarrow> endpoint \<Rightarrow> endpoint \<times> endpoint" where
  "hev_task_io_splice yielder mem_f mem_b buf_size ys a_end b_end =
     (case task_io_splicer_init (mem_f \<noteq> None) (the mem_f) buf_size of None \<Rightarrow> (a_end, b_end)
      | Some f \<Rightarrow>
        (case task_io_splicer_init (mem_b \<noteq> None) (the mem_b) buf_size of None \<Rightarrow> (a_end, b_end)
         | Some b \<Rightarrow>
           let st = splice_loop yielder task_io_splice ys (splice_start f b a_end b_end)
           in (sl_a_end st, sl_b_end st)))"

definition hev_task_io_splice_pipe ::
  "(HevTaskYieldType \<Rightarrow> 'y \<Rightarrow> bool) \<Rightarrow> size_t \<Rightarrow> size_t \<Rightarrow> 'y list \<Rightarrow> endpoint \<Rightarrow> endpoint \<Rightarrow> world \<Rightarrow>
   endpoint \<times> endpoint \<times> world" where
  "hev_task_io_splice_pipe yielder size_f size_b ys a_end b_end w =
     (let (res, f, w) = task_io_splicer_init_pipe size_f w
      in case f of None \<Rightarrow> (a_end, b_end, w)
      | Some f \<Rightarrow>
        (let (res, b, w) = task_io_splicer_init_pipe size_b w
         in case b of None \<Rightarrow> (a_end, b_end, task_io_splicer_fini_pipe f w)
         | Some b \<Rightarrow>
           let st = splice_loop yielder task_io_splice_pipe ys (splice_start f b a_end b_end)
           in (sl_a_end st, sl_b_end st,
               task_io_splicer_fini_pipe (sl_f st) (task_io_splicer_fini_pipe (sl_b st) w))))"

section \<open>The relay of a TCP session of the server\<close>

text \<open>\<open>hev_socks5_tcp_splicer\<close> runs the loop between its own socket, \<open>client\<close>, and the given one with
  buffers of 8192 bytes. The yielder waits as long as its time-out allows: \<open>left\<close> is the time
  that is left when it wakes up.\<close>

definition relay_yielder :: "'a HevSocks5_scheme \<Rightarrow> HevTaskYieldType \<Rightarrow> int \<Rightarrow> bool" where
  "relay_yielder self ty left \<longleftrightarrow> hev_socks5_task_io_yielder (\<lambda>_. left) ty self \<noteq> 0"

definition hev_socks5_tcp_relay ::
  "'a HevSocks5_scheme \<Rightarrow> byte list option \<Rightarrow> byte list option \<Rightarrow> int list \<Rightarrow> endpoint \<Rightarrow> endpoint \<Rightarrow>
   int \<times> endpoint \<times> endpoint" where
  "hev_socks5_tcp_relay self mem_f mem_b ys client remote =
     (if sk_fd self < 0 then (-1, client, remote)
      else (0, hev_task_io_splice (relay_yielder self) mem_f mem_b 8192 ys client remote))"

end
