(* ===== verification/TaskIOFacts.thy ===== *)
theory TaskIOFacts
  imports TaskIO
begin

text \<open>
  The copy loop relays two byte streams. The contract of one direction, that it moves bytes and
  does not lose or reorder any, is a locale; both builds of the loop interpret it.
\<close>

section \<open>Streams of non-blocking descriptors\<close>

text \<open>All bytes that come before the end.\<close>

fun in_bytes :: "rx_event list \<Rightarrow> byte list" where
  "in_bytes [] = []"
| "in_bytes (RxData bs # es) = bs @ in_bytes es"
| "in_bytes (RxAgain stop # es) = in_bytes es"
| "in_bytes (RxEnd r # es) = []"

text \<open>Segments are not empty, and the end is 0 or an error; likewise for writing.\<close>

definition rx_live :: "rx_event list \<Rightarrow> bool" where
  "rx_live es \<longleftrightarrow> (\<forall>e\<in>set es. case e of RxData bs \<Rightarrow> bs \<noteq> [] | RxEnd r \<Rightarrow> r \<le> 0 | RxAgain _ \<Rightarrow> True)"

definition tx_live :: "tx_event list \<Rightarrow> bool" where
  "tx_live es \<longleftrightarrow> (\<forall>e\<in>set es. case e of TxErr r \<Rightarrow> r \<le> 0 | _ \<Rightarrow> True)"

definition tx_willing :: "tx_event list \<Rightarrow> bool" where
  "tx_willing es \<longleftrightarrow> (\<forall>e\<in>set es. case e of TxErr r \<Rightarrow> False | TxAccept k \<Rightarrow> 0 < k | TxAgain _ \<Rightarrow> True)"

definition rx_ends :: "rx_event list \<Rightarrow> bool" where
  "rx_ends es \<longleftrightarrow> (\<exists>r. RxEnd r \<in> set es)"

lemma rx_live_simps [simp]: "rx_live []" "rx_live (e # es) \<longleftrightarrow> rx_live [e] \<and> rx_live es"
  by (auto simp: rx_live_def)

lemma tx_simps [simp]: "tx_live []" "tx_live (t # ts) \<longleftrightarrow> tx_live [t] \<and> tx_live ts" "tx_willing []"
  "tx_willing (t # ts) \<longleftrightarrow> tx_willing [t] \<and> tx_willing ts"
  by (auto simp: tx_live_def tx_willing_def)

lemma tx_willing_live: "tx_willing ts \<Longrightarrow> tx_live ts"
  by (auto simp: tx_willing_def tx_live_def split: tx_event.splits)

lemma sys_read_stream:
  assumes "sys_read n es = (s, bs, es', e)" "rx_live es" "0 < n"
  shows "bs @ in_bytes es' = in_bytes es" "rx_live es'" "length bs \<le> n" "rx_ends es \<Longrightarrow> rx_ends es'"
    "0 \<ge> s \<Longrightarrow> bs = []" "0 < s \<Longrightarrow> s = int (length bs)"
    "0 \<ge> s \<Longrightarrow> io_again s e = -1 \<Longrightarrow> in_bytes es' = []"
    "0 \<ge> s \<Longrightarrow> io_again s e = 0 \<Longrightarrow> rx_ends es \<Longrightarrow> length es' < length es" "length es' \<le> length es"
proof -
  have "bs @ in_bytes es' = in_bytes es \<and> rx_live es' \<and> length bs \<le> n \<and> (rx_ends es \<longrightarrow> rx_ends es') \<and>
    (0 \<ge> s \<longrightarrow> bs = []) \<and> (0 < s \<longrightarrow> s = int (length bs)) \<and>
    (0 \<ge> s \<longrightarrow> io_again s e = -1 \<longrightarrow> in_bytes es' = []) \<and>
    (0 \<ge> s \<longrightarrow> io_again s e = 0 \<longrightarrow> rx_ends es \<longrightarrow> length es' < length es) \<and> length es' \<le> length es"
  proof (cases es)
    case (Cons t us)
    then show ?thesis using assms
      by (cases t) (auto simp: io_again_def rx_live_def rx_ends_def split: if_splits)
  qed (use assms in \<open>auto simp: rx_ends_def io_again_def\<close>)
  then show "bs @ in_bytes es' = in_bytes es" "rx_live es'" "length bs \<le> n" "rx_ends es \<Longrightarrow> rx_ends es'"
    "0 \<ge> s \<Longrightarrow> bs = []" "0 < s \<Longrightarrow> s = int (length bs)"
    "0 \<ge> s \<Longrightarrow> io_again s e = -1 \<Longrightarrow> in_bytes es' = []"
    "0 \<ge> s \<Longrightarrow> io_again s e = 0 \<Longrightarrow> rx_ends es \<Longrightarrow> length es' < length es" "length es' \<le> length es" by simp_all
qed

lemma sys_write_stream:
  assumes "sys_write bs ts = (s, n, ts', e)" "tx_live ts" "bs \<noteq> []"
  shows "n \<le> length bs" "tx_live ts'" "tx_willing ts \<Longrightarrow> tx_willing ts'" "0 < s \<Longrightarrow> s = int n" "0 \<ge> s \<Longrightarrow> n = 0"
    "tx_willing ts \<Longrightarrow> 0 \<ge> s \<Longrightarrow> io_again s e = 0 \<and> length ts' < length ts" "length ts' \<le> length ts"
proof -
  have "n \<le> length bs \<and> tx_live ts' \<and> (tx_willing ts \<longrightarrow> tx_willing ts') \<and> (0 < s \<longrightarrow> s = int n) \<and> (0 \<ge> s \<longrightarrow> n = 0) \<and>
    (tx_willing ts \<longrightarrow> 0 \<ge> s \<longrightarrow> io_again s e = 0 \<and> length ts' < length ts) \<and> length ts' \<le> length ts"
  proof (cases ts)
    case (Cons t us)
    then show ?thesis using assms by (cases t) (auto simp: io_again_def tx_live_def tx_willing_def min_def split: if_splits)
  qed (use assms in auto)
  then show "n \<le> length bs" "tx_live ts'" "tx_willing ts \<Longrightarrow> tx_willing ts'" "0 < s \<Longrightarrow> s = int n" "0 \<ge> s \<Longrightarrow> n = 0"
    "tx_willing ts \<Longrightarrow> 0 \<ge> s \<Longrightarrow> io_again s e = 0 \<and> length ts' < length ts" "length ts' \<le> length ts" by simp_all
qed

section \<open>The contract of one direction\<close>

definition relay_work :: "byte list \<Rightarrow> endpoint \<Rightarrow> endpoint \<Rightarrow> nat" where
  "relay_work held src dst =
     2 * length (in_bytes (ep_rx src)) + length (ep_rx src) + length held + length (ep_txs dst)"

lemma splice_yield_None:
  "res_f = 1 \<or> res_f = 0 \<or> res_f = -1 \<Longrightarrow> res_b = 1 \<or> res_b = 0 \<or> res_b = -1 \<Longrightarrow>
   splice_yield res_f res_b = None \<longleftrightarrow> res_f = -1 \<and> res_b = -1"
  by (auto simp: splice_yield_def)

text \<open>A relay between two endpoints sends of each stream a prefix, and has sent all of it when it has
  shut sending down.\<close>

definition relayed :: "endpoint \<Rightarrow> endpoint \<Rightarrow> endpoint \<Rightarrow> endpoint \<Rightarrow> bool" where
  "relayed a b a' b' \<longleftrightarrow>
     (\<exists>sent later. ep_tx b' = ep_tx b @ sent \<and> in_bytes (ep_rx a) = sent @ later \<and> (ep_shut b' \<longrightarrow> later = [])) \<and>
     (\<exists>sent later. ep_tx a' = ep_tx a @ sent \<and> in_bytes (ep_rx b) = sent @ later \<and> (ep_shut a' \<longrightarrow> later = []))"

locale splicer =
  fixes ok :: "'s \<Rightarrow> bool"
    and held :: "'s \<Rightarrow> byte list"
    and sp :: "'s \<Rightarrow> endpoint \<Rightarrow> endpoint \<Rightarrow> int \<times> 's \<times> endpoint \<times> endpoint"
  assumes step_frame: "ok s \<Longrightarrow> rx_live (ep_rx src) \<Longrightarrow> tx_live (ep_txs dst) \<Longrightarrow> sp s src dst = (r, s', src', dst') \<Longrightarrow>
      ok s' \<and> (r = 1 \<or> r = 0 \<or> r = -1) \<and> src' = src\<lparr>ep_rx := ep_rx src'\<rparr> \<and> ep_rx dst' = ep_rx dst \<and>
      rx_live (ep_rx src') \<and> tx_live (ep_txs dst')"
    and step_moves: "ok s \<Longrightarrow> rx_live (ep_rx src) \<Longrightarrow> tx_live (ep_txs dst) \<Longrightarrow> sp s src dst = (r, s', src', dst') \<Longrightarrow>
      \<exists>sent. ep_tx dst' = ep_tx dst @ sent \<and> sent @ held s' @ in_bytes (ep_rx src') = held s @ in_bytes (ep_rx src)"
    and step_shut: "ok s \<Longrightarrow> rx_live (ep_rx src) \<Longrightarrow> tx_live (ep_txs dst) \<Longrightarrow> sp s src dst = (r, s', src', dst') \<Longrightarrow>
      ep_shut dst' \<Longrightarrow> \<not> ep_shut dst \<Longrightarrow> r = -1 \<and> held s' = [] \<and> in_bytes (ep_rx src') = []"
    and step_progress: "ok s \<Longrightarrow> rx_live (ep_rx src) \<Longrightarrow> tx_willing (ep_txs dst) \<Longrightarrow> rx_ends (ep_rx src) \<Longrightarrow>
      sp s src dst = (r, s', src', dst') \<Longrightarrow>
      tx_willing (ep_txs dst') \<and> rx_ends (ep_rx src') \<and>
      (if r = -1 then ep_shut dst' else relay_work (held s') src' dst' < relay_work (held s) src dst)"
begin

text \<open>One direction within a relay: what came so far is sent, held or still to come.\<close>

definition flows :: "byte list \<Rightarrow> byte list \<Rightarrow> int \<Rightarrow> 's \<Rightarrow> endpoint \<Rightarrow> endpoint \<Rightarrow> bool" where
  "flows S T r s src dst \<longleftrightarrow> ok s \<and> rx_live (ep_rx src) \<and> tx_live (ep_txs dst) \<and> (r = 1 \<or> r = 0 \<or> r = -1) \<and>
     (\<exists>sent. ep_tx dst = T @ sent \<and> sent @ held s @ in_bytes (ep_rx src) = S) \<and>
     (ep_shut dst \<longrightarrow> r = -1 \<and> ep_tx dst = T @ S)"

definition ending :: "int \<Rightarrow> 's \<Rightarrow> endpoint \<Rightarrow> endpoint \<Rightarrow> bool" where
  "ending r s src dst \<longleftrightarrow> tx_willing (ep_txs dst) \<and> rx_ends (ep_rx src) \<and> (r = -1 \<longrightarrow> ep_shut dst)"

definition todo :: "int \<Rightarrow> 's \<Rightarrow> endpoint \<Rightarrow> endpoint \<Rightarrow> nat" where
  "todo r s src dst = (if r = -1 then 0 else Suc (relay_work (held s) src dst))"

lemma flows_step:
  assumes "flows S T r s src dst" "0 \<le> r" "sp s src dst = (r', s', src', dst')"
  shows "flows S T r' s' src' dst'" "ending r s src dst \<Longrightarrow> ending r' s' src' dst'"
    "ending r s src dst \<Longrightarrow> todo r' s' src' dst' < todo r s src dst"
    "ep_txs src' = ep_txs src" "ep_tx src' = ep_tx src" "ep_shut src' = ep_shut src" "ep_rx dst' = ep_rx dst"
proof -
  have pre: "ok s" "rx_live (ep_rx src)" "tx_live (ep_txs dst)" "\<not> ep_shut dst" "r \<noteq> -1"
    using assms(1,2) by (auto simp: flows_def)
  obtain sent where sent: "ep_tx dst = T @ sent" "sent @ held s @ in_bytes (ep_rx src) = S"
    using assms(1) by (auto simp: flows_def)
  note fr = step_frame [OF pre(1-3) assms(3)]
  obtain more where more: "ep_tx dst' = ep_tx dst @ more"
    "more @ held s' @ in_bytes (ep_rx src') = held s @ in_bytes (ep_rx src)"
    using step_moves [OF pre(1-3) assms(3)] by blast
  have all: "ep_tx dst' = T @ (sent @ more)" "(sent @ more) @ held s' @ in_bytes (ep_rx src') = S"
    using sent more by simp_all
  have "ep_tx dst' = T @ S \<and> r' = -1" if "ep_shut dst'"
    using step_shut [OF pre(1-3) assms(3) that pre(4)] all by simp
  with fr all show "flows S T r' s' src' dst'" unfolding flows_def by blast
  show "ep_txs src' = ep_txs src" "ep_tx src' = ep_tx src" "ep_shut src' = ep_shut src" "ep_rx dst' = ep_rx dst"
    using fr by (metis endpoint.surjective endpoint.update_convs(1) endpoint.select_convs)+
  assume e: "ending r s src dst"
  then have "tx_willing (ep_txs dst)" "rx_ends (ep_rx src)" by (simp_all add: ending_def)
  note p = step_progress [OF pre(1,2) this assms(3)]
  then show "ending r' s' src' dst'" by (simp add: ending_def)
  show "todo r' s' src' dst' < todo r s src dst" using p pre(5) by (simp add: todo_def split: if_splits)
qed

text \<open>A direction depends on its own halves of the endpoints only.\<close>

lemma flows_cong:
  assumes "ep_rx src' = ep_rx src" "ep_txs dst' = ep_txs dst" "ep_tx dst' = ep_tx dst" "ep_shut dst' = ep_shut dst"
  shows "flows S T r s src' dst' = flows S T r s src dst" "ending r s src' dst' = ending r s src dst"
    "todo r s src' dst' = todo r s src dst"
  using assms by (simp_all add: flows_def ending_def todo_def relay_work_def)

definition relaying :: "endpoint \<Rightarrow> endpoint \<Rightarrow> 's splicing \<Rightarrow> bool" where
  "relaying a b st \<longleftrightarrow>
     flows (in_bytes (ep_rx a)) (ep_tx b) (sl_res_f st) (sl_f st) (sl_a_end st) (sl_b_end st) \<and>
     flows (in_bytes (ep_rx b)) (ep_tx a) (sl_res_b st) (sl_b st) (sl_b_end st) (sl_a_end st)"

definition closing :: "'s splicing \<Rightarrow> bool" where
  "closing st \<longleftrightarrow> ending (sl_res_f st) (sl_f st) (sl_a_end st) (sl_b_end st) \<and>
     ending (sl_res_b st) (sl_b st) (sl_b_end st) (sl_a_end st)"

definition to_relay :: "'s splicing \<Rightarrow> nat" where
  "to_relay st = todo (sl_res_f st) (sl_f st) (sl_a_end st) (sl_b_end st) +
     todo (sl_res_b st) (sl_b st) (sl_b_end st) (sl_a_end st)"

text \<open>A half of a round: one direction steps if it has not ended, and the other is not touched.\<close>

lemma half_round:
  assumes "flows S T r s src dst" "flows S' T' q u dst src"
    and "(if 0 \<le> r then sp s src dst else (r, s, src, dst)) = (r', s', src', dst')"
  shows "flows S T r' s' src' dst'" "flows S' T' q u dst' src'"
    "ending r s src dst \<Longrightarrow> ending r' s' src' dst'"
    "ending q u dst src \<Longrightarrow> ending q u dst' src'"
    "ending r s src dst \<Longrightarrow> todo r' s' src' dst' \<le> todo r s src dst"
    "ending r s src dst \<Longrightarrow> 0 \<le> r \<Longrightarrow> todo r' s' src' dst' < todo r s src dst"
    "todo q u dst' src' = todo q u dst src"
proof -
  have "(flows S T r' s' src' dst' \<and> (ending r s src dst \<longrightarrow> ending r' s' src' dst') \<and>
      (ending r s src dst \<longrightarrow> todo r' s' src' dst' \<le> todo r s src dst \<and> (0 \<le> r \<longrightarrow> todo r' s' src' dst' < todo r s src dst))) \<and>
    ep_txs src' = ep_txs src \<and> ep_tx src' = ep_tx src \<and> ep_shut src' = ep_shut src \<and> ep_rx dst' = ep_rx dst"
  proof (cases "0 \<le> r")
    case True
    then have "sp s src dst = (r', s', src', dst')" using assms(3) by simp
    from flows_step [OF assms(1) True this] show ?thesis by (auto intro: less_imp_le)
  next
    case False
    then show ?thesis using assms(1,3) by simp
  qed
  note d = conjunct1 [OF this] and c = conjunct2 [OF this]
  show "flows S T r' s' src' dst'" "ending r s src dst \<Longrightarrow> ending r' s' src' dst'"
    "ending r s src dst \<Longrightarrow> todo r' s' src' dst' \<le> todo r s src dst"
    "ending r s src dst \<Longrightarrow> 0 \<le> r \<Longrightarrow> todo r' s' src' dst' < todo r s src dst"
    using d by blast+
  show "flows S' T' q u dst' src'" "ending q u dst src \<Longrightarrow> ending q u dst' src'" "todo q u dst' src' = todo q u dst src"
    using assms(2) c by (simp_all add: flows_cong [of dst' dst src' src])
qed

lemma round_relays:
  assumes "relaying a b st"
  shows "relaying a b (splice_round sp st)"
    "closing st \<Longrightarrow> closing (splice_round sp st)"
    "closing st \<Longrightarrow> to_relay (splice_round sp st) < to_relay st \<or> splice_round sp st = st \<and> sl_res_f st = -1 \<and> sl_res_b st = -1"
proof -
  obtain r s src dst where 1: "(if 0 \<le> sl_res_f st then sp (sl_f st) (sl_a_end st) (sl_b_end st)
      else (sl_res_f st, sl_f st, sl_a_end st, sl_b_end st)) = (r, s, src, dst)" by (rule prod_cases4)
  obtain q u dst2 src2 where 2: "(if 0 \<le> sl_res_b st then sp (sl_b st) dst src else (sl_res_b st, sl_b st, dst, src)) =
      (q, u, dst2, src2)" by (rule prod_cases4)
  have st: "splice_round sp st = st\<lparr>sl_res_f := r, sl_f := s, sl_a_end := src2, sl_b_end := dst2, sl_res_b := q, sl_b := u\<rparr>"
    using 1 2 by (auto simp: splice_round_def Let_def split: if_splits)
  have f: "flows (in_bytes (ep_rx a)) (ep_tx b) (sl_res_f st) (sl_f st) (sl_a_end st) (sl_b_end st)"
    "flows (in_bytes (ep_rx b)) (ep_tx a) (sl_res_b st) (sl_b st) (sl_b_end st) (sl_a_end st)"
    using assms by (simp_all add: relaying_def)
  note h1 = half_round [OF f 1]
  note h2 = half_round [OF h1(2,1) 2]
  show "relaying a b (splice_round sp st)" using h2(1,2) by (simp add: relaying_def st)
  show "closing (splice_round sp st)" if "closing st"
    using that h1(3,4) h2(3,4) by (simp add: closing_def st)
  assume c: "closing st"
  then have e: "ending (sl_res_f st) (sl_f st) (sl_a_end st) (sl_b_end st)"
    "ending (sl_res_b st) (sl_b st) (sl_b_end st) (sl_a_end st)" by (simp_all add: closing_def)
  show "to_relay (splice_round sp st) < to_relay st \<or> splice_round sp st = st \<and> sl_res_f st = -1 \<and> sl_res_b st = -1"
  proof (cases "0 \<le> sl_res_f st \<or> 0 \<le> sl_res_b st")
    case True
    have "to_relay (splice_round sp st) = todo r s src dst + todo q u dst2 src2" using h2(7) by (simp add: to_relay_def st)
    moreover have "todo q u dst2 src2 \<le> todo (sl_res_b st) (sl_b st) (sl_b_end st) (sl_a_end st)"
      using h2(5) [OF h1(4) [OF e(2)]] h1(7) by simp
    moreover have "todo r s src dst < todo (sl_res_f st) (sl_f st) (sl_a_end st) (sl_b_end st) \<or>
        todo q u dst2 src2 < todo (sl_res_b st) (sl_b st) (sl_b_end st) (sl_a_end st)"
      using True h1(6) [OF e(1)] h2(6) [OF h1(4) [OF e(2)]] h1(7) by auto
    ultimately show ?thesis using h1(5) [OF e(1)] by (auto simp: to_relay_def)
  next
    case False
    then show ?thesis using 1 2 f by (auto simp: st flows_def)
  qed
qed

lemma relaying_results:
  assumes "relaying a b st"
  shows "splice_yield (sl_res_f st) (sl_res_b st) = None \<longleftrightarrow> sl_res_f st = -1 \<and> sl_res_b st = -1"
  by (rule splice_yield_None) (use assms in \<open>simp_all add: relaying_def flows_def\<close>)

lemma loop_relays:
  assumes "relaying a b st"
  shows "relaying a b (splice_loop yielder sp ys st)"
  using assms by (induction ys arbitrary: st) (auto simp: Let_def round_relays(1) split: option.splits)

lemma loop_closes:
  assumes "relaying a b st" "closing st" "to_relay st \<le> length ys" "\<forall>y\<in>set ys. \<forall>ty. \<not> yielder ty y"
  shows "sl_res_f (splice_loop yielder sp ys st) = -1 \<and> sl_res_b (splice_loop yielder sp ys st) = -1 \<and>
    closing (splice_loop yielder sp ys st)"
  using assms
proof (induction ys arbitrary: st)
  case Nil
  then have "splice_round sp st = st \<and> sl_res_f st = -1 \<and> sl_res_b st = -1" using round_relays(3) by fastforce
  then show ?case using Nil.prems(2) by simp
next
  case (Cons y ys)
  let ?st = "splice_round sp st"
  note r = round_relays [OF Cons.prems(1)]
  show ?case
  proof (cases "sl_res_f ?st = -1 \<and> sl_res_b ?st = -1")
    case True
    then show ?thesis using relaying_results [OF r(1)] r(2) [OF Cons.prems(2)] by (simp add: Let_def)
  next
    case False
    then obtain ty where ty: "splice_yield (sl_res_f ?st) (sl_res_b ?st) = Some ty" using relaying_results [OF r(1)] by blast
    have "to_relay ?st < to_relay st" using r(3) [OF Cons.prems(2)] False by auto
    then have "to_relay ?st \<le> length ys" using Cons.prems(3) by simp
    from Cons.IH [OF r(1) r(2) [OF Cons.prems(2)] this] Cons.prems(4) ty show ?thesis by (simp add: Let_def)
  qed
qed

lemma start_relaying:
  assumes "ok f" "ok b" "held f = []" "held b = []" "rx_live (ep_rx a_end)" "rx_live (ep_rx b_end)"
    "tx_live (ep_txs a_end)" "tx_live (ep_txs b_end)" "\<not> ep_shut a_end" "\<not> ep_shut b_end"
  shows "relaying a_end b_end (splice_start f b a_end b_end)"
  using assms by (simp add: relaying_def flows_def splice_start_def)

lemma flows_sent:
  assumes "flows S T r s src dst"
  shows "\<exists>sent later. ep_tx dst = T @ sent \<and> S = sent @ later \<and> (ep_shut dst \<longrightarrow> later = [])"
proof -
  obtain sent where "ep_tx dst = T @ sent" "sent @ held s @ in_bytes (ep_rx src) = S" "ep_shut dst \<longrightarrow> ep_tx dst = T @ S"
    using assms by (auto simp: flows_def)
  then show ?thesis by (intro exI [of _ sent] exI [of _ "held s @ in_bytes (ep_rx src)"]) auto
qed

text \<open>What a relay gives: of each stream a prefix, and all of it once sending is shut down.\<close>

lemma relay_streams:
  assumes "ok f" "ok b" "held f = []" "held b = []" "rx_live (ep_rx a_end)" "rx_live (ep_rx b_end)"
    "tx_live (ep_txs a_end)" "tx_live (ep_txs b_end)" "\<not> ep_shut a_end" "\<not> ep_shut b_end"
    and st_def: "st = splice_loop yielder sp ys (splice_start f b a_end b_end)"
  shows "relayed a_end b_end (sl_a_end st) (sl_b_end st)"
proof -
  have "relaying a_end b_end st" unfolding st_def by (rule loop_relays, rule start_relaying) (fact assms(1-10))+
  then show ?thesis unfolding relaying_def relayed_def using flows_sent by blast
qed

lemma relay_complete:
  assumes "ok f" "ok b" "held f = []" "held b = []" "rx_live (ep_rx a_end)" "rx_live (ep_rx b_end)"
    "tx_willing (ep_txs a_end)" "tx_willing (ep_txs b_end)" "\<not> ep_shut a_end" "\<not> ep_shut b_end"
    "rx_ends (ep_rx a_end)" "rx_ends (ep_rx b_end)"
    "2 + relay_work [] a_end b_end + relay_work [] b_end a_end \<le> length ys" "\<forall>y\<in>set ys. \<forall>ty. \<not> yielder ty y"
    and st_def: "st = splice_loop yielder sp ys (splice_start f b a_end b_end)"
  shows "ep_tx (sl_b_end st) = ep_tx b_end @ in_bytes (ep_rx a_end) \<and> ep_shut (sl_b_end st) \<and>
    ep_tx (sl_a_end st) = ep_tx a_end @ in_bytes (ep_rx b_end) \<and> ep_shut (sl_a_end st)"
proof -
  let ?s = "splice_start f b a_end b_end"
  have r: "relaying a_end b_end ?s" by (rule start_relaying) (use assms(1-10) tx_willing_live in blast)+
  have c: "closing ?s" using assms(7,8,11,12) by (simp add: closing_def ending_def splice_start_def)
  have "to_relay ?s \<le> length ys" using assms(3,4,13) by (simp add: to_relay_def todo_def splice_start_def)
  from loop_closes [OF r c this assms(14)] loop_relays [OF r, of yielder ys]
  show ?thesis by (simp add: st_def relaying_def flows_def closing_def ending_def)
qed

end

section \<open>The two builds keep the contract\<close>

lemma io_again_cases: "io_again s e = 0 \<or> io_again s e = -1"
  by (simp add: io_again_def)

text \<open>What the first half of a step does, reading into the splicer, and the second, writing from it,
  in terms of the bytes that the splicer holds.\<close>

definition half_read :: "byte list \<Rightarrow> endpoint \<Rightarrow> int \<Rightarrow> byte list \<Rightarrow> endpoint \<Rightarrow> bool" where
  "half_read held src r held' src' \<longleftrightarrow>
     src' = src\<lparr>ep_rx := ep_rx src'\<rparr> \<and> rx_live (ep_rx src') \<and> (rx_ends (ep_rx src) \<longrightarrow> rx_ends (ep_rx src')) \<and>
     held' @ in_bytes (ep_rx src') = held @ in_bytes (ep_rx src) \<and> (r = 1 \<or> r = 0 \<or> r = -1) \<and>
     (r = -1 \<longrightarrow> in_bytes (ep_rx src') = []) \<and> (r = 1 \<longrightarrow> held' \<noteq> []) \<and>
     (rx_ends (ep_rx src) \<longrightarrow> r = 0 \<longrightarrow> held' = [] \<longrightarrow> length (ep_rx src') < length (ep_rx src)) \<and>
     length (ep_rx src') \<le> length (ep_rx src) \<and> length (in_bytes (ep_rx src')) \<le> length (in_bytes (ep_rx src))"

definition half_write :: "byte list \<Rightarrow> endpoint \<Rightarrow> int \<Rightarrow> byte list \<Rightarrow> int \<Rightarrow> endpoint \<Rightarrow> bool" where
  "half_write held dst r held' r' dst' \<longleftrightarrow>
     (if held = [] then held' = [] \<and> r' = r \<and> dst' = (if r < 0 then dst\<lparr>ep_shut := True\<rparr> else dst)
      else \<exists>n. held' = drop n held \<and> ep_tx dst' = ep_tx dst @ take n held \<and> n \<le> length held \<and>
        ep_rx dst' = ep_rx dst \<and> ep_shut dst' = ep_shut dst \<and> (r' = 1 \<or> r' = 0 \<or> r' = -1) \<and> tx_live (ep_txs dst') \<and>
        (tx_willing (ep_txs dst) \<longrightarrow> tx_willing (ep_txs dst') \<and> r' \<noteq> -1 \<and>
          length (ep_txs dst') \<le> length (ep_txs dst) \<and> (n = 0 \<longrightarrow> length (ep_txs dst') < length (ep_txs dst))))"

lemma halves_contract:
  assumes r: "half_read held src r h src'" and w: "half_write h dst r h' r' dst'" and t: "tx_live (ep_txs dst)"
  shows "(r' = 1 \<or> r' = 0 \<or> r' = -1) \<and> src' = src\<lparr>ep_rx := ep_rx src'\<rparr> \<and> ep_rx dst' = ep_rx dst \<and>
      rx_live (ep_rx src') \<and> tx_live (ep_txs dst')"
    and "\<exists>sent. ep_tx dst' = ep_tx dst @ sent \<and> sent @ h' @ in_bytes (ep_rx src') = held @ in_bytes (ep_rx src)"
    and "ep_shut dst' \<Longrightarrow> \<not> ep_shut dst \<Longrightarrow> r' = -1 \<and> h' = [] \<and> in_bytes (ep_rx src') = []"
    and "tx_willing (ep_txs dst) \<Longrightarrow> rx_ends (ep_rx src) \<Longrightarrow> tx_willing (ep_txs dst') \<and> rx_ends (ep_rx src') \<and>
      (if r' = -1 then ep_shut dst'
       else 2 * length (in_bytes (ep_rx src')) + length (ep_rx src') + length h' + length (ep_txs dst') <
         2 * length (in_bytes (ep_rx src)) + length (ep_rx src) + length held + length (ep_txs dst))"
proof -
  note R = r [unfolded half_read_def]
  show "(r' = 1 \<or> r' = 0 \<or> r' = -1) \<and> src' = src\<lparr>ep_rx := ep_rx src'\<rparr> \<and> ep_rx dst' = ep_rx dst \<and>
      rx_live (ep_rx src') \<and> tx_live (ep_txs dst')"
    using R w t by (auto simp: half_write_def split: if_splits)
  show "\<exists>sent. ep_tx dst' = ep_tx dst @ sent \<and> sent @ h' @ in_bytes (ep_rx src') = held @ in_bytes (ep_rx src)"
  proof (cases "h = []")
    case True
    then show ?thesis using R w by (intro exI [of _ "[]"]) (auto simp: half_write_def split: if_splits)
  next
    case False
    then obtain n where n: "h' = drop n h" "ep_tx dst' = ep_tx dst @ take n h" using w by (auto simp: half_write_def)
    have "take n h @ h' @ in_bytes (ep_rx src') = h @ in_bytes (ep_rx src')" unfolding n(1) by simp
    then show ?thesis using R n(2) by metis
  qed
  show "r' = -1 \<and> h' = [] \<and> in_bytes (ep_rx src') = []" if "ep_shut dst'" "\<not> ep_shut dst"
    using that R w by (auto simp: half_write_def split: if_splits)
  assume a: "tx_willing (ep_txs dst)" "rx_ends (ep_rx src)"
  have len: "length h + length (in_bytes (ep_rx src')) = length held + length (in_bytes (ep_rx src))"
    using R by (metis length_append)
  show "tx_willing (ep_txs dst') \<and> rx_ends (ep_rx src') \<and>
      (if r' = -1 then ep_shut dst'
       else 2 * length (in_bytes (ep_rx src')) + length (ep_rx src') + length h' + length (ep_txs dst') <
         2 * length (in_bytes (ep_rx src)) + length (ep_rx src) + length held + length (ep_txs dst))"
  proof (cases "h = []")
    case True
    then have d: "h' = []" "r' = r" "dst' = (if r < 0 then dst\<lparr>ep_shut := True\<rparr> else dst)" "r \<noteq> 1"
      using w R by (auto simp: half_write_def)
    then show ?thesis using R a len True by auto
  next
    case False
    then obtain n where n: "h' = drop n h" "n \<le> length h" "tx_willing (ep_txs dst')" "r' \<noteq> -1"
      "length (ep_txs dst') \<le> length (ep_txs dst)" "n = 0 \<longrightarrow> length (ep_txs dst') < length (ep_txs dst)"
      using w a(1) by (auto simp: half_write_def)
    have "length h' = length h - n" using n(1) by simp
    then have "length h' + length (ep_txs dst') < length h + length (ep_txs dst)" using n(2,5,6) by auto
    moreover have "length (ep_rx src') \<le> length (ep_rx src)" "length (in_bytes (ep_rx src')) \<le> length (in_bytes (ep_rx src))"
      "rx_ends (ep_rx src')" using R a(2) by simp_all
    ultimately show ?thesis using n(3,4) len by auto
  qed
qed

lemma half_write_sys:
  assumes "sys_write held (ep_txs dst) = (s, n, txs, e)" "held \<noteq> []" "tx_live (ep_txs dst)"
    and "dst' = dst\<lparr>ep_txs := txs, ep_tx := ep_tx dst @ take n held\<rparr>"
  shows "half_write held dst r (drop n held) (if 0 \<ge> s then io_again s e else 1) dst'"
proof -
  note w = sys_write_stream [OF assms(1,3,2)]
  have "n \<noteq> 0 \<or> 0 \<ge> s" using w(4) by force
  then show ?thesis using w assms(2,4) io_again_cases [of s e]
    by (auto simp: half_write_def intro!: exI [of _ n])
qed

lemma half_read_sys:
  assumes "sys_read m (ep_rx src) = (s, bs, rx, e)" "rx_live (ep_rx src)" "0 < m"
  shows "half_read held src (if 0 \<ge> s then io_again s e else 1) (held @ bs) (src\<lparr>ep_rx := rx\<rparr>)"
proof -
  note r = sys_read_stream [OF assms]
  have "0 \<ge> s \<or> bs \<noteq> []" using r(6) by force
  moreover have "length (in_bytes rx) \<le> length (in_bytes (ep_rx src))" unfolding r(1) [symmetric] by simp
  ultimately show ?thesis using r io_again_cases [of s e] by (auto simp: half_read_def)
qed

lemma half_read_full: "held \<noteq> [] \<Longrightarrow> rx_live (ep_rx src) \<Longrightarrow> r = 1 \<or> r = 0 \<Longrightarrow> half_read held src r held src"
  by (auto simp: half_read_def)

lemma iov_scatter_Nil [simp]: "iov_scatter vs [] d = d"
  by (induction vs arbitrary: d) (simp_all add: Let_def write_at_def)

lemma task_io_splice_halves:
  assumes "cb_ok buf" "rx_live (ep_rx src)" "tx_live (ep_txs dst)" "task_io_splice buf src dst = (r, buf', src', dst')"
  shows "cb_ok buf' \<and> (\<exists>q h. half_read (cb_bytes buf) src q h src' \<and> half_write h dst q (cb_bytes buf') r dst')"
proof -
  let ?iov = "hev_circular_buffer_writing buf"
  obtain q buf1 src1 where 1: "(if ?iov = [] then (1, buf, src)
      else let (s, bs, rx, e) = sys_read (iov_size ?iov) (ep_rx src);
               buf' = buf\<lparr>cb_data := iov_scatter ?iov bs (cb_data buf)\<rparr>;
               src = src\<lparr>ep_rx := rx\<rparr>
           in if 0 \<ge> s then (io_again s e, buf', src)
              else (1, hev_circular_buffer_write_finish buf' (of_int s), src)) = (q, buf1, src1)" by (rule prod_cases3)
  have h: "cb_ok buf1 \<and> half_read (cb_bytes buf) src q (cb_bytes buf1) src1"
  proof (cases "?iov = []")
    case True
    then have "cb_space buf = 0" using cb_writing_empty assms(1) by blast
    then have "cb_bytes buf \<noteq> []" using assms(1) by (auto simp: cb_bytes_Nil cb_space_def cb_ok_def)
    then show ?thesis using True 1 assms(1,2) half_read_full by auto
  next
    case False
    obtain s bs rx e where rd: "sys_read (iov_size ?iov) (ep_rx src) = (s, bs, rx, e)" by (rule prod_cases4)
    have sz: "iov_size ?iov = cb_space buf" "0 < cb_space buf" using False cb_room cb_writing_empty assms(1) by auto
    note rs = sys_read_stream [OF rd assms(2), unfolded sz(1), OF sz(2)]
    note hr = half_read_sys [OF rd assms(2), unfolded sz(1), OF sz(2), of "cb_bytes buf"]
    show ?thesis
    proof (cases "0 \<ge> s")
      case True
      then show ?thesis using 1 False rd rs(5) hr assms(1) by (auto simp: Let_def)
    next
      case pos: False
      then have "s = int (length bs)" using rs(6) by simp
      then have "q = 1" "buf1 = cb_fill bs buf" "src1 = src\<lparr>ep_rx := rx\<rparr>"
        using pos False 1 rd by (simp_all add: Let_def cb_fill_def)
      then show ?thesis using cb_fill_ok [OF assms(1) rs(3)] hr pos by simp
    qed
  qed
  show ?thesis
  proof (cases "cb_bytes buf1 = []")
    case True
    then have "hev_circular_buffer_reading buf1 = []" by (simp add: cb_reading_empty)
    then have "(r, buf', src', dst') = (q, buf1, src1, if q < 0 then dst\<lparr>ep_shut := True\<rparr> else dst)"
      using assms(4) 1 by (auto simp: task_io_splice_def)
    then show ?thesis using h True by (auto simp: half_write_def)
  next
    case False
    then have ne: "hev_circular_buffer_reading buf1 \<noteq> []" by (simp add: cb_reading_empty)
    have g: "iov_gather (hev_circular_buffer_reading buf1) (cb_data buf1) = cb_bytes buf1" using cb_gather h by blast
    obtain s n txs e where wr: "sys_write (cb_bytes buf1) (ep_txs dst) = (s, n, txs, e)" by (rule prod_cases4)
    let ?dst = "dst\<lparr>ep_txs := txs, ep_tx := ep_tx dst @ take n (cb_bytes buf1)\<rparr>"
    have eq: "(r, buf', src', dst') = (if 0 \<ge> s then (io_again s e, buf1, src1, ?dst)
        else (1, hev_circular_buffer_read_finish buf1 (of_int s), src1, ?dst))"
      using assms(4) 1 ne g wr by (simp add: task_io_splice_def Let_def)
    note sw = sys_write_stream [OF wr assms(3) False]
    note hw = half_write_sys [OF wr False assms(3) refl, of q]
    show ?thesis
    proof (cases "0 \<ge> s")
      case True
      then show ?thesis using eq hw h sw(5) by auto
    next
      case pos: False
      then have "s = int n" using sw(4) by simp
      moreover have "n \<le> unat (cb_use_size buf1)" using sw(1) by simp
      ultimately show ?thesis using eq hw h pos cb_read_finish_ok [of buf1 n] by auto
    qed
  qed
qed

definition ps_ok :: "pipe_splicer \<Rightarrow> bool" where
  "ps_ok self \<longleftrightarrow> unat (ps_wlen self) = length (ps_pipe self) \<and> length (ps_pipe self) \<le> unat (ps_blen self) \<and>
     0 < unat (ps_blen self) \<and> unat (ps_blen self) < 2 ^ 62"

lemma ps_ok_append:
  assumes "ps_ok self" "length bs \<le> pipe_room self"
  shows "ps_ok (self\<lparr>ps_pipe := ps_pipe self @ bs, ps_wlen := ps_wlen self + of_nat (length bs)\<rparr>)"
proof -
  have n: "unat (of_nat (length bs) :: size_t) = length bs"
    using assms by (intro unat_of_nat_size) (auto simp: ps_ok_def pipe_room_def)
  have "unat (ps_wlen self + of_nat (length bs)) = unat (ps_wlen self) + length bs"
    using assms n by (subst unat_add_size) (auto simp: ps_ok_def pipe_room_def)
  then show ?thesis using assms by (auto simp: ps_ok_def pipe_room_def)
qed

lemma ps_ok_drop:
  assumes "ps_ok self" "n \<le> length (ps_pipe self)"
  shows "ps_ok (self\<lparr>ps_pipe := drop n (ps_pipe self), ps_wlen := ps_wlen self - of_nat n\<rparr>)"
proof -
  have n: "unat (of_nat n :: size_t) = n" using assms by (intro unat_of_nat_size) (auto simp: ps_ok_def)
  have "unat (ps_wlen self - of_nat n) = unat (ps_wlen self) - n"
    using assms n by (subst unat_sub_size') (auto simp: ps_ok_def)
  then show ?thesis using assms by (auto simp: ps_ok_def)
qed

lemma task_io_splice_pipe_halves:
  assumes "ps_ok self" "rx_live (ep_rx src)" "tx_live (ep_txs dst)"
    "task_io_splice_pipe self src dst = (r, self', src', dst')"
  shows "ps_ok self' \<and> (\<exists>q h. half_read (ps_pipe self) src q h src' \<and> half_write h dst q (ps_pipe self') r dst')"
proof -
  let ?room = "min (unat (ps_blen self)) (pipe_room self)"
  obtain s bs rx e where 1: "(if pipe_room self = 0 then (-1, [], ep_rx src, EAGAIN) else sys_read ?room (ep_rx src)) =
      (s, bs, rx, e)" by (rule prod_cases4)
  let ?src = "src\<lparr>ep_rx := rx\<rparr>"
  let ?q = "if 0 \<ge> s then io_again s e else 1"
  let ?self = "if 0 \<ge> s then self else self\<lparr>ps_pipe := ps_pipe self @ bs, ps_wlen := ps_wlen self + of_int s\<rparr>"
  have h: "ps_ok ?self \<and> half_read (ps_pipe self) src ?q (ps_pipe ?self) ?src"
  proof (cases "pipe_room self = 0")
    case True
    then have "ps_pipe self \<noteq> []" "(s, bs, rx, e) = (-1, [], ep_rx src, EAGAIN)"
      using assms(1) 1 by (auto simp: ps_ok_def pipe_room_def)
    then show ?thesis using assms(1,2) half_read_full by (auto simp: io_again_def)
  next
    case False
    then have rd: "sys_read ?room (ep_rx src) = (s, bs, rx, e)" and pos: "0 < ?room"
      using 1 assms(1) by (auto simp: ps_ok_def)
    note rs = sys_read_stream [OF rd assms(2) pos]
    note hr = half_read_sys [OF rd assms(2) pos, of "ps_pipe self"]
    show ?thesis
    proof (cases "0 \<ge> s")
      case True
      then show ?thesis using hr rs(5) assms(1) by auto
    next
      case pos: False
      then have "s = int (length bs)" "length bs \<le> pipe_room self" using rs(3,6) by auto
      then show ?thesis using hr pos ps_ok_append [OF assms(1), of bs] by auto
    qed
  qed
  define p q where pq: "p = ?self" "q = ?q"
  have h: "ps_ok p" "half_read (ps_pipe self) src q (ps_pipe p) ?src" using h by (simp_all only: pq)
  then have wl: "ps_wlen p \<noteq> 0 \<longleftrightarrow> ps_pipe p \<noteq> []" by (auto simp: ps_ok_def word_unat_eq_iff)
  have pair: "(if 0 \<ge> s then (io_again s e, self)
      else (1, self\<lparr>ps_pipe := ps_pipe self @ bs, ps_wlen := ps_wlen self + of_int s\<rparr>)) = (q, p)" by (simp add: pq)
  have body: "(r, self', src', dst') =
      (if ps_wlen p \<noteq> 0 then
         let bs = take (unat (ps_blen p)) (ps_pipe p);
             (s, n, txs, e) = sys_write bs (ep_txs dst);
             dst = dst\<lparr>ep_txs := txs, ep_tx := ep_tx dst @ take n bs\<rparr>;
             self = p\<lparr>ps_pipe := drop n (ps_pipe p)\<rparr>
         in if 0 \<ge> s then (io_again s e, self, ?src, dst)
            else (1, self\<lparr>ps_wlen := ps_wlen self - of_int s\<rparr>, ?src, dst)
       else (q, p, ?src, if q < 0 then dst\<lparr>ep_shut := True\<rparr> else dst))"
    using assms(4) [unfolded task_io_splice_pipe_def 1 Let_def prod.case pair, symmetric] unfolding Let_def .
  show ?thesis
  proof (cases "ps_pipe p = []")
    case True
    then have "(r, self', src', dst') = (q, p, ?src, if q < 0 then dst\<lparr>ep_shut := True\<rparr> else dst)"
      using body wl by simp
    then show ?thesis using h True by (auto simp: half_write_def)
  next
    case False
    let ?bs = "ps_pipe p"
    have all: "take (unat (ps_blen p)) ?bs = ?bs" using h(1) by (simp add: ps_ok_def)
    obtain s2 n txs e2 where wr: "sys_write ?bs (ep_txs dst) = (s2, n, txs, e2)" by (rule prod_cases4)
    let ?dst = "dst\<lparr>ep_txs := txs, ep_tx := ep_tx dst @ take n ?bs\<rparr>"
    have eq: "(r, self', src', dst') = (if 0 \<ge> s2 then (io_again s2 e2, p\<lparr>ps_pipe := drop n ?bs\<rparr>, ?src, ?dst)
        else (1, p\<lparr>ps_pipe := drop n ?bs, ps_wlen := ps_wlen p - of_int s2\<rparr>, ?src, ?dst))"
      using body wl False wr all by (simp add: Let_def)
    note sw = sys_write_stream [OF wr assms(3) False]
    note hw = half_write_sys [OF wr False assms(3) refl, of q]
    show ?thesis
    proof (cases "0 \<ge> s2")
      case True
      then have "n = 0" using sw(5) by simp
      then show ?thesis using eq hw h True by auto
    next
      case pos: False
      then have "s2 = int n" using sw(4) by simp
      then show ?thesis using eq hw h pos ps_ok_drop [OF h(1) sw(1)] by auto
    qed
  qed
qed

lemma splicerI:
  assumes halves: "\<And>s src dst r s' src' dst'. ok s \<Longrightarrow> rx_live (ep_rx src) \<Longrightarrow> tx_live (ep_txs dst) \<Longrightarrow>
    sp s src dst = (r, s', src', dst') \<Longrightarrow>
    ok s' \<and> (\<exists>q h. half_read (held s) src q h src' \<and> half_write h dst q (held s') r dst')"
  shows "splicer ok held sp"
proof unfold_locales
  fix s src dst r s' src' dst'
  assume a: "ok s" "rx_live (ep_rx src)" and sp: "sp s src dst = (r, s', src', dst')"
  { assume t: "tx_live (ep_txs dst)"
    obtain q h where k: "ok s'" and 1: "half_read (held s) src q h src'" and 2: "half_write h dst q (held s') r dst'"
      using halves [OF a t sp] by blast
    note c = halves_contract [OF 1 2 t]
    show "ok s' \<and> (r = 1 \<or> r = 0 \<or> r = -1) \<and> src' = src\<lparr>ep_rx := ep_rx src'\<rparr> \<and> ep_rx dst' = ep_rx dst \<and>
        rx_live (ep_rx src') \<and> tx_live (ep_txs dst')" using c(1) k by blast
    show "\<exists>sent. ep_tx dst' = ep_tx dst @ sent \<and> sent @ held s' @ in_bytes (ep_rx src') = held s @ in_bytes (ep_rx src)"
      by (rule c(2))
    show "ep_shut dst' \<Longrightarrow> \<not> ep_shut dst \<Longrightarrow> r = -1 \<and> held s' = [] \<and> in_bytes (ep_rx src') = []" by (rule c(3))
  next
    assume t: "tx_willing (ep_txs dst)" "rx_ends (ep_rx src)"
    obtain q h where 1: "half_read (held s) src q h src'" and 2: "half_write h dst q (held s') r dst'"
      using halves [OF a tx_willing_live [OF t(1)] sp] by blast
    show "tx_willing (ep_txs dst') \<and> rx_ends (ep_rx src') \<and>
        (if r = -1 then ep_shut dst' else relay_work (held s') src' dst' < relay_work (held s) src dst)"
      unfolding relay_work_def by (rule halves_contract(4) [OF 1 2 tx_willing_live [OF t(1)] t]) }
qed

interpretation buffered: splicer cb_ok cb_bytes task_io_splice
  by (rule splicerI) (rule task_io_splice_halves)

interpretation piped: splicer ps_ok ps_pipe task_io_splice_pipe
  by (rule splicerI) (rule task_io_splice_pipe_halves)

lemma splicer_init_ok:
  assumes "task_io_splicer_init got junk n = Some s" "length junk = unat n" "0 < n" "n < 2 ^ 62"
  shows "cb_ok s" "cb_bytes s = []"
  using assms by (auto simp: task_io_splicer_init_def hev_circular_buffer_new_def cb_ok_def cb_bytes_def word_less_nat_alt
      split: if_splits)

text \<open>The pipes are closed again.\<close>

lemma splicer_init_pipe_ok:
  assumes "task_io_splicer_init_pipe n w = (res, p, w')" "0 < n" "n < 2 ^ 62" "fds_ok w"
  shows "fds_ok w' \<and> (case p of None \<Rightarrow> w_open w' = w_open w
    | Some s \<Rightarrow> ps_ok s \<and> ps_pipe s = [] \<and> w_open w' - {ps_fd0 s, ps_fd1 s} = w_open w)"
proof -
  obtain r1 w1 where 1: "sys_result w = (r1, w1)" by force
  note f1 = sys_result_frame [OF 1]
  show ?thesis
  proof (cases "r1 < 0")
    case True
    then show ?thesis using assms(1,4) 1 f1 by (auto simp: task_io_splicer_init_pipe_def sys_pipe_def fds_ok_def)
  next
    case False
    let ?a = "w_next_fd w" and ?b = "w_next_fd w + 1"
    define w2 where "w2 = w1\<lparr>w_next_fd := ?b + 1, w_open := insert ?b (insert ?a (w_open w1))\<rparr>"
    have p: "sys_pipe w = (0, ?a, ?b, w2)" using 1 False f1 by (simp add: sys_pipe_def w2_def Let_def)
    have "fd < w_next_fd w" if "fd \<in> w_open w" for fd using assms(4) that by (simp add: fds_ok_def)
    from this [of ?a] this [of ?b] have fresh: "?a \<notin> w_open w" "?b \<notin> w_open w" by auto
    then have o2: "w_open w2 - {?a, ?b} = w_open w" using f1 by (auto simp: w2_def)
    have "fds_ok w1" using assms(4) f1 by (simp add: fds_ok_def)
    from fds_ok_grow(2) [OF this] have k2: "fds_ok w2" using f1 by (simp add: w2_def)
    obtain r3 w3 where 3: "sys_result w2 = (r3, w3)" by force
    obtain r4 w4 where 4: "sys_result w3 = (r4, w4)" by force
    note f = sys_result_frame [OF 3] sys_result_frame [OF 4]
    have k: "fds_ok w3" "fds_ok w4" "w_open w3 = w_open w2" "w_open w4 = w_open w2" using k2 f by (simp_all add: fds_ok_def)
    have c: "fds_ok (sys_close ?b (sys_close ?a v))" "w_open (sys_close ?b (sys_close ?a v)) = w_open v - {?a, ?b}"
      if "fds_ok v" for v using that by (auto simp: fds_ok_def)
    define s where "s = \<lparr>ps_fd0 = ?a, ps_fd1 = ?b, ps_wlen = 0, ps_blen = n, ps_pipe = []\<rparr>"
    have s: "ps_ok s" "ps_pipe s = []" "ps_fd0 s = ?a" "ps_fd1 s = ?b"
      using assms(2,3) by (simp_all add: s_def ps_ok_def word_less_nat_alt)
    have eq: "(p, w') = (if r3 < 0 then (None, sys_close ?b (sys_close ?a w3))
        else if r4 < 0 then (None, sys_close ?b (sys_close ?a w4)) else (Some s, w4))"
      using assms(1) p 3 4 by (simp add: task_io_splicer_init_pipe_def s_def split: if_splits)
    show ?thesis
    proof (cases "r3 < 0 \<or> r4 < 0")
      case True
      then show ?thesis using eq c k o2 by (auto split: if_splits)
    next
      case False
      then show ?thesis using eq k o2 s by simp
    qed
  qed
qed

lemma task_io_splice_pipe_fds:
  assumes "task_io_splice_pipe self src dst = (r, self', src', dst')"
  shows "ps_fd0 self' = ps_fd0 self \<and> ps_fd1 self' = ps_fd1 self"
  using assms by (auto simp: task_io_splice_pipe_def Let_def split: if_splits prod.splits)

lemma splice_round_pipe_fds:
  "ps_fd0 (sl_f (splice_round task_io_splice_pipe st)) = ps_fd0 (sl_f st) \<and>
   ps_fd1 (sl_f (splice_round task_io_splice_pipe st)) = ps_fd1 (sl_f st) \<and>
   ps_fd0 (sl_b (splice_round task_io_splice_pipe st)) = ps_fd0 (sl_b st) \<and>
   ps_fd1 (sl_b (splice_round task_io_splice_pipe st)) = ps_fd1 (sl_b st)"
  using task_io_splice_pipe_fds by (auto simp: splice_round_def Let_def split: prod.splits)

lemma splice_loop_pipe_fds:
  "ps_fd0 (sl_f (splice_loop yielder task_io_splice_pipe ys st)) = ps_fd0 (sl_f st) \<and>
   ps_fd1 (sl_f (splice_loop yielder task_io_splice_pipe ys st)) = ps_fd1 (sl_f st) \<and>
   ps_fd0 (sl_b (splice_loop yielder task_io_splice_pipe ys st)) = ps_fd0 (sl_b st) \<and>
   ps_fd1 (sl_b (splice_loop yielder task_io_splice_pipe ys st)) = ps_fd1 (sl_b st)"
  by (induction ys arbitrary: st) (simp_all add: Let_def splice_round_pipe_fds split: option.split)

text \<open>A relay that could not be set up has sent nothing.\<close>

lemma relayed_refl: "\<not> ep_shut a \<Longrightarrow> \<not> ep_shut b \<Longrightarrow> relayed a b a b"
  by (simp add: relayed_def)

lemma pipe_relay:
  assumes "hev_task_io_splice_pipe yielder size_f size_b ys a b w = (a', b', w')" "fds_ok w"
    "0 < size_f" "size_f < 2 ^ 62" "0 < size_b" "size_b < 2 ^ 62"
  shows "w_open w' = w_open w" and "a' = a \<and> b' = b \<or> (\<exists>f g. ps_ok f \<and> ps_ok g \<and> ps_pipe f = [] \<and> ps_pipe g = [] \<and>
    a' = sl_a_end (splice_loop yielder task_io_splice_pipe ys (splice_start f g a b)) \<and>
    b' = sl_b_end (splice_loop yielder task_io_splice_pipe ys (splice_start f g a b)))"
proof -
  obtain r1 p1 w1 where 1: "task_io_splicer_init_pipe size_f w = (r1, p1, w1)" by (rule prod_cases3)
  note i1 = splicer_init_pipe_ok [OF 1 assms(3,4,2)]
  have "w_open w' = w_open w \<and> (a' = a \<and> b' = b \<or> (\<exists>f g. ps_ok f \<and> ps_ok g \<and> ps_pipe f = [] \<and> ps_pipe g = [] \<and>
    a' = sl_a_end (splice_loop yielder task_io_splice_pipe ys (splice_start f g a b)) \<and>
    b' = sl_b_end (splice_loop yielder task_io_splice_pipe ys (splice_start f g a b))))"
  proof (cases p1)
    case None
    then show ?thesis using assms(1) 1 i1 by (simp add: hev_task_io_splice_pipe_def)
  next
    case (Some f)
    obtain r2 p2 w2 where 2: "task_io_splicer_init_pipe size_b w1 = (r2, p2, w2)" by (rule prod_cases3)
    have f: "ps_ok f" "ps_pipe f = []" "w_open w1 - {ps_fd0 f, ps_fd1 f} = w_open w" "fds_ok w1" using i1 Some by simp_all
    note i2 = splicer_init_pipe_ok [OF 2 assms(5,6) f(4)]
    show ?thesis
    proof (cases p2)
      case None
      then have "a' = a" "b' = b" "w' = task_io_splicer_fini_pipe f w2"
        using assms(1) 1 2 Some by (simp_all add: hev_task_io_splice_pipe_def)
      moreover have "w_open (task_io_splicer_fini_pipe f w2) = w_open w2 - {ps_fd0 f, ps_fd1 f}"
        by (simp add: task_io_splicer_fini_pipe_def Diff_insert2 [symmetric])
      moreover have "w_open w2 = w_open w1" using i2 None by simp
      ultimately show ?thesis using f(3) by simp
    next
      case g: (Some g)
      have g': "ps_ok g" "ps_pipe g = []" "w_open w2 - {ps_fd0 g, ps_fd1 g} = w_open w1" using i2 g by simp_all
      let ?st = "splice_loop yielder task_io_splice_pipe ys (splice_start f g a b)"
      have eq: "a' = sl_a_end ?st" "b' = sl_b_end ?st"
        "w' = task_io_splicer_fini_pipe (sl_f ?st) (task_io_splicer_fini_pipe (sl_b ?st) w2)"
        using assms(1) 1 2 Some g by (simp_all add: hev_task_io_splice_pipe_def Let_def)
      have fd: "ps_fd0 (sl_f ?st) = ps_fd0 f" "ps_fd1 (sl_f ?st) = ps_fd1 f" "ps_fd0 (sl_b ?st) = ps_fd0 g"
        "ps_fd1 (sl_b ?st) = ps_fd1 g"
        by (simp_all add: splice_loop_pipe_fds splice_start_def)
      have "w_open w' = w_open w2 - {ps_fd0 g} - {ps_fd1 g} - {ps_fd0 f} - {ps_fd1 f}"
        unfolding eq(3) by (simp add: task_io_splicer_fini_pipe_def fd)
      also have "\<dots> = w_open w2 - {ps_fd0 g, ps_fd1 g} - {ps_fd0 f, ps_fd1 f}" by blast
      also have "\<dots> = w_open w" unfolding g'(3) f(3) ..
      finally have "w_open w' = w_open w" .
      moreover have "ps_ok f \<and> ps_ok g \<and> ps_pipe f = [] \<and> ps_pipe g = [] \<and> a' = sl_a_end ?st \<and> b' = sl_b_end ?st"
        using f(1,2) g'(1,2) eq(1,2) by simp
      ultimately show ?thesis by blast
    qed
  qed
  then show "w_open w' = w_open w" "a' = a \<and> b' = b \<or> (\<exists>f g. ps_ok f \<and> ps_ok g \<and> ps_pipe f = [] \<and> ps_pipe g = [] \<and>
    a' = sl_a_end (splice_loop yielder task_io_splice_pipe ys (splice_start f g a b)) \<and>
    b' = sl_b_end (splice_loop yielder task_io_splice_pipe ys (splice_start f g a b)))" by blast+
qed

section \<open>Relays\<close>

definition mem_of :: "size_t \<Rightarrow> byte list option \<Rightarrow> bool" where
  "mem_of n m \<longleftrightarrow> (case m of None \<Rightarrow> True | Some junk \<Rightarrow> length junk = unat n)"

text \<open>
  C10: The copy loop of the task system relays two byte streams: whatever arrives when, whatever each
  peer takes, and whenever the yielder stops it, what it has sent to each endpoint is a prefix of
  what the other one sent, in order and without loss, and it shuts sending down only when it has
  sent all. This holds for the build with circular buffers, also without memory for them, and
  for the one with pipes, which closes the pipes it opened in the end.
\<close>

theorem splice_relays_streams:
  assumes "rx_live (ep_rx a)" "rx_live (ep_rx b)" "tx_live (ep_txs a)" "tx_live (ep_txs b)" "\<not> ep_shut a" "\<not> ep_shut b"
    and "0 < n" "n < 2 ^ 62" "mem_of n mem_f" "mem_of n mem_b"
    and "0 < size_f" "size_f < 2 ^ 62" "0 < size_b" "size_b < 2 ^ 62" "fds_ok w"
  shows "(case hev_task_io_splice yielder mem_f mem_b n ys a b of (a', b') \<Rightarrow> relayed a b a' b') \<and>
    (case hev_task_io_splice_pipe yielder size_f size_b ys a b w of (a', b', w') \<Rightarrow>
       relayed a b a' b' \<and> w_open w' = w_open w)"
proof
  obtain a' b' where s: "hev_task_io_splice yielder mem_f mem_b n ys a b = (a', b')" by force
  have "relayed a b a' b'"
  proof (cases "mem_f = None \<or> mem_b = None")
    case True
    then have "a' = a \<and> b' = b"
      using s by (auto simp: hev_task_io_splice_def task_io_splicer_init_def hev_circular_buffer_new_def split: if_splits option.splits)
    then show ?thesis using relayed_refl assms(5,6) by blast
  next
    case False
    then obtain jf jb where j: "mem_f = Some jf" "mem_b = Some jb" "length jf = unat n" "length jb = unat n"
      using assms(9,10) by (auto simp: mem_of_def)
    obtain f g where fg: "task_io_splicer_init True jf n = Some f" "task_io_splicer_init True jb n = Some g"
      by (simp add: task_io_splicer_init_def hev_circular_buffer_new_def)
    note fo = splicer_init_ok [OF fg(1) j(3) assms(7,8)] and go = splicer_init_ok [OF fg(2) j(4) assms(7,8)]
    have "a' = sl_a_end (splice_loop yielder task_io_splice ys (splice_start f g a b))"
      "b' = sl_b_end (splice_loop yielder task_io_splice ys (splice_start f g a b))"
      using s fg j(1,2) by (simp_all add: hev_task_io_splice_def Let_def)
    then show ?thesis using buffered.relay_streams [OF fo(1) go(1) fo(2) go(2) assms(1-6) refl] by simp
  qed
  then show "case hev_task_io_splice yielder mem_f mem_b n ys a b of (a', b') \<Rightarrow> relayed a b a' b'" using s by simp
  obtain a2 b2 w2 where p: "hev_task_io_splice_pipe yielder size_f size_b ys a b w = (a2, b2, w2)" by (rule prod_cases3)
  note pr = pipe_relay [OF p assms(15,11-14)]
  have "relayed a b a2 b2"
    using pr(2) relayed_refl [OF assms(5,6)] piped.relay_streams [OF _ _ _ _ assms(1-6) refl] by fastforce
  then show "case hev_task_io_splice_pipe yielder size_f size_b ys a b w of (a', b', w') \<Rightarrow>
      relayed a b a' b' \<and> w_open w' = w_open w" using p pr(1) by simp
qed

definition example_a :: endpoint where
  "example_a = \<lparr>ep_rx = [RxData [104, 105, 33], RxAgain False, RxEnd 0], ep_txs = [TxAgain False, TxAccept 1],
     ep_tx = [], ep_shut = False\<rparr>"

definition example_b :: endpoint where
  "example_b = \<lparr>ep_rx = [RxData [111, 107], RxEnd 0], ep_txs = [TxAccept 2], ep_tx = [], ep_shut = False\<rparr>"

definition example_boot_world :: world where
  "example_boot_world = \<lparr>w_rx = [], w_txs = [], w_tx = [], w_errno = EAGAIN, w_script = replicate 6 0, w_names = [],
     w_next_fd = 3, w_open = {0}, w_live = 0, w_junk = []\<rparr>"

lemma splice_relays_streams_witness:
  "(case hev_task_io_splice (\<lambda>ty y. y) (Some [0, 0]) (Some [0, 0]) 2 [False, False, True] example_a example_b of
      (a', b') \<Rightarrow> relayed example_a example_b a' b' \<and> ep_tx b' = [104, 105, 33]) \<and>
   (case hev_task_io_splice_pipe (\<lambda>ty y. y) 2 2 [False, False, True] example_a example_b example_boot_world of
      (a', b', w') \<Rightarrow> relayed example_a example_b a' b' \<and> w_open w' = {0})"
proof -
  have "(case hev_task_io_splice (\<lambda>ty y. y) (Some [0, 0]) (Some [0, 0]) 2 [False, False, True] example_a example_b of
      (a', b') \<Rightarrow> ep_tx b' = [104, 105, 33])" by code_simp
  with splice_relays_streams [of example_a example_b 2 "Some [0, 0]" "Some [0, 0]" 2 2 example_boot_world "\<lambda>ty y. y"
      "[False, False, True]"]
  show ?thesis
    by (auto simp: example_a_def example_b_def example_boot_world_def mem_of_def fds_ok_def rx_live_def tx_live_def)
qed

text \<open>
  C11: A relay that is not stopped completes: when both streams end and both peers take what is sent,
  however slowly, then after a number of rounds that the lengths bound everything has been sent in
  both directions and sending is shut down.
\<close>

theorem splice_completes:
  assumes "rx_live (ep_rx a)" "rx_live (ep_rx b)" "tx_willing (ep_txs a)" "tx_willing (ep_txs b)" "\<not> ep_shut a" "\<not> ep_shut b"
    and "rx_ends (ep_rx a)" "rx_ends (ep_rx b)"
    and "0 < n" "n < 2 ^ 62" "length jf = unat n" "length jb = unat n"
    and "2 + relay_work [] a b + relay_work [] b a \<le> length ys" "\<forall>y\<in>set ys. \<forall>ty. \<not> yielder ty y"
  shows "\<exists>a' b'. hev_task_io_splice yielder (Some jf) (Some jb) n ys a b = (a', b') \<and>
    ep_tx b' = ep_tx b @ in_bytes (ep_rx a) \<and> ep_shut b' \<and> ep_tx a' = ep_tx a @ in_bytes (ep_rx b) \<and> ep_shut a'"
proof -
  obtain f g where fg: "task_io_splicer_init True jf n = Some f" "task_io_splicer_init True jb n = Some g"
    by (simp add: task_io_splicer_init_def hev_circular_buffer_new_def)
  note fo = splicer_init_ok [OF fg(1) assms(11,9,10)] and go = splicer_init_ok [OF fg(2) assms(12,9,10)]
  have "hev_task_io_splice yielder (Some jf) (Some jb) n ys a b =
      (sl_a_end (splice_loop yielder task_io_splice ys (splice_start f g a b)),
       sl_b_end (splice_loop yielder task_io_splice ys (splice_start f g a b)))"
    using fg by (simp add: hev_task_io_splice_def Let_def)
  then show ?thesis
    using buffered.relay_complete [OF fo(1) go(1) fo(2) go(2) assms(1-8) assms(13,14) refl] by simp
qed


definition example_server :: HevSocks5 where
  "example_server = \<lparr>sk_fd = 5, sk_timeout = 1000, sk_udp_associated = False, sk_type = HEV_SOCKS5_TYPE_TCP,
     sk_addr_family = 0\<rparr>"

lemma splice_completes_witness:
  "\<exists>a' b'. hev_socks5_tcp_relay example_server (Some (replicate 8192 0)) (Some (replicate 8192 0)) (replicate 24 1) example_a example_b = (0, a', b') \<and>
   ep_tx b' = [104, 105, 33] \<and> ep_shut b' \<and> ep_tx a' = [111, 107] \<and> ep_shut a'"
proof -
  have "\<forall>y\<in>set (replicate 24 1). \<forall>ty. \<not> relay_yielder example_server ty y"
    by (auto simp: example_server_def relay_yielder_def hev_socks5_task_io_yielder_def)
  from splice_completes [OF _ _ _ _ _ _ _ _ _ _ _ _ _ this, of example_a example_b 8192 "replicate 8192 0" "replicate 8192 0"]
  show ?thesis
    by (auto simp: example_a_def example_b_def relay_work_def rx_live_def tx_willing_def rx_ends_def hev_socks5_tcp_relay_def
      example_server_def)
qed

end
