(* ===== verification/TunDevice.thy ===== *)
theory TunDevice
  imports Tunnel
begin

text \<open>
  The tunnel device on Linux, \<open>hev-tunnel-linux.c\<close>: opening it and setting its address, its size
  of packets and its state through requests to the kernel. The state is the name of the device and
  the requests made so far, in order; their results come from the world, and what the kernel
  writes back, the answers of \<open>inet_pton\<close> and whether an error is EEXIST are arguments.
\<close>

datatype tun_ioctl =
    TUNSETIFF u16 "byte list"
  | SIOCSIFMTU "byte list" u32
  | SIOCGIFFLAGS "byte list"
  | SIOCSIFFLAGS "byte list" u16
  | SIOCSIFADDR "byte list" "byte list"
  | SIOCSIFNETMASK "byte list" u32
  | SIOCGIFINDEX "byte list"
  | SIOCSIFADDR_IN6 u32 u32 "byte list"

record tun_dev =
  td_tun_name :: "byte list"
  td_requests :: "tun_ioctl list"

text \<open>What the kernel writes back: the name it gives, the flags and the index of the interface.\<close>

record tun_kernel =
  tk_name :: "byte list \<Rightarrow> byte list"
  tk_flags :: "byte list \<Rightarrow> u16"
  tk_index :: "byte list \<Rightarrow> u32"

definition IFNAMSIZ :: nat where "IFNAMSIZ = 16"
definition IFF_TUN :: u16 where "IFF_TUN = 0x0001"
definition IFF_NO_PI :: u16 where "IFF_NO_PI = 0x1000"
definition IFF_MULTI_QUEUE :: u16 where "IFF_MULTI_QUEUE = 0x0100"
definition IFF_UP :: u16 where "IFF_UP = 0x0001"

text \<open>\<open>ioctl\<close> is -1 when it fails.\<close>

definition tun_request :: "tun_ioctl \<Rightarrow> tun_dev \<Rightarrow> world \<Rightarrow> int \<times> tun_dev \<times> world" where
  "tun_request q d w =
     (let (r, w) = sys_result w in (if r < 0 then -1 else r, d\<lparr>td_requests := td_requests d @ [q]\<rparr>, w))"

section \<open>The operations\<close>

definition hev_tunnel_open ::
  "tun_kernel \<Rightarrow> byte list option \<Rightarrow> bool \<Rightarrow> tun_dev \<Rightarrow> world \<Rightarrow> int \<times> tun_dev \<times> world" where
  "hev_tunnel_open k name multi_queue d w =
     (let (fd, w) = sys_socket w
      in if fd < 0 then (-1, d, w)
         else
           let ifr_flags = IFF_TUN OR IFF_NO_PI;
               ifr_flags = (if multi_queue then ifr_flags OR IFF_MULTI_QUEUE else ifr_flags);
               ifr_name = (case name of None \<Rightarrow> replicate IFNAMSIZ 0
                 | Some name \<Rightarrow> c_strncpy name (IFNAMSIZ - 1) @ [0]);
               (res, d, w) = tun_request (TUNSETIFF ifr_flags ifr_name) d w
           in if res < 0 then (res, d, sys_close fd w)
              else (fd, d\<lparr>td_tun_name := tk_name k ifr_name\<rparr>, w))"

definition hev_tunnel_close :: "int \<Rightarrow> world \<Rightarrow> world" where
  "hev_tunnel_close fd w = sys_close fd w"

definition hev_tunnel_set_mtu :: "u32 \<Rightarrow> tun_dev \<Rightarrow> world \<Rightarrow> int \<times> tun_dev \<times> world" where
  "hev_tunnel_set_mtu mtu d w =
     (let (fd, w) = sys_socket w
      in if fd < 0 then (-1, d, w)
         else
           let (res, d, w) = tun_request (SIOCSIFMTU (td_tun_name d) mtu) d w
           in (res, d, sys_close fd w))"

definition hev_tunnel_set_state :: "tun_kernel \<Rightarrow> bool \<Rightarrow> tun_dev \<Rightarrow> world \<Rightarrow> int \<times> tun_dev \<times> world" where
  "hev_tunnel_set_state k state d w =
     (let (fd, w) = sys_socket w
      in if fd < 0 then (-1, d, w)
         else
           let (res, d, w) = tun_request (SIOCGIFFLAGS (td_tun_name d)) d w
           in if res < 0 then (res, d, sys_close fd w)
              else
                let ifr_flags = tk_flags k (td_tun_name d);
                    ifr_flags = (if state then ifr_flags OR IFF_UP else ifr_flags AND NOT IFF_UP);
                    (res, d, w) = tun_request (SIOCSIFFLAGS (td_tun_name d) ifr_flags) d w
                in (res, d, sys_close fd w))"

text \<open>A shift by the width of the type or more is undefined. \<open>htonl\<close> is \<open>ntohl\<close>.\<close>

definition hev_tunnel_set_ipv4 ::
  "(byte list \<Rightarrow> byte list option) \<Rightarrow> bool \<Rightarrow> byte list \<Rightarrow> u32 \<Rightarrow> tun_dev \<Rightarrow> world \<Rightarrow> (int \<times> tun_dev \<times> world) option" where
  "hev_tunnel_set_ipv4 pton4 eexist addr prefix d w =
     (let (fd, w) = sys_socket w
      in if fd < 0 then Some (-1, d, w)
         else case pton4 addr of
           None \<Rightarrow> Some (0, d, sys_close fd w)
         | Some sin_addr \<Rightarrow>
             let (res, d, w) = tun_request (SIOCSIFADDR (td_tun_name d) sin_addr) d w
             in if res < 0 then Some (res, d, sys_close fd w)
                else if 32 - prefix \<ge> 32 then None
                else
                  let netmask = ntohl (push_bit (unat (32 - prefix)) (-1));
                      (res, d, w) = tun_request (SIOCSIFNETMASK (td_tun_name d) netmask) d w;
                      res = (if res < 0 \<and> eexist then 0 else res)
                  in Some (res, d, sys_close fd w))"

definition hev_tunnel_set_ipv6 ::
  "tun_kernel \<Rightarrow> (byte list \<Rightarrow> byte list option) \<Rightarrow> bool \<Rightarrow> byte list \<Rightarrow> u32 \<Rightarrow> tun_dev \<Rightarrow> world \<Rightarrow>
   int \<times> tun_dev \<times> world" where
  "hev_tunnel_set_ipv6 k pton6 eexist addr prefix d w =
     (let (fd, w) = sys_socket w
      in if fd < 0 then (-1, d, w)
         else
           let (res, d, w) = tun_request (SIOCGIFINDEX (td_tun_name d)) d w
           in if res < 0 then (res, d, sys_close fd w)
              else
                let ifindex = tk_index k (td_tun_name d)
                in case pton6 addr of
                     None \<Rightarrow> (0, d, sys_close fd w)
                   | Some addr6 \<Rightarrow>
                       let (res, d, w) = tun_request (SIOCSIFADDR_IN6 prefix ifindex addr6) d w;
                           res = (if res < 0 \<and> eexist then 0 else res)
                       in (res, d, sys_close fd w))"

definition hev_tunnel_get_name :: "tun_dev \<Rightarrow> byte list" where
  "hev_tunnel_get_name d = td_tun_name d"

section \<open>Starting with this device\<close>

text \<open>\<open>tunnel_init\<close> with the operations above in the places where it leaves them open.\<close>

definition tunnel_init_linux ::
  "tun_kernel \<Rightarrow> (byte list \<Rightarrow> byte list option) \<Rightarrow> (byte list \<Rightarrow> byte list option) \<Rightarrow> bool \<Rightarrow> hev_config \<Rightarrow> int \<Rightarrow>
   tunnel \<Rightarrow> tun_dev \<Rightarrow> world \<Rightarrow> (int \<times> tunnel \<times> tun_dev \<times> world) option" where
  "tunnel_init_linux k pton4 pton6 eexist cf extern_tun_fd t d w =
     (if extern_tun_fd \<ge> 0 then
        let (res, w) = sys_result w
        in if res < 0 then Some (-1, t, d, w) else Some (0, t\<lparr>tn_fd := extern_tun_fd\<rparr>, d, w)
      else do {
        let (fd, d, w) = hev_tunnel_open k (hev_config_get_tunnel_name cf) (hev_config_get_tunnel_multi_queue cf) d w;
        let t = t\<lparr>tn_fd := fd\<rparr>;
        if tn_fd t < 0 then Some (-1, t, d, w)
        else do {
          let (res, d, w) = hev_tunnel_set_mtu (hev_config_get_tunnel_mtu cf) d w;
          if res < 0 then Some (-1, t, d, w)
          else do {
            (res, d, w) \<leftarrow> (case hev_config_get_tunnel_ipv4_address cf of None \<Rightarrow> Some (0, d, w)
              | Some ipv4 \<Rightarrow> hev_tunnel_set_ipv4 pton4 eexist ipv4 32 d w);
            if res < 0 then Some (-1, t, d, w)
            else do {
              let (res, d, w) = (case hev_config_get_tunnel_ipv6_address cf of None \<Rightarrow> (0, d, w)
                | Some ipv6 \<Rightarrow> hev_tunnel_set_ipv6 k pton6 eexist ipv6 128 d w);
              if res < 0 then Some (-1, t, d, w)
              else do {
                let (res, d, w) = hev_tunnel_set_state k True d w;
                if res < 0 then Some (-1, t, d, w)
                else Some (0, t\<lparr>tn_fd_local := True\<rparr>, d, w)
              }
            }
          }
        }
      })"

section \<open>What each operation does\<close>

text \<open>Nothing stays open and nothing is allocated.\<close>

definition quiet :: "world \<Rightarrow> world \<Rightarrow> bool" where
  "quiet w w' \<longleftrightarrow> fds_ok w' \<and> w_open w' = w_open w \<and> w_live w' = w_live w"

lemma socket_frame:
  assumes "sys_socket w = (fd, w1)" "fds_ok w"
  shows "fds_ok w1 \<and> w_live w1 = w_live w \<and>
    (fd = -1 \<and> w_open w1 = w_open w \<or> fd = w_next_fd w \<and> 0 \<le> fd \<and> fd \<notin> w_open w \<and> w_open w1 = insert fd (w_open w))"
proof -
  obtain r v where r: "sys_result w = (r, v)" by force
  note f = sys_result_frame [OF r]
  show ?thesis
  proof (cases "r < 0")
    case True
    then show ?thesis using assms r f by (auto simp: sys_socket_def fds_ok_def)
  next
    case False
    then have "fd = w_next_fd w" "w1 = v\<lparr>w_next_fd := w_next_fd w + 1, w_open := insert (w_next_fd w) (w_open v)\<rparr>"
      using assms(1) r f by (auto simp add: sys_socket_def)
    moreover have "x < w_next_fd w" if "x \<in> w_open w" for x using assms(2) that by (simp add: fds_ok_def)
    then have "w_next_fd w \<notin> w_open w" by blast
    moreover have "fds_ok v" using assms(2) f by (simp add: fds_ok_def)
    ultimately show ?thesis using assms(2) f by (force simp: fds_ok_def)
  qed
qed

lemma request_frame:
  assumes "tun_request q d w = (r, d', w')"
  shows "-1 \<le> r" "d' = d\<lparr>td_requests := td_requests d @ [q]\<rparr>" "w_open w' = w_open w" "w_live w' = w_live w"
    "fds_ok w' = fds_ok w"
proof -
  obtain s v where s: "sys_result w = (s, v)" by force
  show "-1 \<le> r" "d' = d\<lparr>td_requests := td_requests d @ [q]\<rparr>" "w_open w' = w_open w" "w_live w' = w_live w"
    "fds_ok w' = fds_ok w"
    using assms s sys_result_frame [OF s] by (auto simp: tun_request_def fds_ok_def split: if_splits)
qed

text \<open>Closing the socket again after requests.\<close>

lemma close_quiet:
  assumes "sys_socket w = (fd, w1)" "fds_ok w" "\<not> fd < 0" "w_open v = w_open w1" "w_live v = w_live w1" "fds_ok v = fds_ok w1"
  shows "quiet w (sys_close fd v)"
  using socket_frame [OF assms(1,2)] assms(3-6) by (auto simp: quiet_def fds_ok_def sys_close_def)

lemma set_mtu_facts:
  assumes "hev_tunnel_set_mtu mtu d w = (r, d', w')" "fds_ok w"
  shows "quiet w w' \<and> -1 \<le> r \<and> td_tun_name d' = td_tun_name d \<and>
    (0 \<le> r \<longrightarrow> td_requests d' = td_requests d @ [SIOCSIFMTU (td_tun_name d) mtu])"
proof -
  obtain fd w1 where s: "sys_socket w = (fd, w1)" by force
  obtain q e v where rq: "tun_request (SIOCSIFMTU (td_tun_name d) mtu) d w1 = (q, e, v)" by (rule prod_cases3)
  note f = request_frame [OF rq]
  show ?thesis
  proof (cases "fd < 0")
    case True
    then show ?thesis using assms s socket_frame [OF s assms(2)] by (auto simp: hev_tunnel_set_mtu_def quiet_def)
  next
    case False
    then have "r = q" "d' = e" "w' = sys_close fd v" using assms(1) s rq by (simp_all add: hev_tunnel_set_mtu_def)
    then show ?thesis using close_quiet [OF s assms(2) False f(3,4,5)] f(1,2) by simp
  qed
qed

lemma set_state_facts:
  assumes "hev_tunnel_set_state k state d w = (r, d', w')" "fds_ok w"
  shows "quiet w w' \<and> -1 \<le> r \<and> td_tun_name d' = td_tun_name d \<and>
    (0 \<le> r \<longrightarrow> td_requests d' = td_requests d @ [SIOCGIFFLAGS (td_tun_name d),
       SIOCSIFFLAGS (td_tun_name d) (if state then tk_flags k (td_tun_name d) OR IFF_UP
         else tk_flags k (td_tun_name d) AND NOT IFF_UP)])"
proof -
  obtain fd w1 where s: "sys_socket w = (fd, w1)" by force
  obtain q e v where rq: "tun_request (SIOCGIFFLAGS (td_tun_name d)) d w1 = (q, e, v)" by (rule prod_cases3)
  note f = request_frame [OF rq]
  let ?fl = "if state then tk_flags k (td_tun_name d) OR IFF_UP else tk_flags k (td_tun_name d) AND NOT IFF_UP"
  obtain q2 e2 v2 where rq2: "tun_request (SIOCSIFFLAGS (td_tun_name d) ?fl) e v = (q2, e2, v2)" by (rule prod_cases3)
  note f2 = request_frame [OF rq2]
  have n: "td_tun_name e = td_tun_name d" using f(2) by simp
  show ?thesis
  proof (cases "fd < 0")
    case True
    then show ?thesis using assms s socket_frame [OF s assms(2)] by (auto simp: hev_tunnel_set_state_def quiet_def)
  next
    case False
    show ?thesis
    proof (cases "q < 0")
      case True
      then have "r = q" "d' = e" "w' = sys_close fd v" using assms(1) s rq False by (simp_all add: hev_tunnel_set_state_def)
      then show ?thesis using close_quiet [OF s assms(2) False f(3,4,5)] f(1,2) True by simp
    next
      case q: False
      have "(r, d', w') = (q2, e2, sys_close fd v2)"
        using assms(1) s rq rq2 False q n
        by (simp add: hev_tunnel_set_state_def Let_def cong del: if_weak_cong)
      moreover have "quiet w (sys_close fd v2)"
        by (rule close_quiet [OF s assms(2) False]) (use f f2 in simp_all)
      ultimately show ?thesis using f(2) f2(1,2) by simp
    qed
  qed
qed

lemma set_ipv4_facts:
  assumes "fds_ok w"
  shows "\<exists>r d' w'. hev_tunnel_set_ipv4 pton4 eexist addr 32 d w = Some (r, d', w') \<and> quiet w w' \<and> -1 \<le> r \<and>
    td_tun_name d' = td_tun_name d \<and>
    (0 \<le> r \<longrightarrow> td_requests d' = td_requests d @ (case pton4 addr of None \<Rightarrow> [] | Some a \<Rightarrow>
       [SIOCSIFADDR (td_tun_name d) a, SIOCSIFNETMASK (td_tun_name d) 0xFFFFFFFF]))"
proof -
  obtain fd w1 where s: "sys_socket w = (fd, w1)" by force
  show ?thesis
  proof (cases "fd < 0")
    case True
    then show ?thesis using s socket_frame [OF s assms] by (auto simp: hev_tunnel_set_ipv4_def quiet_def)
  next
    case fd: False
    show ?thesis
    proof (cases "pton4 addr")
      case None
      then show ?thesis using s fd close_quiet [OF s assms fd refl refl refl] by (simp add: hev_tunnel_set_ipv4_def)
    next
      case (Some a)
      obtain q e v where rq: "tun_request (SIOCSIFADDR (td_tun_name d) a) d w1 = (q, e, v)" by (rule prod_cases3)
      note f = request_frame [OF rq]
      have mask: "ntohl (push_bit (unat (32 - (32 :: u32))) (-1)) = 0xFFFFFFFF" by (simp add: ntohl_def) code_simp
      obtain q2 e2 v2 where rq2: "tun_request (SIOCSIFNETMASK (td_tun_name d) 0xFFFFFFFF) e v = (q2, e2, v2)"
        by (rule prod_cases3)
      note f2 = request_frame [OF rq2]
      have n: "td_tun_name e = td_tun_name d" using f(2) by simp
      show ?thesis
      proof (cases "q < 0")
        case True
        then have "hev_tunnel_set_ipv4 pton4 eexist addr 32 d w = Some (q, e, sys_close fd v)"
          using s fd Some rq by (simp add: hev_tunnel_set_ipv4_def)
        then show ?thesis using close_quiet [OF s assms fd f(3,4,5)] f(1,2) True by simp
      next
        case q: False
        have "hev_tunnel_set_ipv4 pton4 eexist addr 32 d w =
            Some (if q2 < 0 \<and> eexist then 0 else q2, e2, sys_close fd v2)"
          using s fd Some rq rq2 q n mask by (simp add: hev_tunnel_set_ipv4_def Let_def)
        moreover have "quiet w (sys_close fd v2)" by (rule close_quiet [OF s assms fd]) (use f f2 in simp_all)
        ultimately show ?thesis using f(2) f2(1,2) Some by simp
      qed
    qed
  qed
qed

lemma set_ipv6_facts:
  assumes "hev_tunnel_set_ipv6 k pton6 eexist addr prefix d w = (r, d', w')" "fds_ok w"
  shows "quiet w w' \<and> -1 \<le> r \<and> td_tun_name d' = td_tun_name d \<and>
    (0 \<le> r \<longrightarrow> td_requests d' = td_requests d @ SIOCGIFINDEX (td_tun_name d) #
       (case pton6 addr of None \<Rightarrow> [] | Some a \<Rightarrow> [SIOCSIFADDR_IN6 prefix (tk_index k (td_tun_name d)) a]))"
proof -
  obtain fd w1 where s: "sys_socket w = (fd, w1)" by force
  obtain q e v where rq: "tun_request (SIOCGIFINDEX (td_tun_name d)) d w1 = (q, e, v)" by (rule prod_cases3)
  note f = request_frame [OF rq]
  have n: "td_tun_name e = td_tun_name d" using f(2) by simp
  show ?thesis
  proof (cases "fd < 0")
    case True
    then show ?thesis using assms s socket_frame [OF s assms(2)] by (auto simp: hev_tunnel_set_ipv6_def quiet_def)
  next
    case fd: False
    show ?thesis
    proof (cases "q < 0")
      case True
      then have "r = q" "d' = e" "w' = sys_close fd v" using assms(1) s rq fd by (simp_all add: hev_tunnel_set_ipv6_def)
      then show ?thesis using close_quiet [OF s assms(2) fd f(3,4,5)] f(1,2) True by simp
    next
      case q: False
      show ?thesis
      proof (cases "pton6 addr")
        case None
        then have "r = 0" "d' = e" "w' = sys_close fd v" using assms(1) s rq fd q by (simp_all add: hev_tunnel_set_ipv6_def Let_def)
        then show ?thesis using close_quiet [OF s assms(2) fd f(3,4,5)] f(2) None by simp
      next
        case (Some a)
        obtain q2 e2 v2 where rq2: "tun_request (SIOCSIFADDR_IN6 prefix (tk_index k (td_tun_name d)) a) e v = (q2, e2, v2)"
          by (rule prod_cases3)
        note f2 = request_frame [OF rq2]
        have "(r, d', w') = (if q2 < 0 \<and> eexist then 0 else q2, e2, sys_close fd v2)"
          using assms(1) s rq rq2 fd q n Some by (simp add: hev_tunnel_set_ipv6_def Let_def)
        moreover have "quiet w (sys_close fd v2)" by (rule close_quiet [OF s assms(2) fd]) (use f f2 in simp_all)
        ultimately show ?thesis using f(2) f2(1,2) Some by simp
      qed
    qed
  qed
qed

definition open_flags :: "bool \<Rightarrow> u16" where
  "open_flags multi_queue =
     (if multi_queue then IFF_TUN OR IFF_NO_PI OR IFF_MULTI_QUEUE else IFF_TUN OR IFF_NO_PI)"

definition open_name :: "byte list option \<Rightarrow> byte list" where
  "open_name name = (case name of None \<Rightarrow> replicate 16 0 | Some n \<Rightarrow> c_strncpy n 15 @ [0])"

lemma open_facts:
  assumes "hev_tunnel_open k name mq d w = (fd, d', w')" "fds_ok w"
  shows "fd = -1 \<and> quiet w w' \<or>
    fd = w_next_fd w \<and> 0 \<le> fd \<and> fds_ok w' \<and> w_open w' = insert fd (w_open w) \<and> w_live w' = w_live w \<and>
    td_tun_name d' = tk_name k (open_name name) \<and>
    td_requests d' = td_requests d @ [TUNSETIFF (open_flags mq) (open_name name)]"
proof -
  obtain f w1 where s: "sys_socket w = (f, w1)" by force
  obtain q e v where rq: "tun_request (TUNSETIFF (open_flags mq) (open_name name)) d w1 = (q, e, v)" by (rule prod_cases3)
  note g = request_frame [OF rq]
  show ?thesis
  proof (cases "f < 0")
    case True
    then show ?thesis using assms s socket_frame [OF s assms(2)] by (auto simp: hev_tunnel_open_def quiet_def)
  next
    case f: False
    have nm: "(case name of None \<Rightarrow> replicate IFNAMSIZ 0 | Some name \<Rightarrow> c_strncpy name (IFNAMSIZ - 1) @ [0]) = open_name name"
      by (simp add: open_name_def IFNAMSIZ_def split: option.split)
    have fl: "(if mq then (IFF_TUN OR IFF_NO_PI) OR IFF_MULTI_QUEUE else IFF_TUN OR IFF_NO_PI) = open_flags mq"
      by (simp add: open_flags_def or.assoc)
    have eq: "(fd, d', w') = (if q < 0 then (q, e, sys_close f v) else (f, e\<lparr>td_tun_name := tk_name k (open_name name)\<rparr>, v))"
      using assms(1) s f rq by (simp add: hev_tunnel_open_def nm fl)
    show ?thesis
    proof (cases "q < 0")
      case True
      then show ?thesis using eq g(1) close_quiet [OF s assms(2) f g(3,4,5)] by simp
    next
      case False
      then show ?thesis using eq g(2-5) f socket_frame [OF s assms(2)] by auto
    qed
  qed
qed

section \<open>The device and the tunnel\<close>

text \<open>The requests of a start that succeeds.\<close>

definition linux_requests ::
  "tun_kernel \<Rightarrow> (byte list \<Rightarrow> byte list option) \<Rightarrow> (byte list \<Rightarrow> byte list option) \<Rightarrow> hev_config \<Rightarrow> tun_ioctl list" where
  "linux_requests k pton4 pton6 cf =
     (let given = open_name (hev_config_get_tunnel_name cf); nm = tk_name k given
      in [TUNSETIFF (open_flags (hev_config_get_tunnel_multi_queue cf)) given,
          SIOCSIFMTU nm (hev_config_get_tunnel_mtu cf)] @
         (case Option.bind (hev_config_get_tunnel_ipv4_address cf) pton4 of None \<Rightarrow> []
          | Some a \<Rightarrow> [SIOCSIFADDR nm a, SIOCSIFNETMASK nm 0xFFFFFFFF]) @
         (case hev_config_get_tunnel_ipv6_address cf of None \<Rightarrow> []
          | Some addr \<Rightarrow> SIOCGIFINDEX nm #
              (case pton6 addr of None \<Rightarrow> [] | Some a \<Rightarrow> [SIOCSIFADDR_IN6 128 (tk_index k nm) a])) @
         [SIOCGIFFLAGS nm, SIOCSIFFLAGS nm (tk_flags k nm OR IFF_UP)])"

text \<open>
  C27: On Linux, starting the tunnel has the result, the state of the tunnel and the descriptors left
  open that the model of \<open>tunnel_init\<close> without a device has for some answers of its calls, so what
  holds of the latter holds of the former: every socket used for a request is closed again. When it
  succeeds, it has made exactly the requests for a device of the name, the size of packets and
  the addresses of the configuration, and has set it up; an address that is not one is passed over
  in silence, as a result of 0 from \<open>inet_pton\<close> is returned as success.
\<close>

theorem linux_device_refines:
  assumes "fds_ok w"
  shows "\<exists>r t' d' w' rs w0'.
    tunnel_init_linux k pton4 pton6 eexist cf efd t d w = Some (r, t', d', w') \<and>
    tunnel_init cf efd t (w\<lparr>w_script := rs\<rparr>) = (r, t', w0') \<and> w_open w' = w_open w0' \<and> w_live w' = w_live w0' \<and>
    (r = 0 \<and> efd < 0 \<longrightarrow> td_requests d' = td_requests d @ linux_requests k pton4 pton6 cf)"
proof (cases "0 \<le> efd")
  case True
  obtain r w1 where r: "sys_result w = (r, w1)" by force
  note f = sys_result_frame [OF r]
  have "sys_result (w\<lparr>w_script := [r]\<rparr>) = (r, w\<lparr>w_script := []\<rparr>)" by (simp add: sys_result_def)
  then have a: "tunnel_init cf efd t (w\<lparr>w_script := [r]\<rparr>) =
      (if r < 0 then (-1, t, w\<lparr>w_script := []\<rparr>) else (0, t\<lparr>tn_fd := efd\<rparr>, w\<lparr>w_script := []\<rparr>))"
    using True by (simp add: tunnel_init_def)
  have b: "tunnel_init_linux k pton4 pton6 eexist cf efd t d w =
      (if r < 0 then Some (-1, t, d, w1) else Some (0, t\<lparr>tn_fd := efd\<rparr>, d, w1))"
    using True r by (simp add: tunnel_init_linux_def)
  show ?thesis
  proof (cases "r < 0")
    case neg: True
    show ?thesis
      by (rule exI [of _ "-1"], rule exI [of _ t], rule exI [of _ d], rule exI [of _ w1], rule exI [of _ "[r]"],
          rule exI [of _ "w\<lparr>w_script := []\<rparr>"]) (use a b f neg in simp)
  next
    case pos: False
    show ?thesis
      by (rule exI [of _ 0], rule exI [of _ "t\<lparr>tn_fd := efd\<rparr>"], rule exI [of _ d], rule exI [of _ w1],
          rule exI [of _ "[r]"], rule exI [of _ "w\<lparr>w_script := []\<rparr>"]) (use a b f pos True in simp)
  qed
next
  case efd: False
  let ?name = "hev_config_get_tunnel_name cf" and ?mq = "hev_config_get_tunnel_multi_queue cf"
  let ?ip4 = "hev_config_get_tunnel_ipv4_address cf" and ?ip6 = "hev_config_get_tunnel_ipv6_address cf"
  obtain fd d1 w1 where 1: "hev_tunnel_open k ?name ?mq d w = (fd, d1, w1)" by (rule prod_cases3)
  note o1 = open_facts [OF 1 assms]
  show ?thesis
  proof (cases "fd < 0")
    case True
    then have "tunnel_init_linux k pton4 pton6 eexist cf efd t d w = Some (-1, t\<lparr>tn_fd := -1\<rparr>, d1, w1)" "quiet w w1"
      using efd 1 o1 by (auto simp: tunnel_init_linux_def)
    moreover have "tunnel_init cf efd t (w\<lparr>w_script := []\<rparr>) = (-1, t\<lparr>tn_fd := -1\<rparr>, w\<lparr>w_script := []\<rparr>)"
      using efd by (simp add: tunnel_init_def sys_socket_def sys_result_def)
    ultimately show ?thesis by (fastforce simp: quiet_def)
  next
    case fd: False
    let ?nm = "tk_name k (open_name ?name)"
    have op: "fd = w_next_fd w" "fds_ok w1" "w_open w1 = insert fd (w_open w)" "w_live w1 = w_live w"
      "td_tun_name d1 = ?nm" "td_requests d1 = td_requests d @ [TUNSETIFF (open_flags ?mq) (open_name ?name)]"
      using o1 fd by auto
    obtain r2 d2 w2 where 2: "hev_tunnel_set_mtu (hev_config_get_tunnel_mtu cf) d1 w1 = (r2, d2, w2)" by (rule prod_cases3)
    note o2 = set_mtu_facts [OF 2 op(2)]
    obtain r3 d3 w3 where 3: "(case ?ip4 of None \<Rightarrow> Some (0, d2, w2) | Some ipv4 \<Rightarrow> hev_tunnel_set_ipv4 pton4 eexist ipv4 32 d2 w2) =
        Some (r3, d3, w3)"
      and o3: "quiet w2 w3" "-1 \<le> r3" "td_tun_name d3 = td_tun_name d2" "?ip4 = None \<Longrightarrow> r3 = 0"
        "0 \<le> r3 \<Longrightarrow> td_requests d3 = td_requests d2 @ (case Option.bind ?ip4 pton4 of None \<Rightarrow> []
          | Some a \<Rightarrow> [SIOCSIFADDR (td_tun_name d2) a, SIOCSIFNETMASK (td_tun_name d2) 0xFFFFFFFF])"
    proof (cases ?ip4)
      case None
      then show thesis using that [of 0 d2 w2] o2 by (simp add: quiet_def)
    next
      case (Some addr)
      have "fds_ok w2" using o2 by (simp add: quiet_def)
      from set_ipv4_facts [OF this, of pton4 eexist addr d2] obtain r d' w' where
        "hev_tunnel_set_ipv4 pton4 eexist addr 32 d2 w2 = Some (r, d', w')" "quiet w2 w'" "-1 \<le> r"
        "td_tun_name d' = td_tun_name d2"
        "0 \<le> r \<longrightarrow> td_requests d' = td_requests d2 @ (case pton4 addr of None \<Rightarrow> [] | Some a \<Rightarrow>
          [SIOCSIFADDR (td_tun_name d2) a, SIOCSIFNETMASK (td_tun_name d2) 0xFFFFFFFF])" by blast
      then show thesis using that [of r d' w'] Some by simp
    qed
    obtain r4 d4 w4 where 4: "(case ?ip6 of None \<Rightarrow> (0, d3, w3) | Some ipv6 \<Rightarrow> hev_tunnel_set_ipv6 k pton6 eexist ipv6 128 d3 w3) =
        (r4, d4, w4)"
      and o4: "quiet w3 w4" "-1 \<le> r4" "td_tun_name d4 = td_tun_name d3" "?ip6 = None \<Longrightarrow> r4 = 0"
        "0 \<le> r4 \<Longrightarrow> td_requests d4 = td_requests d3 @ (case ?ip6 of None \<Rightarrow> []
          | Some addr \<Rightarrow> SIOCGIFINDEX (td_tun_name d3) #
              (case pton6 addr of None \<Rightarrow> [] | Some a \<Rightarrow> [SIOCSIFADDR_IN6 128 (tk_index k (td_tun_name d3)) a]))"
    proof (cases ?ip6)
      case None
      then show thesis using that [of 0 d3 w3] o3 by (simp add: quiet_def)
    next
      case (Some addr)
      obtain r d' w' where e: "hev_tunnel_set_ipv6 k pton6 eexist addr 128 d3 w3 = (r, d', w')" by (rule prod_cases3)
      have "fds_ok w3" using o3(1) by (simp add: quiet_def)
      from set_ipv6_facts [OF e this] show thesis using that [of r d' w'] Some e by simp
    qed
    obtain r5 d5 w5 where 5: "hev_tunnel_set_state k True d4 w4 = (r5, d5, w5)" by (rule prod_cases3)
    have "fds_ok w4" using o4(1) by (simp add: quiet_def)
    note o5 = set_state_facts [OF 5 this]
    let ?t1 = "t\<lparr>tn_fd := fd\<rparr>" and ?t2 = "t\<lparr>tn_fd := fd, tn_fd_local := True\<rparr>"
    have lin: "tunnel_init_linux k pton4 pton6 eexist cf efd t d w = Some
        (if r2 < 0 then (-1, ?t1, d2, w2) else if r3 < 0 then (-1, ?t1, d3, w3)
         else if r4 < 0 then (-1, ?t1, d4, w4) else if r5 < 0 then (-1, ?t1, d5, w5) else (0, ?t2, d5, w5))"
      using efd fd 1 2 3 4 5 by (simp add: tunnel_init_linux_def)
    define rs where "rs = [0, r2] @ (if ?ip4 = None then [] else [r3]) @ (if ?ip6 = None then [] else [r4]) @ [r5]"
    have "\<exists>w0'. tunnel_init cf efd t (w\<lparr>w_script := rs\<rparr>) =
        (if r2 < 0 then -1 else if r3 < 0 then -1 else if r4 < 0 then -1 else if r5 < 0 then -1 else 0,
         if r2 < 0 \<or> r3 < 0 \<or> r4 < 0 \<or> r5 < 0 then ?t1 else ?t2, w0') \<and>
        w_open w0' = insert fd (w_open w) \<and> w_live w0' = w_live w"
      using efd fd op(1) o3(4) o4(4)
      by (cases ?ip4; cases ?ip6) (auto simp add: tunnel_init_def sys_socket_def sys_result_def rs_def Let_def)
    then obtain w0' where a: "tunnel_init cf efd t (w\<lparr>w_script := rs\<rparr>) =
        (if r2 < 0 then -1 else if r3 < 0 then -1 else if r4 < 0 then -1 else if r5 < 0 then -1 else 0,
         if r2 < 0 \<or> r3 < 0 \<or> r4 < 0 \<or> r5 < 0 then ?t1 else ?t2, w0')"
        "w_open w0' = insert fd (w_open w)" "w_live w0' = w_live w" by blast
    have q: "w_open w2 = insert fd (w_open w)" "w_open w3 = insert fd (w_open w)" "w_open w4 = insert fd (w_open w)"
      "w_open w5 = insert fd (w_open w)" "w_live w2 = w_live w" "w_live w3 = w_live w" "w_live w4 = w_live w"
      "w_live w5 = w_live w"
      using op(3,4) o2 o3(1) o4(1) o5 by (simp_all add: quiet_def)
    have nm: "td_tun_name d2 = ?nm" "td_tun_name d3 = ?nm" "td_tun_name d4 = ?nm" using op(5) o2 o3(3) o4(3) by simp_all
    have rq: "td_requests d5 = td_requests d @ linux_requests k pton4 pton6 cf"
      if "\<not> r2 < 0" "\<not> r3 < 0" "\<not> r4 < 0" "\<not> r5 < 0"
      using that op(6) o2 [unfolded op(5)] o3(5) [unfolded nm] o4(5) [unfolded nm] o5 [unfolded nm]
      by (simp add: linux_requests_def Let_def)
    show ?thesis
    proof (cases "r2 < 0 \<or> r3 < 0 \<or> r4 < 0 \<or> r5 < 0")
      case True
      then obtain dd ww where "tunnel_init_linux k pton4 pton6 eexist cf efd t d w = Some (-1, ?t1, dd, ww)"
        "w_open ww = insert fd (w_open w)" "w_live ww = w_live w" using lin q by (auto split: if_splits)
      moreover have "tunnel_init cf efd t (w\<lparr>w_script := rs\<rparr>) = (-1, ?t1, w0')" using a(1) True by auto
      ultimately show ?thesis using a(2,3)
        by - (rule exI [of _ "-1"], rule exI [of _ ?t1], rule exI [of _ dd], rule exI [of _ ww], rule exI [of _ rs],
          rule exI [of _ w0'], simp)
    next
      case False
      then have "tunnel_init_linux k pton4 pton6 eexist cf efd t d w = Some (0, ?t2, d5, w5)"
        "tunnel_init cf efd t (w\<lparr>w_script := rs\<rparr>) = (0, ?t2, w0')" using lin a(1) by simp_all
      moreover have "td_requests d5 = td_requests d @ linux_requests k pton4 pton6 cf" by (rule rq) (use False in auto)
      ultimately show ?thesis using a(2,3) q(4,8)
        by - (rule exI [of _ 0], rule exI [of _ ?t2], rule exI [of _ d5], rule exI [of _ w5], rule exI [of _ rs],
          rule exI [of _ w0'], simp)
    qed
  qed
qed

definition example_kernel :: tun_kernel where
  "example_kernel = \<lparr>tk_name = (\<lambda>n. [116, 117, 110, 48] @ replicate 12 0), tk_flags = (\<lambda>n. 0x1000), tk_index = (\<lambda>n. 7)\<rparr>"

lemma linux_device_refines_witness:
  "\<exists>t' d' w' rs w0'.
    tunnel_init_linux example_kernel (\<lambda>_. None) (\<lambda>_. None) False hev_config_default (-1) tunnel_start \<lparr>td_tun_name = [], td_requests = []\<rparr>
      \<lparr>w_rx = [], w_txs = [], w_tx = [], w_errno = EAGAIN, w_script = [0, 0, 0, 0, 0, 0, 0], w_names = [], w_next_fd = 3,
       w_open = {}, w_live = 0, w_junk = []\<rparr> = Some (0, t', d', w') \<and>
    tunnel_init hev_config_default (-1) tunnel_start \<lparr>w_rx = [], w_txs = [], w_tx = [], w_errno = EAGAIN, w_script = rs,
       w_names = [], w_next_fd = 3, w_open = {}, w_live = 0, w_junk = []\<rparr> = (0, t', w0') \<and> w_open w' = w_open w0' \<and>
    td_requests d' = linux_requests example_kernel (\<lambda>_. None) (\<lambda>_. None) hev_config_default"
proof -
  let ?w = "\<lparr>w_rx = [], w_txs = [], w_tx = [], w_errno = EAGAIN, w_script = [0, 0, 0, 0, 0, 0, 0], w_names = [], w_next_fd = 3,
       w_open = {}, w_live = 0, w_junk = []\<rparr>"
  have "fds_ok ?w" by (simp add: fds_ok_def)
  from linux_device_refines [OF this, of example_kernel "\<lambda>_. None" "\<lambda>_. None" False hev_config_default "-1" tunnel_start
      "\<lparr>td_tun_name = [], td_requests = []\<rparr>"]
  obtain r t' d' w' rs w0' where x: "tunnel_init_linux example_kernel (\<lambda>_. None) (\<lambda>_. None) False hev_config_default (-1)
      tunnel_start \<lparr>td_tun_name = [], td_requests = []\<rparr> ?w = Some (r, t', d', w')"
    "tunnel_init hev_config_default (-1) tunnel_start (?w\<lparr>w_script := rs\<rparr>) = (r, t', w0')" "w_open w' = w_open w0'"
    "r = 0 \<longrightarrow> td_requests d' = linux_requests example_kernel (\<lambda>_. None) (\<lambda>_. None) hev_config_default" by auto
  have "hev_config_get_tunnel_ipv4_address hev_config_default = None"
    "hev_config_get_tunnel_ipv6_address hev_config_default = None"
    by (simp_all add: hev_config_get_tunnel_ipv4_address_def hev_config_get_tunnel_ipv6_address_def hev_config_default_def
        buf_string_def)
  then have "r = 0" using x(1)
    by (simp add: tunnel_init_linux_def hev_tunnel_open_def hev_tunnel_set_mtu_def hev_tunnel_set_state_def tun_request_def
        sys_socket_def sys_result_def Let_def)
  with x show ?thesis by auto
qed

end
