(* ===== verification/ServerAuth.thy ===== *)
theory ServerAuth
  imports Socks5Server
begin

text \<open>
  What the SOCKS5 server requires of a client before it serves it. With an authenticator set, the
  steps of the authentication are followed through the byte stream: each reads what it accepts
  from the front, and the user object is set only after the password was compared.
\<close>

text \<open>A message that offers the method, and one with credentials.\<close>

definition methods_msg :: "byte list \<Rightarrow> byte list" where
  "methods_msg ms = [5, word_of_nat (length ms)] @ ms"

definition creds_msg :: "byte list \<Rightarrow> byte list \<Rightarrow> byte list" where
  "creds_msg name pass =
     [1, word_of_nat (length name)] @ name @ [word_of_nat (length pass)] @ pass"

lemma write_frame:
  assumes "hev_task_io_socket_send bs True False w = (res, w')"
  shows "sock_frame w w'" "w_ok w' = w_ok w" "w_avail w' = w_avail w"
  using send_frame [OF assms] by (simp_all add: sock_frame_def w_ok_def w_avail_def)

lemma read_frame:
  assumes "hev_task_io_socket_recv n True False w = (res, bs, w')" "w_ok w"
  shows "sock_frame w w'" "w_ok w'" "length bs \<le> n"
proof -
  show "sock_frame w w'" using recv_frame [OF assms(1)] by (simp add: sock_frame_def)
  show "w_ok w'" by (rule recv_ok [OF assms])
  show "length bs \<le> n"
    using assms(1) recv_loop_length [of True False "w_rx w" n "[]" "w_errno w"]
    by (auto simp: hev_task_io_socket_recv_def split: prod.splits)
qed

lemma read_all:
  assumes "hev_task_io_socket_recv n True False w = (int n, bs, w')" "w_ok w" "0 < n"
  shows "w_avail w = bs @ w_avail w' \<and> length bs = n"
  using assms by (cases rule: recv_cases) auto

lemma server_read_auth_method:
  assumes "hev_socks5_server_read_auth_method self w = (m, w')" "w_ok w" "srv_obj self = AuthObj au"
  shows "sock_frame w w' \<and> w_ok w' \<and>
    (m = -1 \<or> m = 2 \<and> (\<exists>ms. 2 \<in> set ms \<and> length ms < 256 \<and> w_avail w = methods_msg ms @ w_avail w'))"
proof -
  obtain r1 hd w1 where 1: "hev_task_io_socket_recv 2 True False w = (r1, hd, w1)" by (rule prod_cases3)
  obtain r2 ms w2 where 2: "hev_task_io_socket_recv (unat (hd ! 1)) True False w1 = (r2, ms, w2)"
    by (rule prod_cases3)
  note f1 = read_frame [OF 1 assms(2)] and f2 = read_frame [OF 2 read_frame(2) [OF 1 assms(2)]]
  have fr: "sock_frame w w2" using f1(1) f2(1) by (rule sock_frame_trans)
  have avail: "w_avail w = methods_msg ms @ w_avail w2"
    if r: "r1 = 2" "hd ! 0 = 5" "r2 = int (unat (hd ! 1))" "2 \<in> set ms"
  proof -
    have n: "0 < unat (hd ! 1)" using r(4) f2(3) by (cases "hd ! 1 = 0") (auto simp: unat_gt_0)
    have "w_avail w = hd @ w_avail w1 \<and> length hd = 2" using read_all [of 2 w hd w1] 1 r(1) assms(2) by simp
    moreover have "w_avail w1 = ms @ w_avail w2 \<and> length ms = unat (hd ! 1)"
      using read_all [OF _ f1(2) n] 2 r(3) by simp
    moreover have "hd = [hd ! 0, hd ! 1]" if "length hd = 2"
      using that by (auto simp: numeral_2_eq_2 length_Suc_conv)
    ultimately show ?thesis using r(2) by (simp add: methods_msg_def)
  qed
  have "unat (hd ! 1) < 256" using unsigned_less [of "hd ! 1", where ?'a = nat] by simp
  then show ?thesis
    using assms(1,3) 1 2 f1 f2 fr avail
    by (auto simp: hev_socks5_server_read_auth_method_def HEV_SOCKS5_VERSION_5_def
        HEV_SOCKS5_AUTH_METHOD_USER_def Let_def split: if_splits)
qed

lemma user_check:
  "hev_socks5_user_check user ps (length ps) = Some (if user_pass user = ps then 0 else -1)"
  by (auto simp: hev_socks5_user_check_def hev_socks5_user_checker_def mem_read_def)

lemma server_read_auth_user:
  assumes "hev_socks5_server_read_auth_user get self w = Some (r, self', w')" "w_ok w"
    and "srv_obj self = AuthObj au"
  shows "sock_frame w w' \<and> w_ok w' \<and>
    (r = -1 \<and> self' = self \<or>
     r = 0 \<and> (\<exists>name user. get au name = Some user \<and> self' = self\<lparr>srv_obj := UserObj user\<rparr> \<and>
       name \<noteq> [] \<and> length name < 256 \<and> user_pass user \<noteq> [] \<and> length (user_pass user) < 256 \<and>
       w_avail w = creds_msg name (user_pass user) @ w_avail w'))"
proof -
  obtain r1 hd w1 where 1: "hev_task_io_socket_recv 2 True False w = (r1, hd, w1)" by (rule prod_cases3)
  let ?n = "unat (hd ! 1)"
  obtain r2 nm w2 where 2: "hev_task_io_socket_recv (?n + 1) True False w1 = (r2, nm, w2)"
    by (rule prod_cases3)
  let ?p = "unat (nm ! ?n)"
  obtain r3 ps w3 where 3: "hev_task_io_socket_recv ?p True False w2 = (r3, ps, w3)" by (rule prod_cases3)
  note f1 = read_frame [OF 1 assms(2)]
  note f2 = read_frame [OF 2 f1(2)]
  note f3 = read_frame [OF 3 f2(2)]
  have fr2: "sock_frame w w2" using f1(1) f2(1) by (rule sock_frame_trans)
  have fr3: "sock_frame w w3" using fr2 f3(1) by (rule sock_frame_trans)
  have b: "?n < 256" "?p < 256"
    using unsigned_less [of "hd ! 1", where ?'a = nat] unsigned_less [of "nm ! ?n", where ?'a = nat]
    by simp_all
  have avail: "w_avail w = creds_msg (take ?n nm) ps @ w_avail w3 \<and> length (take ?n nm) = ?n \<and>
      length nm = ?n + 1 \<and> length ps = ?p"
    if r: "r1 = 2" "hd ! 0 = 1" "r2 = int (?n + 1)" "0 < ?p" "r3 = int ?p"
  proof -
    have 11: "w_avail w = hd @ w_avail w1 \<and> length hd = 2" using read_all [of 2 w hd w1] 1 r(1) assms(2) by simp
    have 22: "w_avail w1 = nm @ w_avail w2 \<and> length nm = ?n + 1"
      using read_all [OF _ f1(2)] 2 r(3) by fastforce
    have 33: "w_avail w2 = ps @ w_avail w3 \<and> length ps = ?p"
      using read_all [OF _ f2(2) r(4)] 3 r(5) by simp
    have "hd = [1, hd ! 1]"
      using 11 r(2) by (auto simp: numeral_2_eq_2 length_Suc_conv)
    moreover have "nm = take ?n nm @ [nm ! ?n]"
      using 22 by (metis lessI add.commute plus_1_eq_Suc take_Suc_conv_app_nth take_all order_refl)
    moreover have "(word_of_nat ?n :: byte) = hd ! 1" "(word_of_nat ?p :: byte) = nm ! ?n" by simp_all
    ultimately have "w_avail w = creds_msg (take ?n nm) ps @ w_avail w3"
      using 11 22 33 unfolding creds_msg_def by (metis append_Cons append_Nil append_assoc length_take
          min_absorb2 le_add1)
    with 22 33 show ?thesis by simp
  qed
  show ?thesis
  proof (cases "r1 = 2 \<and> hd ! 0 = 1 \<and> 0 < ?n \<and> r2 = int (?n + 1) \<and> 0 < ?p \<and> r3 = int ?p")
    case False
    then show ?thesis
      using assms(1) 1 2 3 f1 f2 f3 fr2 fr3
      by (auto simp: hev_socks5_server_read_auth_user_def Let_def unat_gt_0 split: if_splits)
  next
    case True
    then have av: "w_avail w = creds_msg (take ?n nm) ps @ w_avail w3" "length (take ?n nm) = ?n"
      "length nm = ?n + 1" "length ps = ?p"
      using avail by simp_all
    have rd: "mem_read nm 0 ?n = Some (take ?n nm)" using av(3) by (simp add: mem_read_def)
    have "length (take ?n nm) \<noteq> 0" using True unfolding av(2) by simp
    then have ne: "take ?n nm \<noteq> []" by (metis list.size(3))
    have ne': "ps \<noteq> []" using True av(4) by auto
    have ch: "hev_socks5_user_check user ps ?p = Some (if user_pass user = ps then 0 else -1)" for user
      using user_check [of user ps] av(4) by simp
    have "Some (r, self', w') = (case get au (take ?n nm) of None \<Rightarrow> Some (-1, self, w3)
        | Some user \<Rightarrow> if user_pass user = ps then Some (0, self\<lparr>srv_obj := UserObj user\<rparr>, w3)
                        else Some (-1, self, w3))"
      unfolding assms(1) [symmetric] hev_socks5_server_read_auth_user_def 1 Let_def prod.case 2 3
      using True by (simp add: rd [unfolded One_nat_def] ch [unfolded One_nat_def] assms(3) split: option.split del: of_nat_add)
    then show ?thesis
      using f3(2) fr3 av(1) ne ne' b av(2,4)
      by (cases "get au (take ?n nm)")
        (auto simp: min_def intro!: exI [of _ "take (unat (hd ! Suc 0)) nm"] split: if_splits)
  qed
qed

text \<open>What a client has shown when the authentication succeeds.\<close>

definition authenticated ::
  "('au \<Rightarrow> byte list \<Rightarrow> HevSocks5User option) \<Rightarrow> 'au \<Rightarrow> byte list \<Rightarrow> byte list \<Rightarrow> HevSocks5User \<Rightarrow> bool" where
  "authenticated get au av rest user \<longleftrightarrow> (\<exists>ms name.
     av = methods_msg ms @ creds_msg name (user_pass user) @ rest \<and> get au name = Some user \<and>
     2 \<in> set ms \<and> length ms < 256 \<and> name \<noteq> [] \<and> length name < 256 \<and>
     user_pass user \<noteq> [] \<and> length (user_pass user) < 256)"

lemma if_negative: "(if P then -1 else 0) < (0 :: int) \<longleftrightarrow> P"
  by simp

lemma server_auth:
  assumes "hev_socks5_server_auth get self w = Some (r, self', w')" "w_ok w" "srv_obj self = AuthObj au"
  shows "sock_frame w w' \<and> w_ok w' \<and>
    (r = -1 \<or> r = 0 \<and> (\<exists>user. self' = self\<lparr>srv_obj := UserObj user\<rparr> \<and>
       authenticated get au (w_avail w) (w_avail w') user))"
proof -
  obtain m w1 where 1: "hev_socks5_server_read_auth_method self w = (m, w1)" by (rule prod.exhaust)
  obtain r2 w2 where 2: "hev_task_io_socket_send [HEV_SOCKS5_VERSION_5, word_of_int m] True False w1 = (r2, w2)"
    by (rule prod.exhaust)
  note f1 = server_read_auth_method [OF 1 assms(2,3)]
  note f2 = write_frame [OF 2]
  have ok2: "w_ok w2" "sock_frame w w2" using f1 f2 sock_frame_trans by blast+
  have E: "hev_socks5_server_auth get self w =
    (if r2 \<le> 0 then Some (-1, self, w2) else if m = 0 then Some (0, self, w2)
     else if m = 2 then do {
       (r3, self, w3) \<leftarrow> hev_socks5_server_read_auth_user get self w2;
       let (r4, w4) = hev_task_io_socket_send [1, word_of_int r3] True False w3;
       Some (if r3 < 0 \<or> r4 \<le> 0 then -1 else 0, self, w4)
     } else Some (-1, self, w2))"
    unfolding hev_socks5_server_auth_def hev_socks5_server_write_auth_method_def 1 Let_def prod.case 2
      hev_socks5_server_write_auth_user_def HEV_SOCKS5_AUTH_METHOD_NONE_def HEV_SOCKS5_AUTH_METHOD_USER_def
    by (simp add: case_prod_beta Let_def if_negative)
  show ?thesis
  proof (cases "m = 2 \<and> 0 < r2")
    case False
    with f1 have "m = -1 \<or> \<not> 0 < r2" by blast
    then have "r = -1 \<and> w' = w2"
      using assms(1) unfolding E by (auto split: if_splits)
    with ok2 show ?thesis by simp
  next
    case True
    with assms(1) obtain r3 self3 w3 where
      3: "hev_socks5_server_read_auth_user get self w2 = Some (r3, self3, w3)"
      unfolding E by (auto split: bind_splits)
    obtain r4 w4 where 4: "hev_task_io_socket_send [1, word_of_int r3] True False w3 = (r4, w4)"
      by (rule prod.exhaust)
    note f3 = server_read_auth_user [OF 3 ok2(1) assms(3)]
    note f4 = write_frame [OF 4]
    have e: "w' = w4" "self' = self3" "r = (if r3 < 0 \<or> r4 \<le> 0 then -1 else 0)"
      using assms(1) 3 4 True unfolding E by simp_all
    have fr: "sock_frame w w4" "w_ok w4" using ok2 f3 f4 sock_frame_trans by blast+
    show ?thesis
    proof (cases "r = -1")
      case False
      with e f3 obtain name user where u: "get au name = Some user" "self3 = self\<lparr>srv_obj := UserObj user\<rparr>"
        "name \<noteq> []" "length name < 256" "user_pass user \<noteq> []" "length (user_pass user) < 256"
        "w_avail w2 = creds_msg name (user_pass user) @ w_avail w3" and "r = 0"
        by (auto split: if_splits)
      moreover from f1 True obtain ms where "2 \<in> set ms" "length ms < 256" "w_avail w = methods_msg ms @ w_avail w1"
        by auto
      ultimately have "authenticated get au (w_avail w) (w_avail w4) user"
        unfolding authenticated_def using f2 f4 by (intro exI [of _ ms] exI [of _ name]) simp
      with fr e u \<open>r = 0\<close> show ?thesis by blast
    qed (use fr e in simp)
  qed
qed

text \<open>Conversely, a client that sends such messages is accepted, and nothing after them is read.\<close>

lemma recv_prefix:
  assumes "w_ok w" "w_avail w = bs @ rest" "tx_reliable w" "length bs = n" "0 < n"
  obtains w' where "hev_task_io_socket_recv n True False w = (int n, bs, w')"
    "w_avail w' = rest" "w_ok w'" "w_tx w' = w_tx w" "tx_reliable w'"
proof (rule recv_step [OF assms(1,5)])
  fix w'
  assume a: "hev_task_io_socket_recv n True False w = (int n, take n (w_avail w), w')"
    "w_avail w' = drop n (w_avail w)" "w_ok w'" "w_tx w' = w_tx w" "w_txs w' = w_txs w"
  have "tx_reliable w'" using tx_reliable_cong [OF a(5)] assms(3) by simp
  with a assms(2,4) that show thesis by simp
next
  assume "length (w_avail w) < n"
  then show thesis using assms(2,4) by simp
qed

lemma send_all:
  assumes "tx_reliable w" "w_ok w" "length bs = n" "0 < n"
  obtains w' where "hev_task_io_socket_send bs True False w = (int n, w')"
    "w_tx w' = w_tx w @ bs" "w_avail w' = w_avail w" "w_ok w'" "tx_reliable w'"
proof (rule send_step [OF assms(1), of bs])
  fix w'
  assume s: "hev_task_io_socket_send bs True False w = (int (length bs), w')"
    and "w_tx w' = w_tx w @ bs" "tx_reliable w'"
  with write_frame [OF s] assms(2,3) that show thesis by simp
qed (use assms(3,4) in auto)

lemma server_auth_accepts:
  assumes "w_avail w = methods_msg ms @ creds_msg name (user_pass user) @ rest"
    and "2 \<in> set ms" "length ms < 256" "name \<noteq> []" "length name < 256"
    and "user_pass user \<noteq> []" "length (user_pass user) < 256"
    and get: "get au name = Some user" and obj: "srv_obj self = AuthObj au"
    and w: "w_ok w" "tx_reliable w"
  obtains w' where "hev_socks5_server_auth get self w = Some (0, self\<lparr>srv_obj := UserObj user\<rparr>, w')"
    "w_avail w' = rest" "w_tx w' = w_tx w @ [5, 2, 1, 0]"
proof -
  have u: "unat (word_of_nat (length xs) :: byte) = length xs" if "length xs < 256" for xs :: "byte list"
    using that by (simp add: unat_of_nat take_bit_eq_mod)
  let ?p = "user_pass user"
  obtain w1 where 1: "hev_task_io_socket_recv 2 True False w = (int 2, [5, word_of_nat (length ms)], w1)"
    "w_avail w1 = ms @ creds_msg name ?p @ rest" "w_ok w1" "w_tx w1 = w_tx w" "tx_reliable w1"
    by (rule recv_prefix [OF w(1) _ w(2), where n = 2 and bs = "[5, word_of_nat (length ms)]"])
      (use assms(1) in \<open>simp_all add: methods_msg_def\<close>)
  obtain w2 where 2: "hev_task_io_socket_recv (length ms) True False w1 = (int (length ms), ms, w2)"
    "w_avail w2 = creds_msg name ?p @ rest" "w_ok w2" "w_tx w2 = w_tx w" "tx_reliable w2"
    by (rule recv_prefix [OF 1(3,2,5) refl]) (use assms(2) 1(4) in auto)
  obtain w3 where 3: "hev_task_io_socket_send [5, 2] True False w2 = (int 2, w3)"
    "w_tx w3 = w_tx w @ [5, 2]" "w_avail w3 = creds_msg name ?p @ rest" "w_ok w3" "tx_reliable w3"
    by (rule send_all [OF 2(5,3), where bs = "[5, 2]" and n = 2]) (use 2 in simp_all)
  let ?h = "[1, word_of_nat (length name)] :: byte list" and ?n = "name @ [word_of_nat (length ?p)]"
  obtain w4 where 4: "hev_task_io_socket_recv 2 True False w3 = (int 2, ?h, w4)"
    "w_avail w4 = ?n @ ?p @ rest" "w_ok w4" "w_tx w4 = w_tx w3" "tx_reliable w4"
    by (rule recv_prefix [OF 3(4) _ 3(5), where n = 2 and bs = ?h])
      (use 3(3) in \<open>simp_all add: creds_msg_def\<close>)
  obtain w5 where 5: "hev_task_io_socket_recv (length name + 1) True False w4 = (int (length name + 1), ?n, w5)"
    "w_avail w5 = ?p @ rest" "w_ok w5" "w_tx w5 = w_tx w3" "tx_reliable w5"
    by (rule recv_prefix [OF 4(3,2,5), where n = "length name + 1"]) (use 4(4) in simp_all)
  obtain w6 where 6: "hev_task_io_socket_recv (length ?p) True False w5 = (int (length ?p), ?p, w6)"
    "w_avail w6 = rest" "w_ok w6" "w_tx w6 = w_tx w3" "tx_reliable w6"
    by (rule recv_prefix [OF 5(3,2,5) refl]) (use assms(6) 5(4) in simp_all)
  obtain w7 where 7: "hev_task_io_socket_send [1, 0] True False w6 = (int 2, w7)"
    "w_tx w7 = w_tx w @ [5, 2, 1, 0]" "w_avail w7 = rest"
    by (rule send_all [OF 6(5,3), where bs = "[1, 0]" and n = 2]) (use 3(2) 6 in simp_all)
  have "hev_socks5_server_read_auth_method self w = (2, w2)"
    using 1(1) 2(1) assms(2,3) obj u
    by (simp add: hev_socks5_server_read_auth_method_def HEV_SOCKS5_VERSION_5_def HEV_SOCKS5_AUTH_METHOD_USER_def Let_def)
  moreover have "hev_socks5_server_read_auth_user get self w3 = Some (0, self\<lparr>srv_obj := UserObj user\<rparr>, w6)"
    using 4(1) 5(1) 6(1) u assms(4-7) get obj user_check [of user ?p]
    by (simp add: hev_socks5_server_read_auth_user_def Let_def nth_append mem_read_def)
  ultimately have "hev_socks5_server_auth get self w = Some (0, self\<lparr>srv_obj := UserObj user\<rparr>, w7)"
    using 3(1) 7(1)
    by (simp add: hev_socks5_server_auth_def hev_socks5_server_write_auth_method_def Let_def
        hev_socks5_server_write_auth_user_def HEV_SOCKS5_VERSION_5_def
        HEV_SOCKS5_AUTH_METHOD_USER_def HEV_SOCKS5_AUTH_METHOD_NONE_def)
  with 7 that show thesis by blast
qed

section \<open>The handshake\<close>

lemma srv_obj_settings [simp]:
  "srv_obj (hev_socks5_set_timeout self t) = srv_obj self"
  "srv_obj (hev_socks5_set_addr_family self f) = srv_obj self"
  by (simp_all add: hev_socks5_set_timeout_def hev_socks5_set_addr_family_def)

lemma read_request_obj:
  "hev_socks5_server_read_request rs self cmd rep addr w = Some (r, cmd', rep', addr', self', w') \<Longrightarrow>
   srv_obj self' = srv_obj self"
  by (auto simp: hev_socks5_server_read_request_def Let_def
      split: bind_splits prod.splits option.splits if_splits)

lemma connect_obj:
  "hev_socks5_server_connect cfg binder self addr w = (r, self', w') \<Longrightarrow> srv_obj self' = srv_obj self"
  by (auto simp: hev_socks5_server_connect_def Let_def split: prod.splits if_splits)

lemma bind_obj:
  "hev_socks5_server_bind self addr w = (r, addr', self', w') \<Longrightarrow> srv_obj self' = srv_obj self"
  by (auto simp: hev_socks5_server_bind_def Let_def split: prod.splits option.splits if_splits)

lemma handshake_credentials:
  assumes "hev_socks5_server_handshake cfg rs get binder self w = Some (r, self', w')"
    and "w_ok w" "srv_obj self = AuthObj au"
  shows "r = -1 \<and> sock_frame w w' \<or>
    (\<exists>user rest. authenticated get au (w_avail w) rest user \<and> srv_obj self' = UserObj user)"
proof -
  let ?self = "hev_socks5_set_timeout self (hev_socks5_get_tcp_timeout cfg)"
  obtain r1 self1 w1 where 1: "hev_socks5_server_auth get ?self w = Some (r1, self1, w1)"
    using assms(1) by (auto simp: hev_socks5_server_handshake_def Let_def split: bind_splits)
  have a: "sock_frame w w1" "r1 = -1 \<or> r1 = 0 \<and> (\<exists>user. self1 = ?self\<lparr>srv_obj := UserObj user\<rparr> \<and>
      authenticated get au (w_avail w) (w_avail w1) user)"
    using server_auth [OF 1 assms(2)] assms(3) by simp_all
  show ?thesis
  proof (cases "r1 = -1")
    case True
    then show ?thesis using assms(1) 1 a(1) by (simp add: hev_socks5_server_handshake_def Let_def)
  next
    case False
    have "srv_obj self' = srv_obj self1"
      using assms(1) 1 a(2) False
      by (auto simp: hev_socks5_server_handshake_def Let_def split: bind_splits if_splits prod.splits
          dest!: read_request_obj connect_obj bind_obj)
    with a(2) False show ?thesis by auto
  qed
qed

text \<open>
  C7: Safety of the server's authentication: with an authenticator set, whatever bytes the client
  sends and however the socket behaves, a handshake either fails without a system call other
  than its reads and writes, so that no descriptor was opened and no address looked up, or the
  client has offered the method of user names and then sent a name that the authenticator
  knows together with exactly that user's password, and the server acts for that user.
\<close>

theorem server_requires_credentials:
  assumes "hev_socks5_server_handshake cfg rs get binder self w = Some (r, self', w')"
    and "w_ok w" "srv_obj self = AuthObj au"
  shows "r = -1 \<and> sock_frame w w' \<or>
    (\<exists>user rest. authenticated get au (w_avail w) rest user \<and> srv_obj self' = UserObj user)"
  using assms by (rule handshake_credentials)

text \<open>A client that offers the method, sends the name \<open>u\<close> with its password \<open>p\<close>, and closes.\<close>

definition example_user :: HevSocks5User where
  "example_user = \<lparr>user_name = [117], user_pass = [112]\<rparr>"

definition example_users :: "unit \<Rightarrow> byte list \<Rightarrow> HevSocks5User option" where
  "example_users _ name = (if name = [117] then Some example_user else None)"

definition example_client :: world where
  "example_client = \<lparr>w_rx = [RxData [5, 1, 2], RxData [1, 1, 117, 1, 112], RxEnd 0], w_txs = [], w_tx = [],
     w_errno = EAGAIN, w_script = [], w_names = [], w_next_fd = 3, w_open = {}, w_live = 0,
     w_junk = replicate 259 0\<rparr>"

definition example_names :: resolver where
  "example_names = \<lparr>inet_pton4 = (\<lambda>_. None), inet_pton6 = (\<lambda>_. None), getaddrinfo = (\<lambda>_ _. None)\<rparr>"

lemma example_handshake:
  assumes "get au [117] = Some example_user"
  shows "\<exists>self' w'. hev_socks5_server_handshake socks5_settings_init rs get binder
      (hev_socks5_server_set_auth HevSocks5Server_zero au) example_client = Some (-1, self', w') \<and>
     srv_obj self' = UserObj example_user \<and> w_tx w' = [5, 2, 1, 0]"
  using assms
  by (simp add: hev_socks5_server_handshake_def hev_socks5_server_auth_def Let_def
      hev_socks5_server_read_auth_method_def hev_socks5_server_write_auth_method_def
      hev_socks5_server_read_auth_user_def hev_socks5_server_write_auth_user_def
      hev_socks5_server_read_request_def hev_task_io_socket_recv_def hev_task_io_socket_send_def
      example_client_def example_user_def hev_socks5_set_timeout_def
      hev_socks5_server_set_auth_def HevSocks5Server_zero_def HEV_SOCKS5_VERSION_5_def
      HEV_SOCKS5_AUTH_METHOD_USER_def HEV_SOCKS5_AUTH_METHOD_NONE_def
      hev_socks5_user_check_def hev_socks5_user_checker_def mem_read_def)

lemma server_requires_credentials_witness:
  "\<exists>self' w' user rest. hev_socks5_server_handshake socks5_settings_init example_names example_users
      (\<lambda>_ _ _ w. (0, w)) (hev_socks5_server_set_auth HevSocks5Server_zero ()) example_client =
      Some (-1, self', w') \<and>
     (sock_frame example_client w' \<or>
      authenticated example_users () (w_avail example_client) rest user \<and> srv_obj self' = UserObj user)"
proof -
  have ok: "w_ok example_client" by (simp add: example_client_def w_ok_def)
  have obj: "srv_obj (hev_socks5_server_set_auth HevSocks5Server_zero ()) = AuthObj ()"
    by (simp add: hev_socks5_server_set_auth_def)
  obtain self' w' where h: "hev_socks5_server_handshake socks5_settings_init example_names example_users
      (\<lambda>_ _ _ w. (0, w)) (hev_socks5_server_set_auth HevSocks5Server_zero ()) example_client =
      Some (-1, self', w')"
    using example_handshake [of example_users "()"] example_users_def by force
  from server_requires_credentials [OF h ok obj] h show ?thesis by blast
qed

end
