(* ===== verification/Authenticator.thy ===== *)
theory Authenticator
  imports RBTree ServerAuth
begin

text \<open>
  The authenticator of \<open>core/src/hev-socks5-authenticator.c\<close>: a set of users in the red-black
  tree, ordered by the length of their names and then by their bytes. A user's tree node and its
  data are kept in two heaps under the user's address, so \<open>container_of\<close> is the identity. The
  reference counts of the users are those of the task system's objects: a user whose count drops
  to zero is destroyed.
\<close>

record HevSocks5Authenticator =
  au_tree :: rb_store
  au_users :: "ptr \<rightharpoonup> HevSocks5User"
  au_refs :: "ptr \<Rightarrow> nat"

section \<open>Comparing names\<close>

text \<open>The sign of \<open>memcmp\<close> on as many bytes as both lists have.\<close>

fun c_memcmp :: "byte list \<Rightarrow> byte list \<Rightarrow> int" where
  "c_memcmp (x # xs) (y # ys) = (if x = y then c_memcmp xs ys else if x < y then -1 else 1)"
| "c_memcmp _ _ = 0"

definition user_cmp :: "(ptr \<rightharpoonup> HevSocks5User) \<Rightarrow> byte list \<Rightarrow> ptr \<Rightarrow> int option" where
  "user_cmp users name a = do {
     this \<leftarrow> deref users a;
     Some (if length (user_name this) < length name then -1
           else if length (user_name this) > length name then 1
           else c_memcmp (user_name this) name)
   }"

section \<open>Operations\<close>

definition hev_socks5_authenticator_construct :: "HevSocks5Authenticator \<Rightarrow> HevSocks5Authenticator" where
  "hev_socks5_authenticator_construct self = self"

definition hev_socks5_authenticator_new :: "world \<Rightarrow> HevSocks5Authenticator option \<times> world" where
  "hev_socks5_authenticator_new w =
     (let (got, w) = sys_malloc w
      in if \<not> got then (None, w)
         else (Some (hev_socks5_authenticator_construct
                 \<lparr>au_tree = \<lparr>rb_root = 0, rb_heap = Map.empty\<rparr>, au_users = Map.empty, au_refs = (\<lambda>_. 0)\<rparr>), w))"

text \<open>Dropping a reference to a user, and the user with the last one.\<close>

definition user_unref :: "ptr \<Rightarrow> HevSocks5Authenticator \<Rightarrow> HevSocks5Authenticator" where
  "user_unref a self =
     (if au_refs self a \<le> 1
      then self\<lparr>au_refs := (au_refs self)(a := 0), au_users := (au_users self)(a := None),
                au_tree := (au_tree self)\<lparr>rb_heap := (rb_heap (au_tree self))(a := None)\<rparr>\<rparr>
      else self\<lparr>au_refs := (au_refs self)(a := au_refs self a - 1)\<rparr>)"

text \<open>The authenticator takes over the caller's reference to the user.\<close>

definition hev_socks5_authenticator_add ::
  "HevSocks5Authenticator \<Rightarrow> ptr \<Rightarrow> (int \<times> HevSocks5Authenticator) option" where
  "hev_socks5_authenticator_add self user = do {
     u \<leftarrow> deref (au_users self) user;
     r \<leftarrow> rb_search (au_tree self) (user_cmp (au_users self) (user_name u)) (rb_root (au_tree self)) 0 Lft;
     case r of
       Inl _ \<Rightarrow> Some (-1, self)
     | Inr (parent, d) \<Rightarrow> do {
         t \<leftarrow> hev_rbtree_node_link (au_tree self) user parent d;
         t \<leftarrow> hev_rbtree_insert_color t user;
         Some (0, self\<lparr>au_tree := t\<rparr>)
       }
   }"

definition hev_socks5_authenticator_del ::
  "HevSocks5Authenticator \<Rightarrow> byte list \<Rightarrow> (int \<times> HevSocks5Authenticator) option" where
  "hev_socks5_authenticator_del self name = do {
     r \<leftarrow> rb_search (au_tree self) (user_cmp (au_users self) name) (rb_root (au_tree self)) 0 Lft;
     case r of
       Inl node \<Rightarrow> do {
         t \<leftarrow> hev_rbtree_erase (au_tree self) node;
         Some (0, user_unref node (self\<lparr>au_tree := t\<rparr>))
       }
     | Inr _ \<Rightarrow> Some (-1, self)
   }"

text \<open>The address of the user, 0 when there is none.\<close>

definition hev_socks5_authenticator_get ::
  "HevSocks5Authenticator \<Rightarrow> byte list \<Rightarrow> ptr option" where
  "hev_socks5_authenticator_get self name = do {
     r \<leftarrow> rb_search (au_tree self) (user_cmp (au_users self) name) (rb_root (au_tree self)) 0 Lft;
     case r of Inl node \<Rightarrow> Some node | Inr _ \<Rightarrow> Some 0
   }"

text \<open>\<open>while ((n = first (tree)))\<close>; it ends when the tree is empty.\<close>

partial_function (option) hev_socks5_authenticator_clear ::
  "HevSocks5Authenticator \<Rightarrow> HevSocks5Authenticator option" where
  [code]: "hev_socks5_authenticator_clear self = do {
     n \<leftarrow> hev_rbtree_first (au_tree self);
     if n = 0 then Some self
     else do {
       t \<leftarrow> hev_rbtree_erase (au_tree self) n;
       hev_socks5_authenticator_clear (user_unref n (self\<lparr>au_tree := t\<rparr>))
     }
   }"

definition hev_socks5_authenticator_destruct ::
  "HevSocks5Authenticator \<Rightarrow> world \<Rightarrow> (HevSocks5Authenticator \<times> world) option" where
  "hev_socks5_authenticator_destruct self w = do {
     self \<leftarrow> hev_socks5_authenticator_clear self;
     Some (self, sys_free w)
   }"

text \<open>The lookup as the server uses it: the user at the address.\<close>

definition authenticator_get :: "HevSocks5Authenticator \<Rightarrow> byte list \<Rightarrow> HevSocks5User option" where
  "authenticator_get self name = do {
     a \<leftarrow> hev_socks5_authenticator_get self name;
     deref (au_users self) a
   }"

section \<open>What a lookup returns\<close>

lemma rb_search_found:
  assumes "rb_search s cmp cur parent d = Some (Inl a)"
  shows "cmp a = Some 0"
proof -
  have "r = Inl a \<longrightarrow> cmp a = Some 0" if "rb_search s cmp cur parent d = Some r" for r
  proof (rule rb_search.raw_induct [where P = "\<lambda>s cmp cur parent d r. r = Inl a \<longrightarrow> cmp a = Some 0", OF _ that])
    fix f s and cmp :: "ptr \<Rightarrow> int option" and cur parent d r
    assume IH: "\<And>s cmp cur parent d r. f s cmp cur parent d = Some r \<Longrightarrow> r = Inl a \<longrightarrow> cmp a = Some 0"
      and b: "(if cur = 0 then Some (Inr (parent, d))
        else do {
          res \<leftarrow> cmp cur;
          n \<leftarrow> node_at s cur;
          if res < 0 then f s cmp (rb_left n) cur Lft
          else if res > 0 then f s cmp (rb_right n) cur Rgt
          else Some (Inl cur)
        }) = Some r"
    show "r = Inl a \<longrightarrow> cmp a = Some 0"
      using b by (auto split: if_splits bind_splits dest: IH)
  qed
  with assms show ?thesis by blast
qed

lemma c_memcmp_eq: "length xs = length ys \<Longrightarrow> c_memcmp xs ys = 0 \<longleftrightarrow> xs = ys"
  by (induction xs ys rule: c_memcmp.induct) auto

lemma authenticator_get_sound:
  assumes "authenticator_get self name = Some user"
  shows "user_name user = name" "user \<in> ran (au_users self)"
proof -
  obtain a where a: "hev_socks5_authenticator_get self name = Some a" "deref (au_users self) a = Some user"
    using assms by (auto simp: authenticator_get_def split: bind_splits)
  then have "a \<noteq> 0" by (auto simp: deref_def)
  with a(1) have "rb_search (au_tree self) (user_cmp (au_users self) name) (rb_root (au_tree self)) 0 Lft = Some (Inl a)"
    by (auto simp: hev_socks5_authenticator_get_def split: bind_splits sum.splits)
  then have "user_cmp (au_users self) name a = Some 0" by (rule rb_search_found)
  with a(2) show "user_name user = name"
    by (auto simp: user_cmp_def c_memcmp_eq split: if_splits)
  show "user \<in> ran (au_users self)" using a(2) by (auto simp: deref_def ran_def split: if_splits)
qed

section \<open>The server with this authenticator\<close>


definition example_table :: HevSocks5Authenticator where
  "example_table = \<lparr>au_tree = \<lparr>rb_root = 8, rb_heap = [8 \<mapsto> \<lparr>parent_color = 1, rb_right = 0, rb_left = 0\<rparr>]\<rparr>,
     au_users = [8 \<mapsto> example_user], au_refs = (\<lambda>_. 1)\<rparr>"

lemma example_table_get: "authenticator_get example_table [117] = Some example_user"
  by (simp add: authenticator_get_def hev_socks5_authenticator_get_def example_table_def
      rb_search.simps user_cmp_def deref_def node_at_def example_user_def)


end
