(* ===== verification/AuthTable.thy ===== *)
theory AuthTable
  imports Authenticator RBTreeIndex
begin

text \<open>
  The authenticator refines a finite map from names to users: each of its operations does to the
  tree what the one of the map does to the map. Removing all users ends, drops one reference of
  each, and destroys those that had no other.
\<close>

section \<open>The order of names\<close>

definition name_cmp :: "byte list \<Rightarrow> byte list \<Rightarrow> int" where
  "name_cmp x y = (if length x < length y then -1 else if length y < length x then 1 else c_memcmp x y)"

lemma c_memcmp_anti: "c_memcmp y x = - c_memcmp x y"
  by (induction x y rule: c_memcmp.induct) auto

lemma c_memcmp_trans:
  assumes "length x = length y" "length y = length z" "0 < c_memcmp x y" "0 < c_memcmp y z"
  shows "0 < c_memcmp x z"
  using assms by (induction x y z rule: list_induct3) (auto split: if_splits)

definition unames :: "HevSocks5Authenticator \<Rightarrow> ptr \<Rightarrow> byte list option" where
  "unames self a = map_option user_name (deref (au_users self) a)"

lemma user_cmp_eq: "user_cmp (au_users self) name = key_cmp name_cmp (unames self) name"
  by (auto simp: user_cmp_def key_cmp_def unames_def name_cmp_def fun_eq_iff split: bind_splits)

interpretation users: keyed_index rb_seq node_at rb_find rb_put hev_rbtree_erase hev_rbtree_first name_cmp
proof unfold_locales
  fix x y z :: "byte list"
  show "name_cmp x y = 0 \<longleftrightarrow> x = y" by (auto simp: name_cmp_def c_memcmp_eq)
  show "sgn (name_cmp y x) = - sgn (name_cmp x y)"
    using c_memcmp_anti [of x y] by (simp add: name_cmp_def sgn_minus)
  show "0 < name_cmp x y \<Longrightarrow> 0 < name_cmp y z \<Longrightarrow> 0 < name_cmp x z"
    using c_memcmp_trans [of x y z] by (auto simp: name_cmp_def split: if_splits)
qed

section \<open>The map of users\<close>

text \<open>The authenticator represents a map from names to the addresses of users.\<close>

definition auth_rep :: "HevSocks5Authenticator \<Rightarrow> (byte list \<Rightarrow> ptr option) \<Rightarrow> bool" where
  "auth_rep self m \<longleftrightarrow> (\<exists>xs. rb_seq (au_tree self) xs \<and> keyed name_cmp (unames self) xs \<and>
     keymap (unames self) xs = m)"

lemma auth_get_refines:
  assumes "auth_rep self m"
  shows "hev_socks5_authenticator_get self name = Some (case m name of None \<Rightarrow> 0 | Some a \<Rightarrow> a)"
proof -
  obtain xs where xs: "rb_seq (au_tree self) xs" "keyed name_cmp (unames self) xs" "keymap (unames self) xs = m"
    using assms by (auto simp: auth_rep_def)
  show ?thesis
    using users.find_present [OF xs(1,2)] users.find_absent [OF xs(1,2), of name] xs(3)
    by (cases "m name") (fastforce simp: hev_socks5_authenticator_get_def user_cmp_eq rb_find_def)+
qed

lemma auth_add_refines:
  assumes rep: "auth_rep self m" and u: "deref (au_users self) a = Some u"
    and a: "node_at (au_tree self) a \<noteq> None" "aligned a" "a \<notin> ran m"
  shows "if m (user_name u) = None
    then \<exists>t. hev_socks5_authenticator_add self a = Some (0, self\<lparr>au_tree := t\<rparr>) \<and>
      auth_rep (self\<lparr>au_tree := t\<rparr>) (m(user_name u \<mapsto> a))
    else hev_socks5_authenticator_add self a = Some (-1, self)"
proof -
  obtain xs where xs: "rb_seq (au_tree self) xs" "keyed name_cmp (unames self) xs" "keymap (unames self) xs = m"
    using rep by (auto simp: auth_rep_def)
  have n: "unames self a = Some (user_name u)" using u by (simp add: unames_def)
  have st: "hev_socks5_authenticator_add self a =
      (do { r \<leftarrow> rb_find (au_tree self) (key_cmp name_cmp (unames self) (user_name u));
         case r of Inl _ \<Rightarrow> Some (-1, self)
         | Inr pd \<Rightarrow> do { t \<leftarrow> rb_put (au_tree self) a pd; Some (0, self\<lparr>au_tree := t\<rparr>) } })"
    using u by (auto simp: hev_socks5_authenticator_add_def user_cmp_eq rb_find_def rb_put_def
      intro!: Option.bind_cong split: sum.split)
  show ?thesis
  proof (cases "m (user_name u)")
    case (Some b)
    then show ?thesis using st users.find_present [OF xs(1,2)] xs(3) by simp
  next
    case None
    have "a \<notin> set xs"
      using a(3) users.keymap_eq_Some [OF xs(2), of "user_name u" a] n by (auto simp: xs(3) ran_def)
    then have p: "ptrs_ok (a # xs)" using a rb_seq_ptrs [OF xs(1)] by (auto simp: ptrs_ok_def)
    have upd: "(unames self)(a \<mapsto> user_name u) = unames self" using n by (simp add: fun_eq_iff)
    obtain pd where pd: "rb_find (au_tree self) (key_cmp name_cmp (unames self) (user_name u)) = Some (Inr pd)"
      and put: "\<forall>a. node_at (au_tree self) a \<noteq> None \<and> ptrs_ok (a # xs) \<longrightarrow> (\<exists>t xs'.
        rb_put (au_tree self) a pd = Some t \<and> rb_seq t xs' \<and> set xs' = insert a (set xs) \<and>
        keyed name_cmp ((unames self)(a \<mapsto> user_name u)) xs' \<and>
        keymap ((unames self)(a \<mapsto> user_name u)) xs' = m(user_name u \<mapsto> a) \<and>
        (\<forall>b. b \<notin> set (a # xs) \<longrightarrow> node_at t b = node_at (au_tree self) b))"
      using users.find_absent [OF xs(1,2), of "user_name u"] None unfolding xs(3) by blast
    from put [rule_format, of a] a(1) p obtain t xs' where t: "rb_put (au_tree self) a pd = Some t" "rb_seq t xs'"
      "keyed name_cmp (unames self) xs'" "keymap (unames self) xs' = m(user_name u \<mapsto> a)"
      unfolding upd by blast
    have "unames (self\<lparr>au_tree := t\<rparr>) = unames self" by (simp add: unames_def fun_eq_iff)
    then have "auth_rep (self\<lparr>au_tree := t\<rparr>) (m(user_name u \<mapsto> a))" using t(2-4) by (auto simp: auth_rep_def)
    then show ?thesis using st pd t(1) None by auto
  qed
qed

text \<open>Dropping the reference of a user that left the tree.\<close>

lemma unref_rep:
  assumes "rb_seq (au_tree self) xs" "keyed name_cmp (unames self) xs" "a \<notin> set xs"
  shows "rb_seq (au_tree (user_unref a self)) xs \<and> keyed name_cmp (unames (user_unref a self)) xs \<and>
    keymap (unames (user_unref a self)) xs = keymap (unames self) xs"
proof -
  have "unames (user_unref a self) b = unames self b" "node_at (au_tree (user_unref a self)) b = node_at (au_tree self) b"
    if "b \<in> set xs" for b
    using that assms(3) by (auto simp: unames_def user_unref_def deref_def node_at_def)
  moreover have "rb_root (au_tree (user_unref a self)) = rb_root (au_tree self)" by (simp add: user_unref_def)
  ultimately show ?thesis
    using rb_seq_cong [OF assms(1)] keyed_cong [of xs "unames (user_unref a self)" "unames self"] assms(2)
      keymap_cong [of xs "unames (user_unref a self)" "unames self"] by simp
qed

lemma auth_erase_user:
  assumes "rb_seq (au_tree self) xs" "keyed name_cmp (unames self) xs" "a \<in> set xs" "unames self a = Some n"
  shows "\<exists>t. hev_rbtree_erase (au_tree self) a = Some t \<and>
    rb_seq (au_tree (user_unref a (self\<lparr>au_tree := t\<rparr>))) (remove1 a xs) \<and>
    keyed name_cmp (unames (user_unref a (self\<lparr>au_tree := t\<rparr>))) (remove1 a xs) \<and>
    keymap (unames (user_unref a (self\<lparr>au_tree := t\<rparr>))) (remove1 a xs) = (keymap (unames self) xs)(n := None)"
proof -
  obtain t where t: "hev_rbtree_erase (au_tree self) a = Some t" "rb_seq t (remove1 a xs)"
    "keyed name_cmp (unames self) (remove1 a xs)"
    "keymap (unames self) (remove1 a xs) = (keymap (unames self) xs)(n := None)"
    using users.erase_present [OF assms] by blast
  have u: "unames (self\<lparr>au_tree := t\<rparr>) = unames self" by (simp add: unames_def fun_eq_iff)
  have "a \<notin> set (remove1 a xs)" using rb_seq_ptrs [OF assms(1)] by (simp add: ptrs_ok_def)
  then show ?thesis using unref_rep [of "self\<lparr>au_tree := t\<rparr>" "remove1 a xs" a] t by (simp add: u)
qed

lemma auth_del_refines:
  assumes "auth_rep self m"
  shows "case m name of
      None \<Rightarrow> hev_socks5_authenticator_del self name = Some (-1, self)
    | Some a \<Rightarrow> \<exists>t. hev_socks5_authenticator_del self name = Some (0, user_unref a (self\<lparr>au_tree := t\<rparr>)) \<and>
        auth_rep (user_unref a (self\<lparr>au_tree := t\<rparr>)) (m(name := None))"
proof -
  obtain xs where xs: "rb_seq (au_tree self) xs" "keyed name_cmp (unames self) xs" "keymap (unames self) xs = m"
    using assms by (auto simp: auth_rep_def)
  show ?thesis
  proof (cases "m name")
    case None
    then show ?thesis using users.find_absent [OF xs(1,2), of name] xs(3)
      by (auto simp: hev_socks5_authenticator_del_def user_cmp_eq rb_find_def)
  next
    case (Some a)
    then have "a \<in> set xs" "unames self a = Some name"
      using users.keymap_eq_Some [OF xs(2), of name a] by (simp_all add: xs(3))
    from auth_erase_user [OF xs(1,2) this] Some show ?thesis
      using users.find_present [OF xs(1,2), of name a] xs(3)
      by (auto simp: hev_socks5_authenticator_del_def user_cmp_eq rb_find_def auth_rep_def)
  qed
qed

section \<open>Removing all users\<close>

text \<open>What is left of the users: references dropped for those of the table, and the ones without
  another reference destroyed.\<close>

definition after_clear :: "ptr set \<Rightarrow> HevSocks5Authenticator \<Rightarrow> HevSocks5Authenticator \<Rightarrow> bool" where
  "after_clear A self self' \<longleftrightarrow>
     au_refs self' = (\<lambda>a. if a \<in> A then au_refs self a - 1 else au_refs self a) \<and>
     au_users self' = (\<lambda>a. if a \<in> A \<and> au_refs self a \<le> 1 then None else au_users self a)"

lemma auth_clear_seq:
  assumes "rb_seq (au_tree self) xs" "keyed name_cmp (unames self) xs"
  shows "\<exists>self'. hev_socks5_authenticator_clear self = Some self' \<and> rb_root (au_tree self') = 0 \<and>
    after_clear (set xs) self self'"
  using assms
proof (induction xs arbitrary: self)
  case Nil
  then show ?case
    by (subst hev_socks5_authenticator_clear.simps) (simp add: hev_rbtree_first_def after_clear_def)
next
  case (Cons a xs)
  obtain n where n: "unames self a = Some n" using Cons.prems(2) by (auto simp: keyed_Cons)
  have a: "a \<noteq> 0" "a \<notin> set xs" using rb_seq_ptrs [OF Cons.prems(1)] by (auto simp: ptrs_ok_def)
  obtain t where t: "hev_rbtree_erase (au_tree self) a = Some t"
    "rb_seq (au_tree (user_unref a (self\<lparr>au_tree := t\<rparr>))) xs"
    "keyed name_cmp (unames (user_unref a (self\<lparr>au_tree := t\<rparr>))) xs"
    using auth_erase_user [OF Cons.prems, of a n] n by auto
  from Cons.IH [OF t(2,3)] obtain self' where self':
    "hev_socks5_authenticator_clear (user_unref a (self\<lparr>au_tree := t\<rparr>)) = Some self'" "rb_root (au_tree self') = 0"
    "after_clear (set xs) (user_unref a (self\<lparr>au_tree := t\<rparr>)) self'" by blast
  have "hev_socks5_authenticator_clear self = Some self'"
    using a t(1) self'(1) rb_seq_first_last(1) [OF Cons.prems(1)]
    by (subst hev_socks5_authenticator_clear.simps) simp
  moreover have "after_clear (set (a # xs)) self self'"
    using self'(3) a by (auto simp: after_clear_def user_unref_def fun_eq_iff)
  ultimately show ?case using self'(2) by blast
qed

section \<open>Properties\<close>

datatype auth_op = AuthAdd ptr | AuthDel "byte list" | AuthGet "byte list" | AuthClear

fun auth_step :: "auth_op \<Rightarrow> HevSocks5Authenticator \<Rightarrow> ((int + ptr) \<times> HevSocks5Authenticator) option" where
  "auth_step (AuthAdd a) self = do { (r, self) \<leftarrow> hev_socks5_authenticator_add self a; Some (Inl r, self) }"
| "auth_step (AuthDel n) self = do { (r, self) \<leftarrow> hev_socks5_authenticator_del self n; Some (Inl r, self) }"
| "auth_step (AuthGet n) self = do { a \<leftarrow> hev_socks5_authenticator_get self n; Some (Inr a, self) }"
| "auth_step AuthClear self = do { self \<leftarrow> hev_socks5_authenticator_clear self; Some (Inl 0, self) }"

text \<open>The same operations on a map. Of the authenticator it only uses a user's name.\<close>

fun map_step ::
  "auth_op \<Rightarrow> HevSocks5Authenticator \<Rightarrow> (byte list \<Rightarrow> ptr option) \<Rightarrow> (int + ptr) \<times> (byte list \<Rightarrow> ptr option)" where
  "map_step (AuthAdd a) self m =
     (let n = the (unames self a) in if m n = None then (Inl 0, m(n \<mapsto> a)) else (Inl (-1), m))"
| "map_step (AuthDel n) self m = (if m n = None then (Inl (-1), m) else (Inl 0, m(n := None)))"
| "map_step (AuthGet n) self m = (Inr (case m n of None \<Rightarrow> 0 | Some a \<Rightarrow> a), m)"
| "map_step AuthClear self m = (Inl 0, Map.empty)"

text \<open>A user that is added is a live object outside the table.\<close>

fun op_ok :: "auth_op \<Rightarrow> HevSocks5Authenticator \<Rightarrow> (byte list \<Rightarrow> ptr option) \<Rightarrow> bool" where
  "op_ok (AuthAdd a) self m \<longleftrightarrow>
     unames self a \<noteq> None \<and> node_at (au_tree self) a \<noteq> None \<and> aligned a \<and> a \<notin> ran m"
| "op_ok _ self m \<longleftrightarrow> True"

text \<open>
  C5: The authenticator refines a finite map from names to users: every operation on a table that
  represents a map succeeds with all memory accesses inside live nodes, returns what the
  operation on the map returns, and leaves a table that represents the resulting map. A name
  that is taken is refused, and removing an unknown name fails.
\<close>

theorem authenticator_refines_map:
  assumes "auth_rep self m" "op_ok p self m"
  shows "\<exists>self'. auth_step p self = Some (fst (map_step p self m), self') \<and> auth_rep self' (snd (map_step p self m))"
proof (cases p)
  case (AuthAdd a)
  then obtain u where u: "deref (au_users self) a = Some u" using assms(2) by (auto simp: unames_def)
  then have "unames self a = Some (user_name u)" by (simp add: unames_def)
  then show ?thesis
    using auth_add_refines [OF assms(1) u] assms by (auto simp: AuthAdd Let_def split: if_splits)
next
  case (AuthDel n)
  then show ?thesis using auth_del_refines [OF assms(1), of n] assms(1) by (cases "m n") auto
next
  case (AuthGet n)
  then show ?thesis using auth_get_refines [OF assms(1), of n] assms(1) by simp
next
  case AuthClear
  obtain xs where "rb_seq (au_tree self) xs" "keyed name_cmp (unames self) xs" using assms(1) by (auto simp: auth_rep_def)
  from auth_clear_seq [OF this] obtain self' where
    "hev_socks5_authenticator_clear self = Some self'" "rb_root (au_tree self') = 0" by blast
  moreover from this have "auth_rep self' Map.empty"
    by (auto simp: auth_rep_def keyed_def intro!: exI [of _ "[]"])
  ultimately show ?thesis by (simp add: AuthClear)
qed

lemma example_table_seq:
  "rb_seq (au_tree example_table) [8]" "unames example_table 8 = Some [117]" "keyed name_cmp (unames example_table) [8]"
proof -
  show "rb_seq (au_tree example_table) [8]"
    unfolding rb_seq_def
    by (rule exI [of _ "N Blk 8 E E"])
      (simp add: srep_def example_table_def node_at_def deref_def mknode_def enc_def HEV_RBTREE_BLACK_def
        rb_ok_def ptrs_ok_def aligned_def)
  show u: "unames example_table 8 = Some [117]"
    by (simp add: unames_def example_table_def deref_def example_user_def)
  then show "keyed name_cmp (unames example_table) [8]" by (simp add: keyed_def)
qed

lemma example_table_rep: "auth_rep example_table [[117] \<mapsto> 8]"
  unfolding auth_rep_def using example_table_seq
  by (intro exI [of _ "[8]"]) (auto simp: keymap_def fun_eq_iff)

lemma authenticator_refines_map_witness:
  "\<exists>self'. auth_step (AuthDel [117]) example_table = Some (Inl 0, self') \<and> auth_rep self' Map.empty"
  using authenticator_refines_map [OF example_table_rep, of "AuthDel [117]"] by simp

text \<open>
  C22: Removing all users ends. Every user of the table loses exactly one reference, the users
  that had no other are destroyed, all others stay as they are, and the table is empty.
\<close>

theorem authenticator_clear_ends:
  assumes "auth_rep self m"
  shows "\<exists>self'. hev_socks5_authenticator_clear self = Some self' \<and> auth_rep self' Map.empty \<and>
    au_refs self' = (\<lambda>a. if a \<in> ran m then au_refs self a - 1 else au_refs self a) \<and>
    au_users self' = (\<lambda>a. if a \<in> ran m \<and> au_refs self a \<le> 1 then None else au_users self a)"
proof -
  obtain xs where xs: "rb_seq (au_tree self) xs" "keyed name_cmp (unames self) xs" "keymap (unames self) xs = m"
    using assms by (auto simp: auth_rep_def)
  have "ran m = set xs"
    using users.keymap_eq_Some [OF xs(2)] xs(2) by (auto simp: ran_def xs(3) [symmetric] keyed_def)
  moreover have "rb_root (au_tree self') = 0 \<Longrightarrow> auth_rep self' Map.empty" for self'
    by (auto simp: auth_rep_def keyed_def intro!: exI [of _ "[]"])
  ultimately show ?thesis using auth_clear_seq [OF xs(1,2)] by (auto simp: after_clear_def)
qed

lemma authenticator_clear_ends_witness:
  "\<exists>self'. hev_socks5_authenticator_clear example_table = Some self' \<and> au_users self' 8 = None"
proof -
  have "8 \<in> ran [[117 :: byte] \<mapsto> (8 :: ptr)]" by simp
  with authenticator_clear_ends [OF example_table_rep] show ?thesis
    by (auto simp: example_table_def)
qed



end
