(* ===== verification/Spec2Isabelle.thy ===== *)
theory Spec2Isabelle
  imports RingBuffer HevList UdpFraming Socks5Server ConfigFacts SessionFlow UdpQueue TunnelFacts Lifecycle
    Program Service TaskIOFacts TunDevice MappedDNSTable AuthTable
begin

text \<open>
  \<^bold>\<open>A model of hev-socks5-tunnel.\<close> The program takes IP packets from a tunnel device, gives them to
  the TCP/IP stack lwIP, and carries every TCP connection and UDP association that lwIP accepts
  over a SOCKS5 server. It lies in \<open>src/main/jni/hev-socks5-tunnel/src\<close>; file names below
  are relative to that directory, and \<open>core/src\<close> is its SOCKS5 library. The development
  translates its C code definition by definition, under the names of the C functions, and proves
  what makes the parts correct.

  \<^bold>\<open>How the parts interact.\<close> \<open>hev-main.c\<close> reads the configuration and runs the tunnel.
  The tunnel has three tasks (packets in, timers of lwIP, stopping) and one task per session; the
  handlers lwIP calls create sessions and put them in a list. A TCP session connects to the SOCKS5
  server as a client, then copies in both directions, through a chain of packet buffers one way
  and a ring buffer the other. A UDP session queues the datagrams of lwIP and sends them in frames.
  A name that a client asks the tunnel for is answered by the mapped DNS with an address of a
  private network, and mapped back when a connection to that address is opened.

  \<^bold>\<open>How the code is modelled.\<close>
  \<^item> A function that can do something undefined (follow a NULL or dangling pointer, leave an
    object, use an unassigned variable, overflow a signed integer) returns an option; None is
    undefined behaviour, so a theorem that a result is Some also says that there is none.
  \<^item> Return codes are the integers of the C code. Machine integers are words where they can
    wrap around, and integers with a range check where overflow is undefined.
  \<^item> Memory that is shared through pointers (list nodes, tree nodes, UDP frames, users) is a heap
    from addresses to records. Byte buffers are byte lists with bounds-checked access.
  \<^item> What the kernel does is a script in the record \<open>world\<close> of \<open>SockIO\<close>: what each receive
    finds, how much each send takes, the results of system calls and allocations; it also keeps
    the open descriptors and live blocks. Theorems hold for every script, or say which they need.
  \<^item> Loops over data are structural recursions; loops over pointers use
    \<open>partial_function (option)\<close> or fuel. Running out of fuel is None, so it is excluded by
    the theorems: the fuel of \<open>terminate_all\<close> is at least the number of sessions, that of
    \<open>udp_free_frames\<close> is 513, the most frames a session can hold. A loop of waits
    consumes a script of them, the last of which times out. The rounds of the server's UDP relay
    have a fuel whose end is reported as a relay that is still running.

  \<^bold>\<open>The theories.\<close>
  \<^item> \<open>Prelude\<close>: machine types, byte order, heaps, byte buffers, C strings, and the
    collections \<open>heap_simps\<close> and \<open>bytes_simps\<close>.
  \<^item> \<open>RingBuffer\<close> (\<open>misc/hev-ring-buffer\<close>): the locale \<open>byte_fifo\<close> states
    what a byte stream with acknowledgements promises; the ring buffer is an interpretation.
  \<^item> \<open>HevList\<close> (\<open>misc/hev-list\<close>): the locale \<open>intrusive_list\<close>, interpreted on
    the linked list at pointer level. The tunnel's session set and the frames of UDP sessions rest
    on its laws.
  \<^item> \<open>Socks5Misc\<close>, \<open>SockIO\<close>, \<open>Socks5Base\<close> (\<open>core/src/hev-socks5-proto.h\<close>,
    \<open>hev-socks5-misc.c\<close>, \<open>hev-socks5.c\<close>, and the stream loops of the task system).
  \<^item> \<open>Socks5Client\<close>, \<open>ClientHandshake\<close> (\<open>core/src/hev-socks5-client*.c\<close>): the
    locale \<open>upstream_client\<close> is what a kind of client provides to the handshake; it is
    interpreted on the TCP and the UDP client. The lemmas give, for every reply of the server, the
    result and the bytes sent, in the standard and in the pipelined mode.
  \<^item> \<open>Socks5Udp\<close>, \<open>UdpFraming\<close> (\<open>core/src/hev-socks5-udp.c\<close>, \<open>hev-socks5-tcp.c\<close>):
    the relay of datagrams; its framing in a TCP stream is inverted by the receiver.
  \<^item> \<open>Socks5Server\<close>, \<open>ServerAuth\<close> (\<open>core/src/hev-socks5-server.c\<close>,
    \<open>hev-socks5-user.c\<close>): the server; its authentication is followed through the byte stream.
  \<^item> \<open>RBTree\<close> (\<open>core/src/hev-rbtree\<close>): insertion, removal and traversal at pointer level.
    \<open>RBTreeRep\<close> says which functional tree a store of nodes represents, below a position and
    along the path above it; \<open>RBTreeInsert\<close> and \<open>RBTreeErase\<close> prove that the loops of the
    code, cases 1 to 4 of each, end with a balanced tree that has gained or lost exactly the
    node; \<open>RBTreeSeq\<close> is the view of its users, a sequence of addresses; \<open>RBTreeIndex\<close> states
    it as the locales \<open>ordered_index\<close>, \<open>comparison\<close> and \<open>keyed_index\<close>, the last of
    which gives each table built on the tree the operations of a finite map.
  \<^item> \<open>Authenticator\<close>, \<open>AuthTable\<close> (\<open>core/src/hev-socks5-authenticator.c\<close>): the users of
    a server in the tree, which refine a map from names to users; \<open>keyed_index\<close> is interpreted
    on the order of names that the code uses.
  \<^item> \<open>MappedDNS\<close>, \<open>MappedDNSFacts\<close>, \<open>MappedDNSTable\<close> (\<open>hev-mapped-dns.c\<close>): the table
    of names and the handler of queries; the bytes of its reply; the refinement of the table
    (tree, recency list and array of records together) to a least-recently-used cache.
  \<^item> \<open>Config\<close>, \<open>ConfigFacts\<close> (\<open>hev-config.c\<close>): the parser over a YAML document and
    the access functions; an invariant of the character arrays, bounds of the sizes, and the
    meaning of the socks5 section.
  \<^item> \<open>Utils\<close> (\<open>misc/hev-utils.c\<close>): addresses of lwIP and of SOCKS5.
  \<^item> \<open>SessionTCP\<close>, \<open>SessionFlow\<close> (\<open>hev-socks5-session-tcp.c\<close>,
    \<open>hev-socks5-session.c\<close>): the session; the steps of its task and the handlers of lwIP form a
    transition system whose invariant is that both streams are kept.
  \<^item> \<open>SessionUDP\<close>, \<open>UdpQueue\<close> (\<open>hev-socks5-session-udp.c\<close>): the same for
    datagrams, which are a bounded queue.
  \<^item> \<open>Tunnel\<close>, \<open>TunnelFacts\<close> (\<open>hev-socks5-tunnel.c\<close>): start, stop and the
    session set, which refines a list ordered by last use.
  \<^item> \<open>Lifecycle\<close>: what starting the tunnel takes, stopping it gives back, with the table of the
    mapped DNS.
  \<^item> \<open>TunDevice\<close> (\<open>hev-tunnel-linux.c\<close>): the device on Linux with its requests to the kernel, which
    refines the device that \<open>Tunnel\<close> leaves open.
  \<^item> \<open>CircularBuffer\<close>, \<open>TaskIO\<close>, \<open>TaskIOFacts\<close> (\<open>hev-circular-buffer.c\<close> and \<open>hev-task-io.c\<close> of
    the task system): the copy loop of the TCP relay, in its builds with circular buffers and with
    pipes, which interpret the locale \<open>splicer\<close> of one direction; it relays two streams.
  \<^item> \<open>Logger\<close> (\<open>misc/hev-logger.c\<close>, \<open>core/src/hev-socks5-logger.c\<close>): opening and closing, the
    levels, and the line that a call writes, with the arrays on its stack.
  \<^item> \<open>Program\<close> (\<open>hev-main.c\<close>, \<open>run_as_daemon\<close> of \<open>misc/hev-utils.c\<close>): the sequence of
    starting up and shutting down, with what an early return leaves open.
  \<^item> \<open>Service\<close> (\<open>hev-jni.c\<close>): starting and stopping the program from Java, in a thread.

  \<^bold>\<open>Parameters.\<close> The resolver, \<open>inet_pton\<close>, the YAML document with its nodes, the connection
  of lwIP (what it is given, its send space and the errors it returns), what the kernel writes
  back to a request for the device, and the virtual functions of the object classes are arguments
  of the definitions that use them. The model of the server takes the copy loop as an argument
  too, since its world has one connection; \<open>hev_socks5_tcp_relay\<close> runs it between two.
  \<open>hev_task_mutex_lock\<close> is the granularity of the steps of \<open>SessionFlow\<close>.

  \<^bold>\<open>Not modelled.\<close> The log lines of the other components, whose only effect is
  output; reference counts and class tables of the vendored objects, but for the counts of users;
  the drivers of the tunnel device for systems other than Linux and the script runner, which are
  system calls without state of their own; the Android application and \<open>xtunnel.go\<close>,
  which are other languages; lwIP, the scheduler of the task system and the YAML library, but for
  the functions named above. Of the tables kept in red-black trees, a name whose copy could not be
  allocated is outside the theorems. The service of the server after its handshake has no theorem
  of its own, but for the copy loop it runs.
\<close>

section \<open>Client and server together\<close>

lemma msg_methods_creds:
  assumes "auth_user c = Some n" "auth_pass c = Some p" "length n < 256" "length p < 256"
  shows "msg_methods c = methods_msg [2]" "msg_creds c = creds_msg n p"
  using assms
  by (simp_all add: msg_methods_def methods_msg_def creds_set_def msg_creds_def cred_bytes_def
      creds_msg_def unat_of_nat take_bit_eq_mod)

lemma standard_sent_accepted:
  assumes "msg_methods c = methods_msg [2]" "s = [5, 2, 1, 0] @ z"
  shows "standard_sent c a s = pipeline_sent c a"
  using assms by (simp add: standard_sent_def pipeline_sent_def reply_method_def reply_creds_def)

text \<open>
  C9: The client's half of the authentication fits the server's: a TCP client with a user name and
  a password of the lengths the protocol allows, in either mode, sends what makes a server that
  knows this user accept it, and the server has then read exactly up to the request. Waiting
  for the replies [5, 2] and [1, 0], as the standard mode does, is sound, because these are
  the four bytes the server sends.
\<close>

theorem client_server_auth:
  assumes "ctcp_addr c = Some a" "addr_valid a" "sk_type c = HEV_SOCKS5_TYPE_TCP"
    and "auth_user c = Some n" "auth_pass c = Some (user_pass user)"
    and "n \<noteq> []" "length n < 256" "user_pass user \<noteq> []" "length (user_pass user) < 256"
    and "w_ok wc" "tx_reliable wc" "w_tx wc = []" "pipeline \<or> (\<exists>z. w_avail wc = [5, 2, 1, 0] @ z)"
    and "hev_socks5_client_handshake cfg hev_socks5_client_tcp_get_upstream_addr
      hev_socks5_client_tcp_set_upstream_addr c pipeline wc = Some (r, c', wc')"
    and "w_ok ws" "tx_reliable ws" "w_avail ws = w_tx wc'"
    and "srv_obj s = AuthObj au" "get au n = Some user"
  shows "\<exists>ws'. hev_socks5_server_auth get s ws = Some (0, s\<lparr>srv_obj := UserObj user\<rparr>, ws') \<and>
    w_avail ws' = msg_request HEV_SOCKS5_TYPE_TCP a \<and> w_tx ws' = w_tx ws @ [5, 2, 1, 0]"
proof -
  have ready: "tcp_ready c" "request_cmd (sk_type c) \<noteq> None"
    using assms(1-3) by (simp_all add: tcp_ready_def request_cmd_def)
  have a: "the (ctcp_addr c) = a" using assms(1) by simp
  note m = msg_methods_creds [OF assms(4,5,7,9)]
  have "w_tx wc' = (if pipeline then pipeline_sent c a else standard_sent c a (w_avail wc))"
    using tcp.handshake_result [OF ready(1) assms(10,11) ready(2), of cfg pipeline, unfolded a] assms(12,14)
    by auto
  then have "w_avail ws = methods_msg [2] @ creds_msg n (user_pass user) @ msg_request (sk_type c) a"
    using assms(13,17) standard_sent_accepted [OF m(1)] m by (auto simp: pipeline_sent_def)
  from server_auth_accepts [where get = get, OF this _ _ assms(6-9,19,18,15,16)]
  show ?thesis using assms(3) by fastforce
qed

lemma client_server_auth_witness:
  "\<exists>ws'. hev_socks5_server_auth (\<lambda>_ nm. if nm = [117] then Some \<lparr>user_name = [117], user_pass = [112, 119]\<rparr> else None)
      (hev_socks5_server_set_auth HevSocks5Server_zero ())
      (example_world [5, 1, 2, 1, 1, 117, 2, 112, 119, 5, 1, 0, 1, 10, 0, 0, 1, 0, 80]) =
      Some (0, (hev_socks5_server_set_auth HevSocks5Server_zero ())\<lparr>srv_obj :=
        UserObj \<lparr>user_name = [117], user_pass = [112, 119]\<rparr>\<rparr>, ws') \<and>
    w_tx ws' = [5, 2, 1, 0]"
proof -
  let ?a = "\<lparr>atype = 1, body = [10, 0, 0, 1, 0, 80]\<rparr>"
  let ?user = "\<lparr>user_name = [117], user_pass = [112, 119]\<rparr>"
  let ?sent = "[5, 1, 2, 1, 1, 117, 2, 112, 119, 5, 1, 0, 1, 10, 0, 0, 1, 0, 80] :: byte list"
  have c: "ctcp_addr example_tcp = Some ?a" "addr_valid ?a" "sk_type example_tcp = HEV_SOCKS5_TYPE_TCP"
    "auth_user example_tcp = Some [117]" "auth_pass example_tcp = Some (user_pass ?user)"
    by (simp_all add: example_tcp_def addr_valid_def addr_size_def)
  have ready: "tcp_ready example_tcp" "request_cmd (sk_type example_tcp) \<noteq> None"
    using c(1-3) by (simp_all add: tcp_ready_def request_cmd_def)
  have "pipeline_sent example_tcp ?a = ?sent" by code_simp
  with tcp.handshake_result [OF ready(1) example_world_ok ready(2), of socks5_settings_init True "[]"] c(1)
  obtain r c' wc' where h: "hev_socks5_client_handshake socks5_settings_init hev_socks5_client_tcp_get_upstream_addr
      hev_socks5_client_tcp_set_upstream_addr example_tcp True (example_world []) = Some (r, c', wc')"
    "w_tx wc' = ?sent"
    by (auto simp: example_world_def)
  have s: "w_avail (example_world ?sent) = w_tx wc'" "w_tx (example_world bs) = []" for bs
    by (simp_all add: h(2) example_world_def w_avail_def)
  from client_server_auth [OF c _ _ _ _ example_world_ok s(2) _ h(1) example_world_ok s(1),
      of "hev_socks5_server_set_auth HevSocks5Server_zero ()" "()"
        "\<lambda>_ nm. if nm = [117] then Some ?user else None"] s(2)
  show ?thesis by (auto simp: hev_socks5_server_set_auth_def)
qed

end
